(* ===== verification/Go_Prelude.thy ===== *)
theory Go_Prelude
  imports Main "HOL-Library.Word" "HOL-Library.AList"
begin

section \<open>Prelude: Go's integers, maps and the shared automation\<close>

text \<open>
  What every component of the development shares: the collections of facts that carry the
  component proofs, Go's 64-bit signed arithmetic with its wrap-around written out, integer
  division truncated towards zero, and lemmas on association lists, which model the Go maps the
  code iterates over (the order of the list is the order of one \<open>range\<close> loop; Go leaves it
  unspecified, so a fact about a map that is iterated over is stated for every order).
  A Go map that is only read and written by key is a map \<open>'k \<rightharpoonup> 'v\<close>.
\<close>

named_theorems op_defs \<open>definitions of a component's operations\<close>
named_theorems frame \<open>fields that an operation leaves alone\<close>

subsection \<open>int64\<close>

definition wrap64 :: "int \<Rightarrow> int" where
  "wrap64 x = (x + 9223372036854775808) mod 18446744073709551616 - 9223372036854775808"

definition in_i64 :: "int \<Rightarrow> bool" where
  "in_i64 x \<longleftrightarrow> - 9223372036854775808 \<le> x \<and> x < 9223372036854775808"

lemma wrap64_id [simp]: "in_i64 x \<Longrightarrow> wrap64 x = x"
  by (simp add: wrap64_def in_i64_def)

lemma wrap64_range: "in_i64 (wrap64 x)"
  by (simp add: wrap64_def in_i64_def)

lemma clamp0: "(if x < 0 then 0 else x) = max 0 (x::int)"
  by simp

lemma in_i64_mono: "in_i64 y \<Longrightarrow> 0 \<le> x \<Longrightarrow> x \<le> y \<Longrightarrow> in_i64 x"
  by (simp add: in_i64_def)

text \<open>Go's \<open>/\<close> on signed integers truncates towards zero.\<close>

definition go_quot :: "int \<Rightarrow> int \<Rightarrow> int" where
  "go_quot a b = sgn a * sgn b * (\<bar>a\<bar> div \<bar>b\<bar>)"

lemma go_quot_nonneg: "0 \<le> a \<Longrightarrow> 0 < b \<Longrightarrow> go_quot a b = a div b"
  by (cases "a = 0") (simp_all add: go_quot_def)

subsection \<open>Association lists as maps under iteration\<close>

definition akeys :: "('k \<times> 'v) list \<Rightarrow> 'k list" where
  "akeys m = map fst m"

lemma akeys_Nil [simp]: "akeys [] = []"
  and akeys_Cons [simp]: "akeys (p # m) = fst p # akeys m"
  and akeys_append [simp]: "akeys (m @ m') = akeys m @ akeys m'"
  by (simp_all add: akeys_def)

lemma map_of_None_akeys: "map_of m k = None \<longleftrightarrow> k \<notin> set (akeys m)"
  by (simp add: map_of_eq_None_iff akeys_def)

lemma akeys_update_distinct: "distinct (akeys m) \<Longrightarrow> distinct (akeys (AList.update k v m))"
  by (simp add: akeys_def distinct_update)

lemma akeys_filter_distinct: "distinct (akeys m) \<Longrightarrow> distinct (akeys (filter P m))"
  unfolding akeys_def by (induction m) auto

lemma map_of_alist_update [simp]: "map_of (AList.update k v m) = (map_of m)(k \<mapsto> v)"
  by (rule ext) (simp add: update_conv)

text \<open>The entries of an updated association list.\<close>

lemma set_alist_update:
  "distinct (map fst ps) \<Longrightarrow> set (AList.update m p' ps) = {(k, q). (k, q) \<in> set ps \<and> k \<noteq> m} \<union> {(m, p')}"
proof (induction ps)
  case (Cons a ps)
  then show ?case by (cases a) (auto simp: image_iff split: if_splits)
qed simp

lemma list_all_alist_update:
  "list_all P ps \<Longrightarrow> P (m, p) \<Longrightarrow> list_all P (AList.update m p ps)"
  by (induction ps) auto

lemma map_of_filter_key:
  "map_of (filter (\<lambda>kv. P (fst kv)) m) k = (if P k then map_of m k else None)"
  by (induction m) auto

text \<open>A map rebuilt by a loop over its entries.\<close>

lemma foldl_upd_map_of:
  "foldl (\<lambda>m kv. m(fst kv \<mapsto> snd kv)) m0 kvs = m0 ++ map_of (rev kvs)"
  by (induction kvs arbitrary: m0) (auto simp: map_add_def fun_eq_iff split: option.splits)

lemma map_of_rev_distinct:
  assumes "distinct (akeys kvs)" shows "map_of (rev kvs) = map_of kvs"
proof
  fix k
  have d: "distinct (map fst (rev kvs))" "distinct (map fst kvs)"
    using assms by (simp_all add: akeys_def rev_map [symmetric])
  show "map_of (rev kvs) k = map_of kvs k"
  proof (cases "map_of kvs k")
    case None
    then have "k \<notin> fst ` set kvs" by (simp add: map_of_eq_None_iff)
    then have "map_of (rev kvs) k = None" by (simp add: map_of_eq_None_iff)
    with None show ?thesis by simp
  next
    case (Some v)
    then show ?thesis using d by (simp add: map_of_eq_Some_iff)
  qed
qed

text \<open>The sum of the values, in any order.\<close>

definition vsum :: "('k \<times> int) list \<Rightarrow> int" where
  "vsum m = sum_list (map snd m)"

lemma vsum_Nil [simp]: "vsum [] = 0"
  and vsum_Cons [simp]: "vsum (p # m) = snd p + vsum m"
  and vsum_append [simp]: "vsum (m @ m') = vsum m + vsum m'"
  by (simp_all add: vsum_def)

lemma vsum_filter_split: "vsum m = vsum (filter P m) + vsum (filter (\<lambda>p. \<not> P p) m)"
  by (induction m) auto

lemma vsum_nonneg: "(\<And>p. p \<in> set m \<Longrightarrow> 0 \<le> snd p) \<Longrightarrow> 0 \<le> vsum m"
  by (induction m) auto

lemma vsum_update_new: "k \<notin> set (akeys m) \<Longrightarrow> vsum (AList.update k v m) = vsum m + v"
  by (induction m) auto

lemma set_update_subset: "set (AList.update k v m) \<subseteq> insert (k, v) (set m)"
  by (induction m) auto

lemma distinct_filter_eq: "distinct xs \<Longrightarrow> length (filter (\<lambda>y. y = x) xs) = (if x \<in> set xs then 1 else 0)"
  by (induction xs) auto

subsection \<open>First match\<close>

text \<open>A loop that returns at the first element that passes a test.\<close>

lemma find_Some_split:
  "find P xs = Some x \<longleftrightarrow> (\<exists>ys zs. xs = ys @ x # zs \<and> P x \<and> (\<forall>y\<in>set ys. \<not> P y))"
proof
  assume "find P xs = Some x"
  then show "\<exists>ys zs. xs = ys @ x # zs \<and> P x \<and> (\<forall>y\<in>set ys. \<not> P y)"
  proof (induction xs)
    case (Cons a xs)
    show ?case
    proof (cases "P a")
      case True
      with Cons.prems show ?thesis by (intro exI [of _ "[]"] exI [of _ xs]) auto
    next
      case False
      with Cons obtain ys zs where "xs = ys @ x # zs" "P x" "\<forall>y\<in>set ys. \<not> P y" by auto
      with False show ?thesis by (intro exI [of _ "a # ys"] exI [of _ zs]) auto
    qed
  qed simp
next
  assume "\<exists>ys zs. xs = ys @ x # zs \<and> P x \<and> (\<forall>y\<in>set ys. \<not> P y)"
  then obtain ys zs where "xs = ys @ x # zs" "P x" "\<forall>y\<in>set ys. \<not> P y" by blast
  then show "find P xs = Some x" by (induction ys arbitrary: xs) auto
qed

end
