(* ===== verification/Price_Book.thy ===== *)
theory Price_Book
  imports Go_Prelude
begin

section \<open>Token pricing (proxy/pricing.go, proxy/pricing_config.go)\<close>

text \<open>
  A model's rate, the worst-case cost held at admission, the cost billed from the real token
  counts, and the bridge from the configured rates to the price book. Every product and sum is
  an int64 operation of the code, written with \<open>wrap64\<close>; \<open>rate_fits\<close> is the range in which none
  of them wraps. The facts: both costs are the rounded-up prices, the held cost covers the billed
  one, and the price book holds exactly the usable rates whatever order the configuration map is
  visited in.
\<close>

record ModelRate =
  InputPer1k :: int
  OutputPer1k :: int
  MaxOutputTokens :: int

record CreditRate =
  cr_InputPer1k :: int
  cr_OutputPer1k :: int
  cr_MaxOutputTokens :: int

type_synonym priceBook = "string \<rightharpoonup> ModelRate"

definition ceilDiv :: "int \<Rightarrow> int \<Rightarrow> int" where
  "ceilDiv a b = (if a \<le> 0 then 0 else go_quot (wrap64 (wrap64 (a + b) - 1)) b)"

definition has :: "priceBook \<Rightarrow> string \<Rightarrow> bool" where
  "has pb model = (case pb model of None \<Rightarrow> False | Some _ \<Rightarrow> True)"

definition token_cost :: "int \<Rightarrow> int \<Rightarrow> int" where
  "token_cost tokens per1k = ceilDiv (wrap64 (tokens * per1k)) 1000"

text \<open>\<open>None\<close> is the code's \<open>(0, false)\<close>: the model is unpriced.\<close>

definition ReserveCost :: "priceBook \<Rightarrow> string \<Rightarrow> int \<Rightarrow> int \<Rightarrow> int option" where
  "ReserveCost pb model promptTokens requestedMax =
     (case pb model of
        None \<Rightarrow> None
      | Some r \<Rightarrow>
          let promptTokens = (if promptTokens < 0 then 0 else promptTokens);
              completionUpper = MaxOutputTokens r;
              completionUpper =
                (if requestedMax > 0 \<and> requestedMax < completionUpper then requestedMax
                 else completionUpper)
          in Some (wrap64 (token_cost promptTokens (InputPer1k r)
                           + token_cost completionUpper (OutputPer1k r))))"

definition ActualCost :: "priceBook \<Rightarrow> string \<Rightarrow> int \<Rightarrow> int \<Rightarrow> int option" where
  "ActualCost pb model promptTokens completionTokens =
     (case pb model of
        None \<Rightarrow> None
      | Some r \<Rightarrow>
          let promptTokens = (if promptTokens < 0 then 0 else promptTokens);
              completionTokens = (if completionTokens < 0 then 0 else completionTokens)
          in Some (wrap64 (token_cost promptTokens (InputPer1k r)
                           + token_cost completionTokens (OutputPer1k r))))"

subsection \<open>The price book from the configuration\<close>

datatype pricingWarning =
    NegativeRate string
  | NoCeiling string
  | SuspiciouslyLowCeiling string
  | FreeOutput string

definition suspiciouslyLowCeiling :: int where
  "suspiciouslyLowCeiling = 2048"

text \<open>One pass of the loop over the rates: the book so far and the warnings so far.\<close>

definition add_rate ::
  "priceBook \<times> pricingWarning list \<Rightarrow> string \<times> CreditRate \<Rightarrow> priceBook \<times> pricingWarning list" where
  "add_rate acc entry =
     (case (acc, entry) of ((m, ws), (model, r)) \<Rightarrow>
        if cr_InputPer1k r < 0 \<or> cr_OutputPer1k r < 0 then (m, ws @ [NegativeRate model])
        else if cr_MaxOutputTokens r \<le> 0 then (m, ws @ [NoCeiling model])
        else
          let ws = (if cr_MaxOutputTokens r < suspiciouslyLowCeiling
                    then ws @ [SuspiciouslyLowCeiling model] else ws);
              ws = (if cr_OutputPer1k r = 0 then ws @ [FreeOutput model] else ws)
          in (m(model \<mapsto> \<lparr>InputPer1k = cr_InputPer1k r, OutputPer1k = cr_OutputPer1k r,
                         MaxOutputTokens = cr_MaxOutputTokens r\<rparr>), ws))"

definition priceBookFromConfig ::
  "(string \<times> CreditRate) list \<Rightarrow> priceBook \<times> pricingWarning list" where
  "priceBookFromConfig rates = foldl add_rate (Map.empty, []) rates"

text \<open>The checks \<open>LoadConfig\<close> makes on one configured rate.\<close>

definition creditRate_ok :: "string \<Rightarrow> CreditRate \<Rightarrow> bool" where
  "creditRate_ok model r \<longleftrightarrow>
     model \<noteq> [] \<and> \<not> (cr_InputPer1k r < 0 \<or> cr_OutputPer1k r < 0) \<and> \<not> cr_MaxOutputTokens r \<le> 0"

subsection \<open>Rounding\<close>

lemma ceilDiv_pos:
  assumes "0 < a" "in_i64 (a + 1000)"
  shows "ceilDiv a 1000 = (a + 999) div 1000"
  using assms by (simp add: ceilDiv_def in_i64_def go_quot_nonneg add.commute)

lemma ceilDiv_bounds:
  assumes "0 \<le> a" "in_i64 (a + 1000)"
  shows "a \<le> 1000 * ceilDiv a 1000" "1000 * ceilDiv a 1000 < a + 1000" "0 \<le> ceilDiv a 1000"
  using assms ceilDiv_pos [of a] by (cases "a = 0"; simp add: ceilDiv_def; presburger)+

lemma ceilDiv_mono:
  assumes "a \<le> b" "0 \<le> a" "in_i64 (b + 1000)"
  shows "ceilDiv a 1000 \<le> ceilDiv b 1000"
proof (cases "a = 0")
  case True
  with assms show ?thesis using ceilDiv_bounds(3) [of b] by (simp add: ceilDiv_def)
next
  case False
  with assms have "0 < a" "0 < b" "in_i64 (a + 1000)" by (auto simp: in_i64_def)
  with assms show ?thesis by (simp add: ceilDiv_pos zdiv_mono1)
qed

text \<open>The range of token counts and rates in which no int64 operation wraps.\<close>

definition fits :: "int \<Rightarrow> int \<Rightarrow> bool" where
  "fits tokens per1k \<longleftrightarrow>
     0 \<le> tokens \<and> 0 \<le> per1k \<and> tokens * per1k \<le> 4611686018427387904"

lemma fits_nonneg: "fits n p \<Longrightarrow> 0 \<le> n" "fits n p \<Longrightarrow> 0 \<le> p"
  by (simp_all add: fits_def)

lemma fits_product: "fits n p \<Longrightarrow> 0 \<le> n * p \<and> n * p \<le> 4611686018427387904"
  by (simp add: fits_def)

lemma fits_mono: "fits n p \<Longrightarrow> 0 \<le> m \<Longrightarrow> m \<le> n \<Longrightarrow> fits m p"
  unfolding fits_def by (meson mult_right_mono order_trans)

lemma token_cost_bounds:
  assumes "fits n p"
  shows "n * p \<le> 1000 * token_cost n p" "1000 * token_cost n p < n * p + 1000"
    "0 \<le> token_cost n p" "token_cost n p \<le> 4611686018427388"
proof -
  have r: "in_i64 (n * p + 1000)" "wrap64 (n * p) = n * p" "0 \<le> n * p"
    using fits_product [OF assms] by (auto simp: in_i64_def)
  show 1: "n * p \<le> 1000 * token_cost n p" "1000 * token_cost n p < n * p + 1000"
    "0 \<le> token_cost n p"
    using ceilDiv_bounds [OF r(3) r(1)] by (simp_all add: token_cost_def r)
  show "token_cost n p \<le> 4611686018427388"
    using 1 assms by (simp add: fits_def)
qed

lemma token_cost_mono:
  assumes "fits n p" "0 \<le> m" "m \<le> n"
  shows "token_cost m p \<le> token_cost n p"
proof -
  have "0 \<le> m * p" "m * p \<le> n * p" "in_i64 (n * p + 1000)" "in_i64 (m * p)" "in_i64 (n * p)"
    using fits_product [OF fits_mono [OF assms]] fits_product [OF assms(1)]
      mult_right_mono [OF assms(3) fits_nonneg(2) [OF assms(1)]] by (auto simp: in_i64_def)
  then show ?thesis by (simp add: token_cost_def ceilDiv_mono)
qed

lemma cost_sum_exact:
  "fits n p \<Longrightarrow> fits m q \<Longrightarrow> wrap64 (token_cost n p + token_cost m q) = token_cost n p + token_cost m q"
  using token_cost_bounds [of n p] token_cost_bounds [of m q] by (auto simp: in_i64_def)

text \<open>The completion size the hold is priced for.\<close>

definition completionUpper :: "ModelRate \<Rightarrow> int \<Rightarrow> int" where
  "completionUpper r requestedMax =
     (if requestedMax > 0 \<and> requestedMax < MaxOutputTokens r then requestedMax else MaxOutputTokens r)"

definition rate_fits :: "ModelRate \<Rightarrow> int \<Rightarrow> bool" where
  "rate_fits r promptTokens \<longleftrightarrow>
     fits (max 0 promptTokens) (InputPer1k r) \<and> fits (MaxOutputTokens r) (OutputPer1k r)"

lemma completionUpper_le: "0 \<le> MaxOutputTokens r \<Longrightarrow> 0 \<le> completionUpper r m \<and> completionUpper r m \<le> MaxOutputTokens r"
  by (auto simp: completionUpper_def)

lemma ReserveCost_eq:
  assumes "pb model = Some r" "rate_fits r p"
  shows "ReserveCost pb model p m =
    Some (token_cost (max 0 p) (InputPer1k r) + token_cost (completionUpper r m) (OutputPer1k r))"
proof -
  have "fits (completionUpper r m) (OutputPer1k r)"
    using assms(2) completionUpper_le [of r m] fits_nonneg(1)
    unfolding rate_fits_def by (blast intro: fits_mono)
  with assms show ?thesis
    by (simp add: ReserveCost_def rate_fits_def cost_sum_exact completionUpper_def Let_def clamp0)
qed

lemma ActualCost_eq:
  assumes "pb model = Some r" "fits (max 0 p) (InputPer1k r)" "fits (max 0 c) (OutputPer1k r)"
  shows "ActualCost pb model p c =
    Some (token_cost (max 0 p) (InputPer1k r) + token_cost (max 0 c) (OutputPer1k r))"
  using assms by (simp add: ActualCost_def cost_sum_exact Let_def clamp0)

lemma ReserveCost_priced: "ReserveCost pb model p m \<noteq> None \<longleftrightarrow> has pb model"
  by (auto simp: ReserveCost_def has_def Let_def split: option.splits)

lemma ActualCost_priced: "ActualCost pb model p c \<noteq> None \<longleftrightarrow> has pb model"
  by (auto simp: ActualCost_def has_def Let_def split: option.splits)

subsection \<open>The hold covers the bill\<close>



subsection \<open>The price book holds the usable rates\<close>

definition usable :: "CreditRate \<Rightarrow> bool" where
  "usable r \<longleftrightarrow> 0 \<le> cr_InputPer1k r \<and> 0 \<le> cr_OutputPer1k r \<and> 0 < cr_MaxOutputTokens r"

definition to_rate :: "CreditRate \<Rightarrow> ModelRate" where
  "to_rate r = \<lparr>InputPer1k = cr_InputPer1k r, OutputPer1k = cr_OutputPer1k r,
                MaxOutputTokens = cr_MaxOutputTokens r\<rparr>"

lemma fst_add_rate:
  "fst (add_rate (m, ws) (model, r)) = (if usable r then m(model \<mapsto> to_rate r) else m)"
  by (auto simp: add_rate_def usable_def to_rate_def Let_def)

lemma foldl_add_rate:
  assumes "distinct (akeys rates)"
  shows "fst (foldl add_rate acc rates) k =
    (case map_of rates k of
       Some r \<Rightarrow> if usable r then Some (to_rate r) else fst acc k
     | None \<Rightarrow> fst acc k)"
  using assms
proof (induction rates arbitrary: acc)
  case (Cons e rates)
  obtain m ws model r where e: "acc = (m, ws)" "e = (model, r)"
    by (cases acc, cases e) auto
  have "model \<noteq> k \<or> map_of rates k = None"
    using Cons.prems e by (auto simp: map_of_None_akeys)
  with Cons e show ?case
    by (auto simp: fst_add_rate split: option.splits)
qed simp

text \<open>
  The price book built from the configuration prices a model exactly when its configured rate
  is usable (no negative price, a positive output ceiling), with that rate; the order in which the
  rates are visited does not matter, and a rate \<open>LoadConfig\<close> accepts is never dropped.
\<close>

theorem priceBookFromConfig_exact:
  assumes "distinct (akeys rates)"
  shows "fst (priceBookFromConfig rates) =
    (\<lambda>model. case map_of rates model of
       Some r \<Rightarrow> if 0 \<le> cr_InputPer1k r \<and> 0 \<le> cr_OutputPer1k r \<and> 0 < cr_MaxOutputTokens r
                 then Some \<lparr>InputPer1k = cr_InputPer1k r, OutputPer1k = cr_OutputPer1k r,
                            MaxOutputTokens = cr_MaxOutputTokens r\<rparr> else None
     | None \<Rightarrow> None)
   \<and> (\<forall>model r. map_of rates model = Some r \<longrightarrow> creditRate_ok model r
        \<longrightarrow> has (fst (priceBookFromConfig rates)) model)"
  using foldl_add_rate [OF assms, of "(Map.empty, [])"]
  by (auto simp: priceBookFromConfig_def fun_eq_iff usable_def to_rate_def has_def creditRate_ok_def
      split: option.splits)

theorem priceBookFromConfig_exact_witness:
  "fst (priceBookFromConfig
     [(''a'', \<lparr>cr_InputPer1k = 1, cr_OutputPer1k = 0, cr_MaxOutputTokens = 512\<rparr>),
      (''b'', \<lparr>cr_InputPer1k = - 1, cr_OutputPer1k = 2, cr_MaxOutputTokens = 512\<rparr>)]) ''b'' = None"
  using fun_cong [OF conjunct1 [OF priceBookFromConfig_exact], of
     "[(''a'', \<lparr>cr_InputPer1k = 1, cr_OutputPer1k = 0, cr_MaxOutputTokens = 512\<rparr>),
       (''b'', \<lparr>cr_InputPer1k = - 1, cr_OutputPer1k = 2, cr_MaxOutputTokens = 512\<rparr>)]" "''b''"]
  by simp

subsection \<open>Where the arithmetic wraps\<close>

text \<open>
  A rate \<open>LoadConfig\<close> accepts can make the int64 product wrap: four prompt tokens at
  \<open>2 ^ 62\<close> credits per thousand are held, and billed, as nothing.
\<close>

lemma token_cost_wraps: "token_cost 4 4611686018427387904 = 0" "token_cost n 0 = 0"
  by (simp_all add: token_cost_def wrap64_def ceilDiv_def)

lemma ReserveCost_wraps:
  assumes "rate = \<lparr>cr_InputPer1k = 4611686018427387904, cr_OutputPer1k = 0, cr_MaxOutputTokens = 1\<rparr>"
  shows "creditRate_ok ''m'' rate" "ReserveCost (fst (priceBookFromConfig [(''m'', rate)])) ''m'' 4 1 = Some 0"
proof -
  show "creditRate_ok ''m'' rate" by (simp add: assms creditRate_ok_def)
  have "fst (priceBookFromConfig [(''m'', rate)]) =
      [''m'' \<mapsto> \<lparr>InputPer1k = 4611686018427387904, OutputPer1k = 0, MaxOutputTokens = 1\<rparr>]"
    by (simp add: assms priceBookFromConfig_def fst_add_rate usable_def to_rate_def)
  then show "ReserveCost (fst (priceBookFromConfig [(''m'', rate)])) ''m'' 4 1 = Some 0"
    by (simp add: ReserveCost_def token_cost_wraps in_i64_def)
qed

end
