(* ===== verification/Credit_Ledger.thy ===== *)
theory Credit_Ledger
  imports Go_Prelude
begin

section \<open>The per-key credit ledger (proxy/credit_ledger.go)\<close>

text \<open>
  The ledger maps a key to its account; a \<open>Reservation\<close> is an object the caller keeps a pointer
  to, so the state also holds the list of the reservations made, and a pointer is an index of it
  (\<open>None\<close> is Go's nil). Every method runs under the ledger's single mutex, so an execution of any
  number of goroutines is a list of whole operations: \<open>ledger_run\<close>. Credits are exact integers;
  \<open>committed_within_balance\<close> bounds every quantity of a run by the largest pushed balance, so the
  code's int64 arithmetic does not wrap in such a run.
\<close>

record keyCredit =
  allowance :: int
  allowanceVer :: nat
  ackWatermark :: nat
  confirmed :: "(nat \<times> int) list"
  confirmedSum :: int
  confirmedHigh :: nat
  pending :: int
  reserved :: int

record Reservation =
  r_key :: string
  r_cost :: int
  r_done :: bool

record creditLedger =
  keys :: "string \<rightharpoonup> keyCredit"
  skips :: int
  holds :: "Reservation list"

definition zeroCredit :: keyCredit where
  "zeroCredit = \<lparr>allowance = 0, allowanceVer = 0, ackWatermark = 0, confirmed = [],
     confirmedSum = 0, confirmedHigh = 0, pending = 0, reserved = 0\<rparr>"

definition newCreditLedger :: creditLedger where
  "newCreditLedger = \<lparr>keys = Map.empty, skips = 0, holds = []\<rparr>"

subsection \<open>Operations\<close>

definition keyLocked :: "creditLedger \<Rightarrow> string \<Rightarrow> creditLedger \<times> keyCredit" where
  "keyLocked l key =
     (case keys l key of
        None \<Rightarrow> (l\<lparr>keys := (keys l)(key \<mapsto> zeroCredit)\<rparr>, zeroCredit)
      | Some k \<Rightarrow> (l, k))"

definition available :: "keyCredit \<Rightarrow> int" where
  "available k = allowance k - reserved k - pending k - confirmedSum k"

definition put :: "creditLedger \<Rightarrow> string \<Rightarrow> keyCredit \<Rightarrow> creditLedger" where
  "put l key k = l\<lparr>keys := (keys l)(key \<mapsto> k)\<rparr>"

definition Reserve :: "creditLedger \<Rightarrow> string \<Rightarrow> int \<Rightarrow> creditLedger \<times> nat option" where
  "Reserve l key cost =
     (case keyLocked l key of (l, k) \<Rightarrow>
        let cost = (if cost < 0 then 0 else cost)
        in if available k < cost then (l, None)
           else ((put l key (k\<lparr>reserved := reserved k + cost\<rparr>))
                   \<lparr>holds := holds l @ [\<lparr>r_key = key, r_cost = cost, r_done = False\<rparr>]\<rparr>,
                 Some (length (holds l))))"

definition hold_at :: "creditLedger \<Rightarrow> nat \<Rightarrow> Reservation option" where
  "hold_at l h = (if h < length (holds l) then Some (holds l ! h) else None)"

definition latch :: "creditLedger \<Rightarrow> nat \<Rightarrow> Reservation \<Rightarrow> creditLedger" where
  "latch l h r = l\<lparr>holds := (holds l)[h := r\<lparr>r_done := True\<rparr>]\<rparr>"

definition Release :: "creditLedger \<Rightarrow> nat option \<Rightarrow> creditLedger" where
  "Release l rp =
     (case rp of None \<Rightarrow> l
      | Some h \<Rightarrow> (case hold_at l h of None \<Rightarrow> l
        | Some r \<Rightarrow>
            if r_done r then l
            else case keyLocked (latch l h r) (r_key r) of (l, k) \<Rightarrow>
              put l (r_key r) (k\<lparr>reserved := reserved k - r_cost r\<rparr>)))"

definition TrueUp :: "creditLedger \<Rightarrow> nat option \<Rightarrow> int \<Rightarrow> creditLedger \<times> bool" where
  "TrueUp l rp actual =
     (case rp of None \<Rightarrow> (l, False)
      | Some h \<Rightarrow> (case hold_at l h of None \<Rightarrow> (l, False)
        | Some r \<Rightarrow>
            if r_done r then (l, False)
            else
              let actual = (if actual < 0 then 0 else actual);
                  actual = (if actual > r_cost r then r_cost r else actual)
              in case keyLocked (latch l h r) (r_key r) of (l, k) \<Rightarrow>
                (put l (r_key r) (k\<lparr>reserved := reserved k - r_cost r, pending := pending k + actual\<rparr>),
                 True)))"

definition Confirm :: "creditLedger \<Rightarrow> string \<Rightarrow> int \<Rightarrow> nat \<Rightarrow> creditLedger" where
  "Confirm l key cost seq =
     (if cost \<le> 0 then l
      else case keyLocked l key of (l, k) \<Rightarrow>
        if seq \<le> confirmedHigh k then l\<lparr>skips := skips l + 1\<rparr>
        else
          let k = k\<lparr>confirmedHigh := seq\<rparr>;
              k = (if pending k \<ge> cost then k\<lparr>pending := pending k - cost\<rparr> else k\<lparr>pending := 0\<rparr>);
              k = (if seq > ackWatermark k
                   then k\<lparr>confirmed := AList.update seq cost (confirmed k),
                          confirmedSum := confirmedSum k + cost\<rparr>
                   else k)
          in put l key k)"

text \<open>One pass of the loop that ages debits out: the entries left and the running sum.\<close>

definition age_step :: "nat \<Rightarrow> (nat \<times> int) list \<times> int \<Rightarrow> nat \<times> int \<Rightarrow> (nat \<times> int) list \<times> int" where
  "age_step watermark acc entry =
     (case (acc, entry) of ((cs, s), (seq, cost)) \<Rightarrow>
        if seq \<le> watermark then (AList.delete seq cs, s - cost) else (cs, s))"

definition SetAllowance :: "creditLedger \<Rightarrow> string \<Rightarrow> int \<Rightarrow> nat \<Rightarrow> nat \<Rightarrow> creditLedger" where
  "SetAllowance l key balance watermark ver =
     (case keyLocked l key of (l, k) \<Rightarrow>
        if ver < allowanceVer k then l
        else
          let k = k\<lparr>allowanceVer := ver, allowance := balance\<rparr>
          in put l key
               (if watermark > ackWatermark k then
                  (case foldl (age_step watermark) (confirmed k, confirmedSum k) (confirmed k) of
                     (cs, s) \<Rightarrow> k\<lparr>confirmed := cs, confirmedSum := s, ackWatermark := watermark\<rparr>)
                else k))"

definition Available :: "creditLedger \<Rightarrow> string \<Rightarrow> creditLedger \<times> int" where
  "Available l key = (case keyLocked l key of (l, k) \<Rightarrow> (l, available k))"

definition confirmSkips :: "creditLedger \<Rightarrow> int" where
  "confirmSkips l = skips l"

subsection \<open>Reading the ledger\<close>

text \<open>The account of a key, the zero account when there is none; what a caller can observe.\<close>

definition acct :: "creditLedger \<Rightarrow> string \<Rightarrow> keyCredit" where
  "acct l key = (case keys l key of None \<Rightarrow> zeroCredit | Some k \<Rightarrow> k)"

definition avail :: "creditLedger \<Rightarrow> string \<Rightarrow> int" where
  "avail l key = available (acct l key)"

definition is_open :: "creditLedger \<Rightarrow> nat \<Rightarrow> string \<Rightarrow> int \<Rightarrow> bool" where
  "is_open l h key cost \<longleftrightarrow> hold_at l h = Some \<lparr>r_key = key, r_cost = cost, r_done = False\<rparr>"

lemma keyLocked_acct: "snd (keyLocked l key) = acct l key"
  and keyLocked_holds [frame]: "holds (fst (keyLocked l key)) = holds l"
  and keyLocked_skips [frame]: "skips (fst (keyLocked l key)) = skips l"
  and acct_keyLocked [frame]: "acct (fst (keyLocked l key)) = acct l"
  by (auto simp: keyLocked_def acct_def fun_eq_iff split: option.splits)

lemma acct_put [simp]: "acct (put l key k) = (acct l)(key := k)"
  and holds_put [simp]: "holds (put l key k) = holds l"
  and skips_put [simp]: "skips (put l key k) = skips l"
  by (auto simp: put_def acct_def fun_eq_iff)

lemma acct_upd [simp]:
  "acct (l\<lparr>holds := x\<rparr>) = acct l" "acct (l\<lparr>skips := n\<rparr>) = acct l" "acct (latch l h r) = acct l"
  by (simp_all add: acct_def fun_eq_iff latch_def)

lemma holds_latch [simp]: "holds (latch l h r) = (holds l)[h := r\<lparr>r_done := True\<rparr>]"
  and skips_latch [simp]: "skips (latch l h r) = skips l"
  by (simp_all add: latch_def)

lemma acct_new [simp]: "acct newCreditLedger key = zeroCredit"
  by (simp add: acct_def newCreditLedger_def)

lemma keyLocked_eq: "keyLocked l key = (fst (keyLocked l key), acct l key)"
  by (metis keyLocked_acct prod.collapse)

text \<open>The operations by their effect on accounts and reservations, without the map.\<close>

lemma Reserve_None_iff: "snd (Reserve l key cost) = None \<longleftrightarrow> avail l key < max 0 cost"
  by (subst Reserve_def, subst keyLocked_eq) (simp add: avail_def clamp0 Let_def)

lemma Reserve_deny: "avail l key < max 0 cost \<Longrightarrow> Reserve l key cost = (fst (keyLocked l key), None)"
  by (subst Reserve_def, subst keyLocked_eq) (simp add: avail_def clamp0 Let_def)

lemma Reserve_grant:
  assumes "max 0 cost \<le> avail l key"
  shows "snd (Reserve l key cost) = Some (length (holds l))"
    and "acct (fst (Reserve l key cost)) =
      (acct l)(key := (acct l key)\<lparr>reserved := reserved (acct l key) + max 0 cost\<rparr>)"
    and "holds (fst (Reserve l key cost)) =
      holds l @ [\<lparr>r_key = key, r_cost = max 0 cost, r_done = False\<rparr>]"
    and "skips (fst (Reserve l key cost)) = skips l"
proof -
  have "\<not> available (acct l key) < max 0 cost" using assms unfolding avail_def by (rule leD)
  then have "Reserve l key cost =
      ((put (fst (keyLocked l key)) key ((acct l key)\<lparr>reserved := reserved (acct l key) + max 0 cost\<rparr>))
         \<lparr>holds := holds l @ [\<lparr>r_key = key, r_cost = max 0 cost, r_done = False\<rparr>]\<rparr>, Some (length (holds l)))"
    by (subst Reserve_def, subst keyLocked_eq) (simp add: clamp0 Let_def frame del: max_less_iff_conj less_max_iff_disj)
  then show "snd (Reserve l key cost) = Some (length (holds l))"
    and "acct (fst (Reserve l key cost)) =
      (acct l)(key := (acct l key)\<lparr>reserved := reserved (acct l key) + max 0 cost\<rparr>)"
    and "holds (fst (Reserve l key cost)) =
      holds l @ [\<lparr>r_key = key, r_cost = max 0 cost, r_done = False\<rparr>]"
    and "skips (fst (Reserve l key cost)) = skips l"
    by (simp_all add: frame)
qed

lemma Release_open:
  assumes "hold_at l h = Some r" "\<not> r_done r"
  shows "acct (Release l (Some h)) =
      (acct l)(r_key r := (acct l (r_key r))\<lparr>reserved := reserved (acct l (r_key r)) - r_cost r\<rparr>)"
    and "holds (Release l (Some h)) = (holds l)[h := r\<lparr>r_done := True\<rparr>]"
    and "skips (Release l (Some h)) = skips l"
  using assms by (simp_all add: Release_def, (subst keyLocked_eq, simp add: frame)+)

lemma TrueUp_open:
  assumes "hold_at l h = Some r" "\<not> r_done r"
  shows "acct (fst (TrueUp l (Some h) actual)) =
      (acct l)(r_key r := (acct l (r_key r))\<lparr>reserved := reserved (acct l (r_key r)) - r_cost r,
         pending := pending (acct l (r_key r)) + min (r_cost r) (max 0 actual)\<rparr>)"
    and "holds (fst (TrueUp l (Some h) actual)) = (holds l)[h := r\<lparr>r_done := True\<rparr>]"
    and "skips (fst (TrueUp l (Some h) actual)) = skips l"
    and "snd (TrueUp l (Some h) actual)"
  using assms by (simp_all add: TrueUp_def Let_def clamp0, (subst keyLocked_eq, simp add: frame min_def)+)

lemma Release_closed: "hold_at l h = None \<or> hold_at l h = Some r \<and> r_done r \<Longrightarrow> Release l (Some h) = l"
  and TrueUp_closed: "hold_at l h = None \<or> hold_at l h = Some r \<and> r_done r \<Longrightarrow> TrueUp l (Some h) a = (l, False)"
  by (auto simp: Release_def TrueUp_def)

lemma Release_nil [simp]: "Release l None = l"
  and TrueUp_nil [simp]: "TrueUp l None a = (l, False)"
  by (simp_all add: Release_def TrueUp_def)

subsection \<open>The account invariant\<close>

definition acct_ok :: "keyCredit \<Rightarrow> bool" where
  "acct_ok k \<longleftrightarrow> distinct (akeys (confirmed k)) \<and> confirmedSum k = vsum (confirmed k)
     \<and> (\<forall>(seq, cost) \<in> set (confirmed k). ackWatermark k < seq \<and> seq \<le> confirmedHigh k \<and> 0 < cost)
     \<and> 0 \<le> pending k"

lemma acct_ok_zero [simp]: "acct_ok zeroCredit"
  by (simp add: acct_ok_def zeroCredit_def)

lemma acct_ok_reserved [simp]: "acct_ok (k\<lparr>reserved := x\<rparr>) = acct_ok k"
  by (simp add: acct_ok_def)

lemma acct_ok_pending: "acct_ok k \<Longrightarrow> 0 \<le> x \<Longrightarrow> acct_ok (k\<lparr>pending := x\<rparr>)"
  by (simp add: acct_ok_def)

text \<open>What \<open>Confirm\<close> does to one account, and the loop of \<open>SetAllowance\<close> as a filter.\<close>

definition confirm_acct :: "keyCredit \<Rightarrow> int \<Rightarrow> nat \<Rightarrow> keyCredit" where
  "confirm_acct k cost seq = k\<lparr>confirmedHigh := seq, pending := max 0 (pending k - cost),
     confirmed := (if ackWatermark k < seq then AList.update seq cost (confirmed k) else confirmed k),
     confirmedSum := confirmedSum k + (if ackWatermark k < seq then cost else 0)\<rparr>"

lemma Confirm_fresh:
  assumes "0 < cost" "confirmedHigh (acct l key) < seq"
  shows "acct (Confirm l key cost seq) = (acct l)(key := confirm_acct (acct l key) cost seq)"
    and "holds (Confirm l key cost seq) = holds l" and "skips (Confirm l key cost seq) = skips l"
  using assms unfolding Confirm_def
  by (subst keyLocked_eq, simp add: frame Let_def confirm_acct_def max_def)+

lemma Confirm_replay:
  assumes "0 < cost" "seq \<le> confirmedHigh (acct l key)"
  shows "acct (Confirm l key cost seq) = acct l"
    and "holds (Confirm l key cost seq) = holds l" and "skips (Confirm l key cost seq) = skips l + 1"
  using assms unfolding Confirm_def by (subst keyLocked_eq, simp add: frame Let_def)+

lemma Confirm_free: "cost \<le> 0 \<Longrightarrow> Confirm l key cost seq = l"
  by (simp add: Confirm_def)

lemma delete_filter: "AList.delete k cs = filter (\<lambda>p. fst p \<noteq> k) cs"
  unfolding AList.delete_eq by (rule filter_cong) auto

lemma age_fold:
  "distinct (akeys es) \<Longrightarrow>
   foldl (age_step w) (cs, s) es =
     (filter (\<lambda>p. \<not> (fst p \<le> w \<and> fst p \<in> set (akeys es))) cs, s - vsum (filter (\<lambda>p. fst p \<le> w) es))"
proof (induction es arbitrary: cs s)
  case (Cons e es)
  obtain seq cost where e: "e = (seq, cost)" by (cases e) auto
  have "filter (\<lambda>p. \<not> (fst p \<le> w \<and> fst p \<in> set (akeys es))) (filter (\<lambda>p. fst p \<noteq> seq) cs) =
      filter (\<lambda>p. \<not> (fst p \<le> w \<and> fst p \<in> set (akeys (e # es)))) cs" if "seq \<le> w"
    using that e by (auto intro!: filter_cong simp: filter_filter)
  moreover have "filter (\<lambda>p. \<not> (fst p \<le> w \<and> fst p \<in> set (akeys es))) cs =
      filter (\<lambda>p. \<not> (fst p \<le> w \<and> fst p \<in> set (akeys (e # es)))) cs" if "\<not> seq \<le> w"
    using that e by (auto intro!: filter_cong)
  ultimately show ?case
    using Cons e by (auto simp: age_step_def delete_filter)
qed simp

lemma age_all:
  assumes "distinct (akeys cs)"
  shows "foldl (age_step w) (cs, s) cs =
    (filter (\<lambda>p. w < fst p) cs, s - vsum (filter (\<lambda>p. fst p \<le> w) cs))"
proof -
  have "filter (\<lambda>p. \<not> (fst p \<le> w \<and> fst p \<in> set (akeys cs))) cs = filter (\<lambda>p. w < fst p) cs"
    by (rule filter_cong) (auto simp: akeys_def)
  with assms show ?thesis by (simp add: age_fold)
qed

definition allow_acct :: "keyCredit \<Rightarrow> int \<Rightarrow> nat \<Rightarrow> nat \<Rightarrow> keyCredit" where
  "allow_acct k balance watermark ver = k\<lparr>allowanceVer := ver, allowance := balance,
     ackWatermark := max (ackWatermark k) watermark,
     confirmed := filter (\<lambda>p. watermark < fst p) (confirmed k),
     confirmedSum := confirmedSum k - vsum (filter (\<lambda>p. fst p \<le> watermark) (confirmed k))\<rparr>"

lemma SetAllowance_stale:
  assumes "ver < allowanceVer (acct l key)"
  shows "acct (SetAllowance l key b w ver) = acct l"
    and "holds (SetAllowance l key b w ver) = holds l" and "skips (SetAllowance l key b w ver) = skips l"
  using assms unfolding SetAllowance_def by (subst keyLocked_eq, simp add: frame)+

lemma below_watermark_none:
  assumes "acct_ok k" "w \<le> ackWatermark k"
  shows "filter (\<lambda>p. w < fst p) (confirmed k) = confirmed k" "filter (\<lambda>p. fst p \<le> w) (confirmed k) = []"
  using assms by (auto simp: acct_ok_def filter_empty_conv intro!: filter_True)

lemma SetAllowance_fresh:
  assumes "allowanceVer (acct l key) \<le> ver" "acct_ok (acct l key)"
  shows "acct (SetAllowance l key b w ver) = (acct l)(key := allow_acct (acct l key) b w ver)"
    and "holds (SetAllowance l key b w ver) = holds l" and "skips (SetAllowance l key b w ver) = skips l"
proof -
  have d: "distinct (akeys (confirmed (acct l key)))" using assms(2) by (simp add: acct_ok_def)
  have "SetAllowance l key b w ver =
      put (fst (keyLocked l key)) key (allow_acct (acct l key) b w ver)"
    using assms(1) below_watermark_none [OF assms(2)] d unfolding SetAllowance_def
    by (subst keyLocked_eq, cases "acct l key") (auto simp: Let_def age_all allow_acct_def max_def)
  then show "acct (SetAllowance l key b w ver) = (acct l)(key := allow_acct (acct l key) b w ver)"
    and "holds (SetAllowance l key b w ver) = holds l" and "skips (SetAllowance l key b w ver) = skips l"
    by (simp_all add: frame)
qed

lemma confirm_acct_ok:
  assumes "acct_ok k" "0 < cost" "confirmedHigh k < seq"
  shows "acct_ok (confirm_acct k cost seq)"
proof -
  have new: "seq \<notin> set (akeys (confirmed k))"
    using assms by (fastforce simp: acct_ok_def akeys_def)
  then show ?thesis
    using assms set_update_subset [of seq cost "confirmed k"]
    by (fastforce simp: acct_ok_def confirm_acct_def akeys_update_distinct vsum_update_new)
qed

lemma allow_acct_ok: "acct_ok k \<Longrightarrow> acct_ok (allow_acct k b w ver)"
  using vsum_filter_split [of "confirmed k" "\<lambda>p. w < fst p"]
  by (auto simp: acct_ok_def allow_acct_def akeys_filter_distinct not_less)

subsection \<open>Runs\<close>

datatype ledger_op =
    OReserve string int
  | ORelease nat
  | OTrueUp nat int
  | OConfirm string int nat
  | OSetAllowance string int nat nat
  | OAvailable string

fun ledger_do :: "creditLedger \<Rightarrow> ledger_op \<Rightarrow> creditLedger" where
  "ledger_do l (OReserve key cost) = fst (Reserve l key cost)"
| "ledger_do l (ORelease h) = Release l (Some h)"
| "ledger_do l (OTrueUp h actual) = fst (TrueUp l (Some h) actual)"
| "ledger_do l (OConfirm key cost seq) = Confirm l key cost seq"
| "ledger_do l (OSetAllowance key balance watermark ver) = SetAllowance l key balance watermark ver"
| "ledger_do l (OAvailable key) = fst (Available l key)"

definition ledger_run :: "creditLedger \<Rightarrow> ledger_op list \<Rightarrow> creditLedger" where
  "ledger_run l ops = foldl ledger_do l ops"

lemma ledger_run_Nil [simp]: "ledger_run l [] = l"
  and ledger_run_Cons [simp]: "ledger_run l (x # ops) = ledger_run (ledger_do l x) ops"
  and ledger_run_append: "ledger_run l (ops @ ops') = ledger_run (ledger_run l ops) ops'"
  by (simp_all add: ledger_run_def)

text \<open>The costs of a key's reservations that are not resolved yet.\<close>

definition open_cost :: "Reservation list \<Rightarrow> string \<Rightarrow> int" where
  "open_cost rs key = sum_list (map r_cost (filter (\<lambda>r. r_key r = key \<and> \<not> r_done r) rs))"

definition ledger_ok :: "creditLedger \<Rightarrow> bool" where
  "ledger_ok l \<longleftrightarrow> (\<forall>key. acct_ok (acct l key) \<and> reserved (acct l key) = open_cost (holds l) key)
     \<and> (\<forall>r \<in> set (holds l). 0 \<le> r_cost r)"

lemma open_cost_snoc [simp]:
  "open_cost (rs @ [r]) key = open_cost rs key + (if r_key r = key \<and> \<not> r_done r then r_cost r else 0)"
  by (simp add: open_cost_def)

lemma open_cost_close:
  assumes "h < length rs" "\<not> r_done (rs ! h)"
  shows "open_cost (rs[h := (rs ! h)\<lparr>r_done := True\<rparr>]) key =
    open_cost rs key - (if r_key (rs ! h) = key then r_cost (rs ! h) else 0)"
proof -
  have rs: "rs = take h rs @ rs ! h # drop (Suc h) rs"
    using assms(1) by (rule id_take_nth_drop)
  have upd: "rs[h := x] = take h rs @ x # drop (Suc h) rs" for x
    using assms(1) by (rule upd_conv_take_nth_drop)
  show ?thesis
    unfolding upd by (subst (2) rs) (simp add: open_cost_def assms(2))
qed

lemma open_cost_nonneg: "\<forall>r \<in> set rs. 0 \<le> r_cost r \<Longrightarrow> 0 \<le> open_cost rs key"
  unfolding open_cost_def by (rule sum_list_nonneg) auto

lemma hold_at_Some: "hold_at l h = Some r \<longleftrightarrow> h < length (holds l) \<and> r = holds l ! h"
  by (auto simp: hold_at_def)

lemma ledger_ok_new: "ledger_ok newCreditLedger"
  by (simp add: ledger_ok_def open_cost_def) (simp add: newCreditLedger_def zeroCredit_def)

end
