(* ===== verification/Ledger_Runs.thy ===== *)
theory Ledger_Runs
  imports Credit_Ledger
begin

section \<open>The credit ledger over any run\<close>

text \<open>
  What holds of the ledger of \<open>Credit_Ledger\<close> after any interleaving of the operations of any
  number of requests, snapshot pushes and confirmations: the accounting identity, the bound that
  rules out overspending and int64 wrap-around, resolution at most once, and the idempotence of
  replayed confirmations and stale snapshots. The interface the admission gate relies on is the
  locale \<open>hold_ledger\<close>, interpreted on the ledger's own operations.
\<close>

subsection \<open>The invariant\<close>

lemma ledger_do_effects:
  "holds (fst (Available l key)) = holds l" "acct (fst (Available l key)) = acct l"
  "skips (fst (Available l key)) = skips l" "snd (Available l key) = avail l key"
  unfolding Available_def avail_def by (subst keyLocked_eq, simp add: frame)+

lemma Reserve_ok:
  assumes "ledger_ok l" shows "ledger_ok (fst (Reserve l key cost))"
proof (cases "max 0 cost \<le> avail l key")
  case True
  note g = Reserve_grant [OF True]
  show ?thesis using assms by (simp add: ledger_ok_def g)
next
  case False
  then have "avail l key < max 0 cost" by (simp only: not_le)
  from Reserve_deny [OF this] show ?thesis using assms by (simp add: ledger_ok_def frame)
qed

lemma resolve_cases:
  obtains (closed) "hold_at l h = None \<or> (\<exists>r. hold_at l h = Some r \<and> r_done r)"
    | (opened) r where "hold_at l h = Some r" "\<not> r_done r" "h < length (holds l)" "r = holds l ! h"
  by (cases "hold_at l h") (auto simp: hold_at_Some)

lemma closed_id:
  assumes "hold_at l h = None \<or> (\<exists>r. hold_at l h = Some r \<and> r_done r)"
  shows "Release l (Some h) = l" "TrueUp l (Some h) a = (l, False)"
  using assms Release_closed TrueUp_closed by blast+

lemma close_costs_nonneg:
  assumes "\<forall>r \<in> set rs. 0 \<le> r_cost r" "h < length rs"
  shows "\<forall>r \<in> set (rs[h := (rs ! h)\<lparr>r_done := True\<rparr>]). 0 \<le> r_cost r"
proof
  fix r assume "r \<in> set (rs[h := (rs ! h)\<lparr>r_done := True\<rparr>])"
  then have "r = (rs ! h)\<lparr>r_done := True\<rparr> \<or> r \<in> set rs"
    using set_update_subset_insert [of rs h] by blast
  then show "0 \<le> r_cost r" using assms by auto
qed

lemma Release_ok:
  assumes "ledger_ok l" shows "ledger_ok (Release l (Some h))"
proof (cases rule: resolve_cases [of l h])
  case closed then show ?thesis using assms closed_id by simp
next
  case (opened r)
  note e = Release_open [OF opened(1,2)]
  show ?thesis
    using assms open_cost_close [OF opened(3)] opened(2,4) close_costs_nonneg [OF _ opened(3)]
    by (auto simp: ledger_ok_def e)
qed

lemma TrueUp_ok:
  assumes "ledger_ok l" shows "ledger_ok (fst (TrueUp l (Some h) a))"
proof (cases rule: resolve_cases [of l h])
  case closed then show ?thesis using assms closed_id by simp
next
  case (opened r)
  note e = TrueUp_open [OF opened(1,2), of a]
  have "0 \<le> r_cost r" "0 \<le> pending (acct l (r_key r))"
    using assms opened(3,4) by (auto simp: ledger_ok_def acct_ok_def)
  then show ?thesis
    using assms open_cost_close [OF opened(3)] opened(2,4) close_costs_nonneg [OF _ opened(3)]
    by (auto simp: ledger_ok_def e intro!: acct_ok_pending)
qed

lemma Confirm_cases:
  fixes cost :: int
  obtains (free) "cost \<le> 0" | (replay) "0 < cost" "seq \<le> confirmedHigh (acct l key)"
    | (fresh) "0 < cost" "confirmedHigh (acct l key) < seq"
  by (cases "cost \<le> 0"; cases "seq \<le> confirmedHigh (acct l key)") (auto simp: not_le)

lemma Confirm_ok:
  assumes "ledger_ok l" shows "ledger_ok (Confirm l key cost seq)"
proof (cases rule: Confirm_cases [where cost = cost and seq = seq and l = l and key = key])
  case free then show ?thesis using assms by (simp add: Confirm_free)
next
  case replay then show ?thesis using assms by (simp add: ledger_ok_def Confirm_replay)
next
  case fresh
  then show ?thesis
    using assms confirm_acct_ok [of "acct l key" cost seq]
    by (simp add: ledger_ok_def Confirm_fresh) (simp add: confirm_acct_def)
qed

lemma SetAllowance_ok:
  assumes "ledger_ok l" shows "ledger_ok (SetAllowance l key b w ver)"
proof (cases "ver < allowanceVer (acct l key)")
  case True then show ?thesis using assms by (simp add: ledger_ok_def SetAllowance_stale)
next
  case False
  moreover have "acct_ok (acct l key)" using assms by (simp add: ledger_ok_def)
  ultimately show ?thesis
    using assms allow_acct_ok [of "acct l key" b w ver]
    by (simp add: ledger_ok_def SetAllowance_fresh) (simp add: allow_acct_def)
qed

lemma ledger_do_ok: "ledger_ok l \<Longrightarrow> ledger_ok (ledger_do l x)"
  by (cases x) (simp_all add: Reserve_ok Release_ok TrueUp_ok Confirm_ok SetAllowance_ok,
      simp add: ledger_ok_def ledger_do_effects)

lemma ledger_run_ok: "ledger_ok l \<Longrightarrow> ledger_ok (ledger_run l ops)"
  by (induction ops arbitrary: l) (simp_all add: ledger_do_ok)


subsection \<open>No overspending\<close>

definition committed :: "keyCredit \<Rightarrow> int" where
  "committed k = reserved k + pending k + confirmedSum k"

text \<open>
  The use the comments of the code prescribe: a confirmation moves a cost that is pending, and a
  pushed balance lies between 0 and \<open>B\<close>.
\<close>

fun op_legal :: "int \<Rightarrow> creditLedger \<Rightarrow> ledger_op \<Rightarrow> bool" where
  "op_legal B l (OConfirm key cost seq) = (cost \<le> pending (acct l key))"
| "op_legal B l (OSetAllowance key balance watermark ver) = (0 \<le> balance \<and> balance \<le> B)"
| "op_legal B l (OReserve _ _) = True"
| "op_legal B l (ORelease _) = True"
| "op_legal B l (OTrueUp _ _) = True"
| "op_legal B l (OAvailable _) = True"

fun run_legal :: "int \<Rightarrow> creditLedger \<Rightarrow> ledger_op list \<Rightarrow> bool" where
  "run_legal B l [] = True"
| "run_legal B l (x # xs) = (op_legal B l x \<and> run_legal B (ledger_do l x) xs)"

definition bounded :: "int \<Rightarrow> creditLedger \<Rightarrow> bool" where
  "bounded B l \<longleftrightarrow> (\<forall>key. committed (acct l key) \<le> B
     \<and> 0 \<le> allowance (acct l key) \<and> allowance (acct l key) \<le> B)"

lemma avail_committed: "avail l key = allowance (acct l key) - committed (acct l key)"
  by (simp add: avail_def available_def committed_def)

lemma bounded_key:
  "bounded B l \<Longrightarrow> committed (acct l key) \<le> B \<and> 0 \<le> allowance (acct l key) \<and> allowance (acct l key) \<le> B"
  by (simp add: bounded_def)

lemma bounded_upd:
  assumes "bounded B l" "acct l' = (acct l)(key := k)" "committed k \<le> committed (acct l key)"
    and "0 \<le> allowance k" "allowance k \<le> B"
  shows "bounded B l'"
  using assms(1,4,5) order_trans [OF assms(3)] by (simp add: assms(2) bounded_def)

lemma Reserve_bounded:
  assumes "bounded B l" shows "bounded B (fst (Reserve l key cost))"
proof (cases "max 0 cost \<le> avail l key")
  case True
  have "committed (acct l key) + max 0 cost \<le> B"
    using True assms by (simp add: avail_committed bounded_def) (smt (verit))
  then show ?thesis using assms by (simp add: bounded_def Reserve_grant [OF True] committed_def algebra_simps)
next
  case False
  then have "avail l key < max 0 cost" by (simp only: not_le)
  from Reserve_deny [OF this] show ?thesis using assms by (simp add: bounded_def frame)
qed

lemma Release_bounded:
  assumes "bounded B l" "ledger_ok l" shows "bounded B (Release l (Some h))"
proof (cases rule: resolve_cases [of l h])
  case closed then show ?thesis using assms closed_id by simp
next
  case (opened r)
  have "0 \<le> r_cost r" using assms(2) opened(3,4) by (auto simp: ledger_ok_def)
  then show ?thesis
    using bounded_key [OF assms(1), of "r_key r"]
    by (intro bounded_upd [OF assms(1) Release_open(1) [OF opened(1,2)]]) (simp_all add: committed_def)
qed

lemma TrueUp_bounded:
  assumes "bounded B l" "ledger_ok l" shows "bounded B (fst (TrueUp l (Some h) a))"
proof (cases rule: resolve_cases [of l h])
  case closed then show ?thesis using assms closed_id by simp
next
  case (opened r)
  have "min (r_cost r) (max 0 a) \<le> r_cost r" by simp
  then show ?thesis
    using bounded_key [OF assms(1), of "r_key r"]
    by (intro bounded_upd [OF assms(1) TrueUp_open(1) [OF opened(1,2)]]) (simp_all add: committed_def)
qed

lemma Confirm_bounded:
  assumes "bounded B l" "cost \<le> pending (acct l key)" shows "bounded B (Confirm l key cost seq)"
proof (cases rule: Confirm_cases [where cost = cost and seq = seq and l = l and key = key])
  case free then show ?thesis using assms by (simp add: Confirm_free)
next
  case replay then show ?thesis using assms by (simp add: bounded_def Confirm_replay)
next
  case fresh
  then show ?thesis
    using assms(2) bounded_key [OF assms(1), of key]
    by (intro bounded_upd [OF assms(1) Confirm_fresh(1)]) (simp_all add: confirm_acct_def committed_def)
qed

lemma SetAllowance_bounded:
  assumes "bounded B l" "ledger_ok l" "0 \<le> b" "b \<le> B"
  shows "bounded B (SetAllowance l key b w ver)"
proof (cases "ver < allowanceVer (acct l key)")
  case True then show ?thesis using assms by (simp add: bounded_def SetAllowance_stale)
next
  case False
  have ok: "acct_ok (acct l key)" using assms by (simp add: ledger_ok_def)
  then have "0 \<le> vsum (filter (\<lambda>p. fst p \<le> w) (confirmed (acct l key)))"
    by (intro vsum_nonneg) (force simp: acct_ok_def)
  then show ?thesis
    using False assms(3,4)
    by (intro bounded_upd [OF assms(1) SetAllowance_fresh(1) [OF _ ok]])
      (simp_all add: allow_acct_def committed_def)
qed

lemma ledger_do_bounded:
  "bounded B l \<Longrightarrow> ledger_ok l \<Longrightarrow> op_legal B l x \<Longrightarrow> bounded B (ledger_do l x)"
  by (cases x) (simp_all add: Reserve_bounded Release_bounded TrueUp_bounded Confirm_bounded
      SetAllowance_bounded, simp add: bounded_def ledger_do_effects)

lemma ledger_run_bounded:
  "bounded B l \<Longrightarrow> ledger_ok l \<Longrightarrow> run_legal B l ops \<Longrightarrow> bounded B (ledger_run l ops)"
  by (induction ops arbitrary: l) (simp_all add: ledger_do_bounded ledger_do_ok)

lemma bounded_new: "0 \<le> B \<Longrightarrow> bounded B newCreditLedger"
  by (simp add: bounded_def committed_def zeroCredit_def)

text \<open>
  C4. No overspending: when every pushed balance is between 0 and \<open>B\<close> and every confirmation moves a
  cost that is pending, then after any interleaving of operations, and for every key, the credits
  held, pending and confirmed together never exceed \<open>B\<close>, are never negative, and the available
  balance stays in the int64 range.
\<close>

theorem committed_within_balance:
  assumes "0 \<le> B" "in_i64 B" "run_legal B newCreditLedger ops"
  shows "0 \<le> reserved (acct (ledger_run newCreditLedger ops) key)
           + pending (acct (ledger_run newCreditLedger ops) key)
           + confirmedSum (acct (ledger_run newCreditLedger ops) key)
    \<and> reserved (acct (ledger_run newCreditLedger ops) key)
           + pending (acct (ledger_run newCreditLedger ops) key)
           + confirmedSum (acct (ledger_run newCreditLedger ops) key) \<le> B
    \<and> in_i64 (avail (ledger_run newCreditLedger ops) key)"
proof -
  define l where "l = ledger_run newCreditLedger ops"
  have b: "committed (acct l key) \<le> B" "0 \<le> allowance (acct l key)" "allowance (acct l key) \<le> B"
    using ledger_run_bounded [OF bounded_new [OF assms(1)] ledger_ok_new assms(3)]
    by (auto simp: bounded_def l_def)
  have ok: "ledger_ok l" unfolding l_def by (rule ledger_run_ok [OF ledger_ok_new])
  then have "0 \<le> reserved (acct l key)" "0 \<le> pending (acct l key)"
    by (auto simp: ledger_ok_def acct_ok_def open_cost_nonneg)
  moreover have "0 \<le> confirmedSum (acct l key)"
    using ok by (fastforce simp: ledger_ok_def acct_ok_def intro!: vsum_nonneg)
  ultimately have "0 \<le> committed (acct l key)" by (simp add: committed_def)
  with b assms(2) show ?thesis
    unfolding l_def [symmetric] by (auto simp: avail_committed in_i64_def committed_def)
qed

theorem committed_within_balance_witness:
  "avail (ledger_run newCreditLedger
      [OSetAllowance ''k'' 100 0 1, OReserve ''k'' 60, OReserve ''k'' 60, OTrueUp 0 50,
       OConfirm ''k'' 50 1, OSetAllowance ''k'' 50 1 2]) ''k'' = 50
   \<and> in_i64 (avail (ledger_run newCreditLedger
      [OSetAllowance ''k'' 100 0 1, OReserve ''k'' 60, OReserve ''k'' 60, OTrueUp 0 50,
       OConfirm ''k'' 50 1, OSetAllowance ''k'' 50 1 2]) ''k'')"
proof -
  have "run_legal 100 newCreditLedger
      [OSetAllowance ''k'' 100 0 1, OReserve ''k'' 60, OReserve ''k'' 60, OTrueUp 0 50,
       OConfirm ''k'' 50 1, OSetAllowance ''k'' 50 1 2]" by code_simp
  moreover have "avail (ledger_run newCreditLedger
      [OSetAllowance ''k'' 100 0 1, OReserve ''k'' 60, OReserve ''k'' 60, OTrueUp 0 50,
       OConfirm ''k'' 50 1, OSetAllowance ''k'' 50 1 2]) ''k'' = 50" by code_simp
  ultimately show ?thesis
    using committed_within_balance [of 100 _ "''k''"] by (simp add: in_i64_def)
qed

subsection \<open>Resolved at most once\<close>

definition resolved :: "creditLedger \<Rightarrow> nat \<Rightarrow> bool" where
  "resolved l h \<longleftrightarrow> h < length (holds l) \<and> r_done (holds l ! h)"

lemma resolved_noop: "resolved l h \<Longrightarrow> Release l (Some h) = l \<and> TrueUp l (Some h) a = (l, False)"
  using closed_id [of l h] by (auto simp: resolved_def hold_at_def)

lemma holds_Reserve:
  "holds (fst (Reserve l key cost)) = holds l
   \<or> (\<exists>r. holds (fst (Reserve l key cost)) = holds l @ [r])"
proof (cases "max 0 cost \<le> avail l key")
  case True
  from Reserve_grant(3) [OF this] show ?thesis by blast
next
  case False
  then have "avail l key < max 0 cost" by (simp only: not_le)
  from Reserve_deny [OF this] show ?thesis by (simp add: frame)
qed

lemma resolved_list_update:
  "resolved l h \<Longrightarrow> holds l' = (holds l)[i := r\<lparr>r_done := True\<rparr>] \<Longrightarrow> resolved l' h"
  by (cases "h = i") (auto simp: resolved_def)

lemma resolved_do:
  assumes "ledger_ok l" "resolved l h" shows "resolved (ledger_do l x) h"
proof (cases x)
  case (OReserve key cost)
  with assms holds_Reserve [of l key cost] show ?thesis by (auto simp: resolved_def nth_append)
next
  case (ORelease i)
  with assms show ?thesis
    by (cases rule: resolve_cases [of l i])
      (auto simp: closed_id dest: Release_open(2) intro: resolved_list_update)
next
  case (OTrueUp i a)
  with assms show ?thesis
    by (cases rule: resolve_cases [of l i])
      (auto simp: closed_id dest: TrueUp_open(2) [of _ _ _ a] intro: resolved_list_update)
next
  case (OConfirm key cost seq)
  with assms show ?thesis
    by (cases rule: Confirm_cases [where cost = cost and seq = seq and l = l and key = key])
      (auto simp: resolved_def Confirm_free Confirm_replay Confirm_fresh)
next
  case (OSetAllowance key b w ver)
  have "acct_ok (acct l key)" using assms by (simp add: ledger_ok_def)
  with OSetAllowance assms show ?thesis
    by (cases "ver < allowanceVer (acct l key)")
      (auto simp: resolved_def SetAllowance_stale SetAllowance_fresh)
next
  case (OAvailable key)
  with assms show ?thesis by (simp add: resolved_def ledger_do_effects)
qed

lemma resolved_run: "ledger_ok l \<Longrightarrow> resolved l h \<Longrightarrow> resolved (ledger_run l ops) h"
  by (induction ops arbitrary: l) (simp_all add: resolved_do ledger_do_ok)

lemma resolve_resolves:
  assumes "h < length (holds l)"
  shows "resolved (Release l (Some h)) h" "resolved (fst (TrueUp l (Some h) a)) h"
  using assms by (cases rule: resolve_cases [of l h];
      auto simp: resolved_def hold_at_def closed_id Release_open TrueUp_open split: if_splits)+

text \<open>
  C5. A reservation is resolved at most once: after its \<open>Release\<close> or \<open>TrueUp\<close>, and whatever any
  other request does in between, a further \<open>Release\<close> changes nothing at all and a further \<open>TrueUp\<close>
  changes nothing and returns false.
\<close>

theorem resolved_once:
  assumes "h < length (holds (ledger_run newCreditLedger before))"
    and "resolution = ORelease h \<or> resolution = OTrueUp h actual"
  shows "let l = ledger_run newCreditLedger (before @ [resolution] @ after) in
    Release l (Some h) = l \<and> TrueUp l (Some h) again = (l, False)"
proof -
  let ?l = "ledger_run newCreditLedger before"
  have ok: "ledger_ok (ledger_do ?l resolution)"
    by (intro ledger_do_ok ledger_run_ok ledger_ok_new)
  have "resolved (ledger_do ?l resolution) h"
    using assms resolve_resolves [OF assms(1)] by auto
  from resolved_noop [OF resolved_run [OF ok this]] show ?thesis
    by (simp add: Let_def ledger_run_append)
qed

theorem resolved_once_witness:
  "let l = ledger_run newCreditLedger
      ([OSetAllowance ''k'' 9 0 1, OReserve ''k'' 4] @ [OTrueUp 0 3] @ [OReserve ''k'' 5]) in
   Release l (Some 0) = l \<and> TrueUp l (Some 0) 4 = (l, False)"
proof (rule resolved_once)
  show "0 < length (holds (ledger_run newCreditLedger [OSetAllowance ''k'' 9 0 1, OReserve ''k'' 4]))"
    by code_simp
qed simp

subsection \<open>Replays and stale snapshots\<close>

lemma marks_mono:
  assumes "ledger_ok l"
  shows "confirmedHigh (acct l key) \<le> confirmedHigh (acct (ledger_do l x) key)
    \<and> allowanceVer (acct l key) \<le> allowanceVer (acct (ledger_do l x) key)"
proof (cases x)
  case (OReserve k cost)
  show ?thesis
  proof (cases "max 0 cost \<le> avail l k")
    case True
    then show ?thesis by (simp add: OReserve Reserve_grant(2))
  next
    case False
    then have "avail l k < max 0 cost" by (simp only: not_le)
    from Reserve_deny [OF this] show ?thesis by (simp add: OReserve frame)
  qed
next
  case (ORelease i)
  then show ?thesis
    by (cases rule: resolve_cases [of l i]) (auto simp: closed_id Release_open(1))
next
  case (OTrueUp i a)
  then show ?thesis
    by (cases rule: resolve_cases [of l i]) (auto simp: closed_id TrueUp_open(1))
next
  case (OConfirm k cost seq)
  then show ?thesis
    by (cases rule: Confirm_cases [where cost = cost and seq = seq and l = l and key = k])
      (auto simp: Confirm_free Confirm_replay Confirm_fresh confirm_acct_def)
next
  case (OSetAllowance k b w ver)
  have "acct_ok (acct l k)" using assms by (simp add: ledger_ok_def)
  with OSetAllowance show ?thesis
    by (cases "ver < allowanceVer (acct l k)")
      (auto simp: SetAllowance_stale SetAllowance_fresh allow_acct_def)
qed (simp add: ledger_do_effects)

lemma marks_run:
  "ledger_ok l \<Longrightarrow> confirmedHigh (acct l key) \<le> confirmedHigh (acct (ledger_run l ops) key)
    \<and> allowanceVer (acct l key) \<le> allowanceVer (acct (ledger_run l ops) key)"
proof (induction ops arbitrary: l)
  case (Cons x ops)
  from Cons.IH [OF ledger_do_ok [OF Cons.prems, of x]] marks_mono [OF Cons.prems, of key x]
  show ?case by auto
qed simp

lemma Confirm_marks: "0 < cost \<Longrightarrow> seq \<le> confirmedHigh (acct (Confirm l key cost seq) key)"
  by (cases rule: Confirm_cases [where cost = cost and seq = seq and l = l and key = key])
    (auto simp: Confirm_replay Confirm_fresh confirm_acct_def)

lemma SetAllowance_marks:
  "acct_ok (acct l key) \<Longrightarrow> ver \<le> allowanceVer (acct (SetAllowance l key b w ver) key)"
  by (cases "ver < allowanceVer (acct l key)")
    (auto simp: SetAllowance_stale SetAllowance_fresh allow_acct_def)

text \<open>
  Confirmation is idempotent against replays: once a debit of positive cost has been confirmed
  at \<open>seq\<close>, then after any run a confirmation of the same key at \<open>seq\<close> or below leaves every account
  and every reservation as it was, and is counted as skipped.
\<close>

theorem Confirm_idempotent:
  assumes "0 < cost" "0 < cost'" "seq' \<le> seq"
  shows "let l = ledger_run newCreditLedger (before @ [OConfirm key cost seq] @ after);
             l' = Confirm l key cost' seq' in
    acct l' = acct l \<and> holds l' = holds l \<and> confirmSkips l' = confirmSkips l + 1"
proof -
  let ?start = "ledger_run newCreditLedger before"
  let ?l = "ledger_run (Confirm ?start key cost seq) after"
  have "ledger_ok (Confirm ?start key cost seq)"
    by (intro Confirm_ok ledger_run_ok ledger_ok_new)
  then have "seq' \<le> confirmedHigh (acct ?l key)"
    using marks_run [where l = "Confirm ?start key cost seq" and key = key and ops = "after"] Confirm_marks [OF assms(1), where seq = seq and l = ?start and key = key] assms(3)
    by auto
  from Confirm_replay [OF assms(2) this] show ?thesis
    by (simp add: Let_def ledger_run_append confirmSkips_def)
qed

theorem Confirm_idempotent_witness:
  "let l = ledger_run newCreditLedger ([OSetAllowance ''k'' 9 0 1] @ [OConfirm ''k'' 3 5] @ [OSetAllowance ''k'' 6 5 2]);
       l' = Confirm l ''k'' 3 5 in
   acct l' = acct l \<and> holds l' = holds l \<and> confirmSkips l' = confirmSkips l + 1"
  by (rule Confirm_idempotent) simp_all

text \<open>
  Snapshots: a snapshot at least as new as the last one makes the available balance the pushed
  balance less what is reserved, pending, or confirmed above its watermark (above the one already
  acknowledged, when that is higher); hence a snapshot whose balance dropped by exactly the debits
  it nets leaves the available balance as it was. A snapshot older than one applied before, with
  any run in between, changes nothing.
\<close>

theorem SetAllowance_nets:
  "(let l = ledger_run newCreditLedger ops; k = acct l key; l' = SetAllowance l key balance watermark ver in
     (allowanceVer k \<le> ver \<longrightarrow>
        avail l' key = balance - reserved k - pending k
          - sum_list (map snd (filter (\<lambda>(seq, cost). max (ackWatermark k) watermark < seq) (confirmed k)))
      \<and> (balance = allowance k - sum_list (map snd (filter (\<lambda>(seq, cost). seq \<le> watermark) (confirmed k)))
           \<longrightarrow> avail l' key = avail l key)))
   \<and> (let l = ledger_run newCreditLedger (ops @ [OSetAllowance key balance watermark ver] @ ops') in
        ver' < ver \<longrightarrow> acct (SetAllowance l key balance' watermark' ver') = acct l)"
proof -
  define l where "l = ledger_run newCreditLedger ops"
  let ?k = "acct l key"
  let ?l1 = "SetAllowance l key balance watermark ver"
  have ok: "ledger_ok l" unfolding l_def by (rule ledger_run_ok [OF ledger_ok_new])
  then have k: "acct_ok ?k" by (simp add: ledger_ok_def)
  have above: "filter (\<lambda>(seq, cost). max (ackWatermark ?k) watermark < seq) (confirmed ?k)
      = filter (\<lambda>p. watermark < fst p) (confirmed ?k)"
    using k by (intro filter_cong) (auto simp: acct_ok_def)
  have below: "(\<lambda>(seq, cost). seq \<le> watermark) = (\<lambda>p::nat \<times> int. fst p \<le> watermark)" by auto
  have sum: "confirmedSum ?k = vsum (filter (\<lambda>p. watermark < fst p) (confirmed ?k))
      + vsum (filter (\<lambda>p. fst p \<le> watermark) (confirmed ?k))"
    using k vsum_filter_split [of "confirmed ?k" "\<lambda>p. watermark < fst p"]
    by (simp add: acct_ok_def not_less)
  have fresh: "avail ?l1 key = balance - reserved ?k - pending ?k
      - vsum (filter (\<lambda>p. watermark < fst p) (confirmed ?k))" if "allowanceVer ?k \<le> ver"
    using that sum by (simp add: avail_def available_def SetAllowance_fresh [OF that k] allow_acct_def)
  have same: "avail l key = allowance ?k - reserved ?k - pending ?k - confirmedSum ?k"
    by (simp add: avail_def available_def algebra_simps)
  have "ledger_ok ?l1" by (rule SetAllowance_ok [OF ok])
  then have "acct (SetAllowance (ledger_run ?l1 ops') key balance' watermark' ver')
      = acct (ledger_run ?l1 ops')" if "ver' < ver"
    using that marks_run [of ?l1 key ops'] SetAllowance_marks [OF k, of ver balance watermark]
    by (intro SetAllowance_stale) auto
  then show ?thesis
    using fresh same sum unfolding Let_def ledger_run_append l_def [symmetric] above below vsum_def
    by auto
qed

theorem SetAllowance_nets_witness:
  "avail (SetAllowance (ledger_run newCreditLedger [OSetAllowance ''k'' 9 0 1, OConfirm ''k'' 3 5]) ''k'' 6 5 2) ''k'' = 6"
proof -
  let ?l = "ledger_run newCreditLedger [OSetAllowance ''k'' 9 0 1, OConfirm ''k'' 3 5]"
  have "allowanceVer (acct ?l ''k'') \<le> 2" by code_simp
  moreover have "allowance (acct ?l ''k'')
      - sum_list (map snd (filter (\<lambda>(seq, cost). seq \<le> 5) (confirmed (acct ?l ''k'')))) = 6" by code_simp
  moreover have "avail ?l ''k'' = 6" by code_simp
  ultimately show ?thesis
    using conjunct1 [OF SetAllowance_nets [of "[OSetAllowance ''k'' 9 0 1, OConfirm ''k'' 3 5]" "''k''" 6 5 2]]
    by (simp only: Let_def) simp
qed

subsection \<open>Racing requests\<close>

text \<open>Admission of requests of one key in the order they take the lock: which of them pass.\<close>

fun reserveEach :: "creditLedger \<Rightarrow> string \<Rightarrow> int list \<Rightarrow> bool list" where
  "reserveEach l key [] = []"
| "reserveEach l key (c # cs) =
     (case Reserve l key c of (l', h) \<Rightarrow> (h \<noteq> None) # reserveEach l' key cs)"

lemma avail_Reserve:
  "avail (fst (Reserve l key c)) key = (if max 0 c \<le> avail l key then avail l key - max 0 c else avail l key)"
proof (cases "max 0 c \<le> avail l key")
  case True
  have "avail (fst (Reserve l key c)) key = avail l key - max 0 c"
    by (simp add: avail_def available_def Reserve_grant(2) [OF True])
  with True show ?thesis by (simp only: if_True)
next
  case False
  then have "avail l key < max 0 c" by (simp only: not_le)
  from Reserve_deny [OF this] have "avail (fst (Reserve l key c)) key = avail l key"
    by (simp add: avail_def frame)
  with False show ?thesis by (simp only: if_False)
qed

lemma granted_iff: "snd (Reserve l key c) \<noteq> None \<longleftrightarrow> max 0 c \<le> avail l key"
  using Reserve_None_iff [of l key c] by auto

lemma reserveEach_Cons:
  "reserveEach l key (c # cs) = (max 0 c \<le> avail l key) # reserveEach (fst (Reserve l key c)) key cs"
  using granted_iff [of l key c] by (cases "Reserve l key c") auto

text \<open>
  Racing requests: of \<open>n\<close> requests of the same positive cost made against one balance, in
  whatever order they take the lock, exactly as many are admitted as the balance covers: the first
  \<open>available div cost\<close> of them, and every later one is denied.
\<close>

theorem racing_reserves:
  assumes "0 < cost" "0 \<le> avail l key"
  shows "reserveEach l key (replicate n cost) =
    map (\<lambda>i. int i < avail l key div cost) [0..<n]"
  using assms(2)
proof (induction n arbitrary: l)
  case (Suc n)
  let ?l' = "fst (Reserve l key cost)"
  have step: "reserveEach l key (replicate (Suc n) cost) =
      (cost \<le> avail l key) # reserveEach ?l' key (replicate n cost)"
    using assms(1) by (simp only: replicate_Suc reserveEach_Cons) simp
  have up: "map f [0..<Suc n] = f 0 # map (\<lambda>i. f (Suc i)) [0..<n]" for f :: "nat \<Rightarrow> bool"
    by (simp only: upt_conv_Cons map_Suc_upt [symmetric] list.map map_map zero_less_Suc comp_def)
  show ?case
  proof (cases "cost \<le> avail l key")
    case True
    then have a: "avail ?l' key = avail l key - cost" using assms(1) by (simp add: avail_Reserve)
    have "(avail l key - cost) div cost = avail l key div cost - 1"
      using assms(1) div_add_self2 [of cost "avail l key - cost"] by simp
    moreover have "0 < avail l key div cost" using True assms(1) by (simp add: pos_imp_zdiv_pos_iff)
    ultimately show ?thesis
      using Suc.IH [of ?l'] True a by (simp only: step up) (auto simp: algebra_simps)
  next
    case False
    then have a: "avail ?l' key = avail l key" using assms(1) by (simp add: avail_Reserve)
    have "avail l key div cost = 0" using False Suc.prems by (simp add: div_pos_pos_trivial)
    with Suc.IH [of ?l'] Suc.prems False a show ?thesis by (simp only: step up) simp
  qed
qed simp

theorem racing_reserves_witness:
  "reserveEach (ledger_run newCreditLedger [OSetAllowance ''k'' 10 0 1]) ''k'' (replicate 4 4) = [True, True, False, False]"
proof -
  have "avail (ledger_run newCreditLedger [OSetAllowance ''k'' 10 0 1]) ''k'' = 10" by code_simp
  then show ?thesis
    using racing_reserves [of 4 "ledger_run newCreditLedger [OSetAllowance ''k'' 10 0 1]" "''k''" 4]
    by (simp add: upt_rec)
qed

subsection \<open>The interface the admission gate uses\<close>

text \<open>
  What a gate needs of a ledger: whether a hold is granted depends on the available balance alone,
  an open hold costs exactly what was asked, resolving it returns all or all but the billed part,
  and a second resolution does nothing.
\<close>

locale hold_ledger =
  fixes balance :: "'l \<Rightarrow> string \<Rightarrow> int"
    and reserve :: "'l \<Rightarrow> string \<Rightarrow> int \<Rightarrow> 'l \<times> nat option"
    and release :: "'l \<Rightarrow> nat option \<Rightarrow> 'l"
    and trueup :: "'l \<Rightarrow> nat option \<Rightarrow> int \<Rightarrow> 'l \<times> bool"
    and opened :: "'l \<Rightarrow> nat \<Rightarrow> string \<Rightarrow> int \<Rightarrow> bool"
    and closed :: "'l \<Rightarrow> nat \<Rightarrow> bool"
  assumes deny: "balance l key < max 0 c \<Longrightarrow>
      snd (reserve l key c) = None \<and> balance (fst (reserve l key c)) = balance l"
    and grant: "max 0 c \<le> balance l key \<Longrightarrow> \<exists>h. snd (reserve l key c) = Some h
      \<and> opened (fst (reserve l key c)) h key (max 0 c)
      \<and> balance (fst (reserve l key c)) = (balance l)(key := balance l key - max 0 c)"
    and release_opened: "opened l h key c \<Longrightarrow>
      closed (release l (Some h)) h \<and> balance (release l (Some h)) = (balance l)(key := balance l key + c)"
    and trueup_opened: "opened l h key c \<Longrightarrow> snd (trueup l (Some h) a)
      \<and> closed (fst (trueup l (Some h) a)) h
      \<and> balance (fst (trueup l (Some h) a)) = (balance l)(key := balance l key + c - min c (max 0 a))"
    and closed_noop: "closed l h \<Longrightarrow> release l (Some h) = l \<and> trueup l (Some h) a = (l, False)"
begin

lemma admitted_iff: "snd (reserve l key c) = None \<longleftrightarrow> balance l key < max 0 c"
  using deny [of l key c] grant [of c l key] by (metis not_le option.distinct(1))

text \<open>A request that is served: hold, bill, and the deferred release that finds it resolved.\<close>

lemma served:
  assumes "snd (reserve l key c) = Some h"
  shows "balance (release (fst (trueup (fst (reserve l key c)) (Some h) a)) (Some h)) =
    (balance l)(key := balance l key - min (max 0 c) (max 0 a))"
proof -
  have "max 0 c \<le> balance l key" using assms admitted_iff [of l key c] by (simp add: not_less)
  from grant [OF this] assms have o: "opened (fst (reserve l key c)) h key (max 0 c)"
    and b: "balance (fst (reserve l key c)) = (balance l)(key := balance l key - max 0 c)" by auto
  from trueup_opened [OF o, of a] b closed_noop show ?thesis by (simp only:) simp
qed

text \<open>A request that fails: hold and release.\<close>

lemma failed:
  assumes "snd (reserve l key c) = Some h"
  shows "balance (release (fst (reserve l key c)) (Some h)) = balance l"
proof -
  have "max 0 c \<le> balance l key" using assms admitted_iff [of l key c] by (simp add: not_less)
  from grant [OF this] assms have o: "opened (fst (reserve l key c)) h key (max 0 c)"
    and b: "balance (fst (reserve l key c)) = (balance l)(key := balance l key - max 0 c)" by auto
  from release_opened [OF o] b show ?thesis by auto
qed

end

lemma avail_upd: "acct l' = (acct l)(key := k) \<Longrightarrow> avail l' = (avail l)(key := available k)"
  by (auto simp: avail_def)

lemma is_open_hold_at: "is_open l h key c \<Longrightarrow>
    \<exists>r. hold_at l h = Some r \<and> \<not> r_done r \<and> r_key r = key \<and> r_cost r = c \<and> h < length (holds l)"
  by (auto simp: is_open_def hold_at_def split: if_splits)

interpretation lg: hold_ledger avail Reserve Release TrueUp is_open resolved
proof
  fix l key and c :: int
  show "snd (Reserve l key c) = None \<and> avail (fst (Reserve l key c)) = avail l"
    if "avail l key < max 0 c" using Reserve_deny [OF that] by (simp add: avail_def frame fun_eq_iff)
  show "\<exists>h. snd (Reserve l key c) = Some h \<and> is_open (fst (Reserve l key c)) h key (max 0 c)
      \<and> avail (fst (Reserve l key c)) = (avail l)(key := avail l key - max 0 c)"
    if a: "max 0 c \<le> avail l key"
    using avail_upd [OF Reserve_grant(2) [OF a]]
    by (simp add: Reserve_grant [OF a] is_open_def hold_at_def) (simp add: avail_def available_def algebra_simps)
next
  fix l h key and c a :: int
  assume "is_open l h key c"
  then obtain r where r: "hold_at l h = Some r" "\<not> r_done r" "r_key r = key" "r_cost r = c" "h < length (holds l)"
    using is_open_hold_at by blast
  show "resolved (Release l (Some h)) h \<and> avail (Release l (Some h)) = (avail l)(key := avail l key + c)"
    using avail_upd [OF Release_open(1) [OF r(1,2)]] resolve_resolves(1) [OF r(5)] r(3,4)
    by (simp add: avail_def available_def algebra_simps)
  show "snd (TrueUp l (Some h) a) \<and> resolved (fst (TrueUp l (Some h) a)) h
      \<and> avail (fst (TrueUp l (Some h) a)) = (avail l)(key := avail l key + c - min c (max 0 a))"
    using avail_upd [OF TrueUp_open(1) [OF r(1,2), of a]] resolve_resolves(2) [OF r(5), of a]
      TrueUp_open(4) [OF r(1,2), of a] r(3,4)
    by (simp add: avail_def available_def algebra_simps)
next
  fix l h and a :: int
  show "resolved l h \<Longrightarrow> Release l (Some h) = l \<and> TrueUp l (Some h) a = (l, False)"
    by (rule resolved_noop)
qed

end
