(* ===== verification/Credit_Allowance.thy ===== *)
theory Credit_Allowance
  imports Ledger_Runs
begin

section \<open>Pushed credit allowances (proxy/allowance.go)\<close>

text \<open>
  The ingester of the allowance snapshots: validation, the version gate in front of the ledger,
  and the freshness policy. What \<open>json.Decoder.Decode\<close> makes of the pushed bytes is the argument
  \<open>decoded\<close>, \<open>None\<close> for a decoding error (truncated text, unknown field). The ingester shares its
  ledger with the gate, so \<open>Apply\<close> takes and returns both.
\<close>

record AllowanceEntry =
  KeyFingerprint :: string
  Balance :: int
  Watermark :: nat

record AllowanceSnapshot =
  Ver :: nat
  TsUnix :: int
  Allowances :: "AllowanceEntry list"

datatype allowance_error =
    ParseError
  | ZeroVer
  | MissingKey nat
  | NegativeBalance nat string int
  | DuplicateKey string

text \<open>The loop over the entries: \<open>i\<close> is the index, \<open>seen\<close> the fingerprints passed.\<close>

fun checkEntries :: "nat \<Rightarrow> string set \<Rightarrow> AllowanceEntry list \<Rightarrow> allowance_error option" where
  "checkEntries i seen [] = None"
| "checkEntries i seen (e # es) =
     (if KeyFingerprint e = [] then Some (MissingKey i)
      else if Balance e < 0 then Some (NegativeBalance i (KeyFingerprint e) (Balance e))
      else if KeyFingerprint e \<in> seen then Some (DuplicateKey (KeyFingerprint e))
      else checkEntries (Suc i) (insert (KeyFingerprint e) seen) es)"

definition parseAllowanceSnapshot ::
  "AllowanceSnapshot option \<Rightarrow> allowance_error + AllowanceSnapshot" where
  "parseAllowanceSnapshot decoded =
     (case decoded of
        None \<Rightarrow> Inl ParseError
      | Some s \<Rightarrow>
          if Ver s = 0 then Inl ZeroVer
          else (case checkEntries 0 {} (Allowances s) of Some e \<Rightarrow> Inl e | None \<Rightarrow> Inr s))"

datatype Freshness = Fresh | Stale | Expired

fun Freshness_String :: "Freshness \<Rightarrow> string" where
  "Freshness_String Fresh = ''fresh''"
| "Freshness_String Stale = ''stale''"
| "Freshness_String Expired = ''expired''"

definition snapshotFreshness :: "int \<Rightarrow> int \<Rightarrow> int \<Rightarrow> int \<Rightarrow> int \<Rightarrow> Freshness" where
  "snapshotFreshness tsUnix nowUnix graceSec hardMaxSec skewSec =
     (if tsUnix \<le> 0 then Expired
      else let age = wrap64 (nowUnix - tsUnix) in
        if age < wrap64 (- skewSec) then Expired
        else if age \<le> graceSec then Fresh
        else if age \<le> hardMaxSec then Stale
        else Expired)"

record allowanceIngester =
  lastVer :: nat
  lastTs :: int
  rejects :: int

definition newAllowanceIngester :: allowanceIngester where
  "newAllowanceIngester = \<lparr>lastVer = 0, lastTs = 0, rejects = 0\<rparr>"

definition reject :: "allowanceIngester \<Rightarrow> allowanceIngester" where
  "reject a = a\<lparr>rejects := rejects a + 1\<rparr>"

definition apply_entry :: "nat \<Rightarrow> creditLedger \<Rightarrow> AllowanceEntry \<Rightarrow> creditLedger" where
  "apply_entry ver l e = SetAllowance l (KeyFingerprint e) (Balance e) (Watermark e) ver"

definition Apply :: "allowanceIngester \<Rightarrow> creditLedger \<Rightarrow> AllowanceSnapshot option
    \<Rightarrow> (allowanceIngester \<times> creditLedger) \<times> bool" where
  "Apply a l decoded =
     (case parseAllowanceSnapshot decoded of
        Inl err \<Rightarrow> ((reject a, l), False)
      | Inr s \<Rightarrow>
          if Ver s \<le> lastVer a then ((a\<lparr>rejects := rejects a + 1\<rparr>, l), False)
          else ((a\<lparr>lastVer := Ver s, lastTs := TsUnix s\<rparr>,
                 foldl (apply_entry (Ver s)) l (Allowances s)), True))"

definition ingester_Freshness :: "allowanceIngester \<Rightarrow> int \<Rightarrow> int \<Rightarrow> int \<Rightarrow> int \<Rightarrow> Freshness" where
  "ingester_Freshness a nowUnix graceSec hardMaxSec skewSec =
     (if lastVer a = 0 then Expired
      else snapshotFreshness (lastTs a) nowUnix graceSec hardMaxSec skewSec)"

definition AppliedVer :: "allowanceIngester \<Rightarrow> nat" where
  "AppliedVer a = lastVer a"

definition rejectCount :: "allowanceIngester \<Rightarrow> int" where
  "rejectCount a = rejects a"

subsection \<open>Validation\<close>

definition entry_ok :: "AllowanceEntry \<Rightarrow> bool" where
  "entry_ok e \<longleftrightarrow> KeyFingerprint e \<noteq> [] \<and> 0 \<le> Balance e"

definition snapshot_ok :: "AllowanceSnapshot \<Rightarrow> bool" where
  "snapshot_ok s \<longleftrightarrow> 0 < Ver s \<and> distinct (map KeyFingerprint (Allowances s))
     \<and> list_all entry_ok (Allowances s)"

lemma checkEntries_None: "checkEntries i seen es = None \<longleftrightarrow>
    distinct (map KeyFingerprint es) \<and> list_all entry_ok es \<and> set (map KeyFingerprint es) \<inter> seen = {}"
  by (induction i seen es rule: checkEntries.induct) (auto simp: entry_ok_def)

lemma parse_Inr: "parseAllowanceSnapshot d = Inr s \<longleftrightarrow> d = Some s \<and> snapshot_ok s"
proof (cases d)
  case (Some x)
  have "checkEntries 0 {} (Allowances x) = None \<longleftrightarrow>
      distinct (map KeyFingerprint (Allowances x)) \<and> list_all entry_ok (Allowances x)"
    using checkEntries_None [where i = 0 and seen = "{}" and es = "Allowances x"] by simp
  then show ?thesis
    by (cases "checkEntries 0 {} (Allowances x)")
      (auto simp: Some parseAllowanceSnapshot_def snapshot_ok_def)
qed (simp add: parseAllowanceSnapshot_def)

subsection \<open>Application\<close>

lemma apply_entries:
  assumes "ledger_ok l" "distinct (map KeyFingerprint es)"
    and "\<And>key. allowanceVer (acct l key) \<le> ver"
  shows "ledger_ok (foldl (apply_entry ver) l es)
    \<and> (\<forall>key. acct (foldl (apply_entry ver) l es) key =
         (case find (\<lambda>e. KeyFingerprint e = key) es of
            None \<Rightarrow> acct l key | Some e \<Rightarrow> allow_acct (acct l key) (Balance e) (Watermark e) ver))
    \<and> holds (foldl (apply_entry ver) l es) = holds l"
  using assms
proof (induction es arbitrary: l)
  case (Cons e es)
  have k: "acct_ok (acct l (KeyFingerprint e))" using Cons.prems by (simp add: ledger_ok_def)
  note s = SetAllowance_fresh [OF Cons.prems(3) k, of "Balance e" "Watermark e"]
  have v: "allowanceVer (acct (apply_entry ver l e) key) \<le> ver" for key
    using Cons.prems(3) [of key] by (simp add: apply_entry_def s) (simp add: allow_acct_def)
  have ok: "ledger_ok (apply_entry ver l e)"
    using Cons.prems by (simp add: apply_entry_def SetAllowance_ok)
  have d: "distinct (map KeyFingerprint es)" using Cons.prems by simp
  note IH = Cons.IH [OF ok d v]
  have "find (\<lambda>x. KeyFingerprint x = KeyFingerprint e) es = None"
    using Cons.prems(2) by (auto simp: find_None_iff image_iff)
  moreover have "acct (apply_entry ver l e) = (acct l)(KeyFingerprint e :=
      allow_acct (acct l (KeyFingerprint e)) (Balance e) (Watermark e) ver)"
    "holds (apply_entry ver l e) = holds l"
    by (simp_all add: apply_entry_def s)
  ultimately show ?case using IH by (auto split: option.split)
qed simp

text \<open>The versions the ledger has seen never exceed the ingester's.\<close>

definition feed_ok :: "allowanceIngester \<Rightarrow> creditLedger \<Rightarrow> bool" where
  "feed_ok a l \<longleftrightarrow> ledger_ok l \<and> (\<forall>key. allowanceVer (acct l key) \<le> lastVer a)"

lemma feed_ok_new: "feed_ok newAllowanceIngester newCreditLedger"
  using ledger_ok_new by (simp add: feed_ok_def zeroCredit_def)

lemma Apply_rejected:
  "\<not> snd (Apply a l d) \<Longrightarrow> fst (Apply a l d) = (a\<lparr>rejects := rejects a + 1\<rparr>, l)"
  by (auto simp: Apply_def reject_def split: sum.splits if_splits)

lemma Apply_applied_iff:
  "snd (Apply a l d) \<longleftrightarrow> (\<exists>s. d = Some s \<and> snapshot_ok s \<and> lastVer a < Ver s)"
proof (cases "parseAllowanceSnapshot d")
  case (Inl e)
  then have "\<nexists>s. d = Some s \<and> snapshot_ok s" using parse_Inr [of d] by auto
  then show ?thesis using Inl by (auto simp: Apply_def)
next
  case (Inr s)
  then show ?thesis using parse_Inr [of d s] by (auto simp: Apply_def not_le)
qed

lemma Apply_applied:
  assumes "snapshot_ok s" "lastVer a < Ver s"
  shows "Apply a l (Some s) = ((a\<lparr>lastVer := Ver s, lastTs := TsUnix s\<rparr>,
    foldl (apply_entry (Ver s)) l (Allowances s)), True)"
  using assms parse_Inr [of "Some s" s] by (simp add: Apply_def)

lemma Apply_feed_ok:
  assumes "feed_ok a l" shows "feed_ok (fst (fst (Apply a l d))) (snd (fst (Apply a l d)))"
proof (cases "snd (Apply a l d)")
  case False
  with assms show ?thesis by (simp add: Apply_rejected feed_ok_def)
next
  case True
  then obtain s where s: "d = Some s" "snapshot_ok s" "lastVer a < Ver s"
    using Apply_applied_iff by blast
  have v: "allowanceVer (acct l key) \<le> Ver s" for key
    using assms s(3) by (auto simp: feed_ok_def intro: order_trans less_imp_le)
  have "ledger_ok l" "distinct (map KeyFingerprint (Allowances s))"
    using assms s(2) by (auto simp: feed_ok_def snapshot_ok_def)
  note e = apply_entries [OF this v]
  show ?thesis
    using e v unfolding feed_ok_def s(1) Apply_applied [OF s(2,3)]
    by (auto split: option.splits simp: allow_acct_def)
qed

subsection \<open>The feed: pushes interleaved with the ledger's other operations\<close>

datatype feed_step = Push "AllowanceSnapshot option" | Led ledger_op

text \<open>Only the ingester sets allowances.\<close>

fun not_set :: "ledger_op \<Rightarrow> bool" where
  "not_set (OSetAllowance _ _ _ _) = False"
| "not_set _ = True"

fun feed_do :: "allowanceIngester \<times> creditLedger \<Rightarrow> feed_step \<Rightarrow> allowanceIngester \<times> creditLedger" where
  "feed_do (a, l) (Push d) = fst (Apply a l d)"
| "feed_do (a, l) (Led x) = (if not_set x then (a, ledger_do l x) else (a, l))"

definition feed_run :: "feed_step list \<Rightarrow> allowanceIngester \<times> creditLedger" where
  "feed_run steps = foldl feed_do (newAllowanceIngester, newCreditLedger) steps"

lemma ver_kept:
  assumes "ledger_ok l" "not_set x"
  shows "allowanceVer (acct (ledger_do l x) key) = allowanceVer (acct l key)"
proof (cases x)
  case (OReserve k c)
  show ?thesis
  proof (cases "max 0 c \<le> avail l k")
    case True
    then show ?thesis by (simp add: OReserve Reserve_grant(2))
  next
    case False
    then have "avail l k < max 0 c" by (simp only: not_le)
    from Reserve_deny [OF this] show ?thesis by (simp add: OReserve frame)
  qed
next
  case (ORelease i)
  then show ?thesis
    by (cases rule: resolve_cases [of l i]) (auto simp: closed_id Release_open(1))
next
  case (OTrueUp i b)
  then show ?thesis
    by (cases rule: resolve_cases [of l i]) (auto simp: closed_id TrueUp_open(1))
next
  case (OConfirm k cost seq)
  then show ?thesis
    by (cases rule: Confirm_cases [where cost = cost and seq = seq and l = l and key = k])
      (auto simp: Confirm_free Confirm_replay Confirm_fresh confirm_acct_def)
qed (use assms in \<open>simp_all add: ledger_do_effects\<close>)

lemma feed_do_ok: "feed_ok a l \<Longrightarrow> (case feed_do (a, l) x of (a', l') \<Rightarrow> feed_ok a' l')"
proof (cases x)
  case (Push d)
  assume "feed_ok a l"
  from Apply_feed_ok [OF this, of d] Push show ?thesis by (simp add: case_prod_unfold)
next
  case (Led y)
  assume "feed_ok a l"
  with Led show ?thesis by (auto simp: feed_ok_def ledger_do_ok ver_kept)
qed

lemma feed_run_ok: "feed_ok (fst (feed_run steps)) (snd (feed_run steps))"
proof -
  have "feed_ok (fst p) (snd p) \<Longrightarrow>
      feed_ok (fst (foldl feed_do p steps)) (snd (foldl feed_do p steps))" for p
  proof (induction steps arbitrary: p)
    case (Cons x steps)
    have "feed_ok (fst (feed_do p x)) (snd (feed_do p x))"
      using feed_do_ok [OF Cons.prems, of x] by (simp add: case_prod_unfold)
    from Cons.IH [OF this] show ?case by simp
  qed simp
  then show ?thesis using feed_ok_new by (simp add: feed_run_def)
qed

text \<open>
  C9. The ingester is fail-safe and authoritative: in any run of pushes and ledger operations, a
  push is applied exactly when it decodes, has a positive version above every applied one, and its
  entries have distinct non-empty fingerprints and non-negative balances. An applied push sets every
  listed key to the pushed balance at that version and moves its watermark up to the pushed one, and
  leaves the other keys alone; a refused push is counted and leaves every balance as it was.
\<close>

theorem Apply_fail_safe:
  "let (a, l) = feed_run steps; ((a', l'), applied) = Apply a l pushed in
     (applied \<longleftrightarrow> (\<exists>s. pushed = Some s \<and> 0 < Ver s \<and> AppliedVer a < Ver s
          \<and> distinct (map KeyFingerprint (Allowances s))
          \<and> list_all (\<lambda>e. KeyFingerprint e \<noteq> [] \<and> 0 \<le> Balance e) (Allowances s)))
   \<and> (applied \<or> (l' = l \<and> AppliedVer a' = AppliedVer a \<and> lastTs a' = lastTs a \<and> rejectCount a' = rejectCount a + 1))
   \<and> (case pushed of None \<Rightarrow> True | Some s \<Rightarrow> applied \<longrightarrow>
        AppliedVer a' = Ver s \<and> lastTs a' = TsUnix s \<and> rejectCount a' = rejectCount a
      \<and> list_all (\<lambda>e. let k = acct l' (KeyFingerprint e) in
            allowance k = Balance e \<and> allowanceVer k = Ver s
          \<and> ackWatermark k = max (ackWatermark (acct l (KeyFingerprint e))) (Watermark e)) (Allowances s)
      \<and> (\<forall>key. key \<notin> set (map KeyFingerprint (Allowances s)) \<longrightarrow> acct l' key = acct l key))"
proof -
  obtain a l where al: "feed_run steps = (a, l)" by force
  have ok: "feed_ok a l" using feed_run_ok [of steps] by (simp add: al)
  have entry: "entry_ok = (\<lambda>e. KeyFingerprint e \<noteq> [] \<and> 0 \<le> Balance e)"
    by (simp add: entry_ok_def fun_eq_iff)
  show ?thesis
  proof (cases "snd (Apply a l pushed)")
    case False
    then have "\<nexists>s. pushed = Some s \<and> snapshot_ok s \<and> lastVer a < Ver s"
      using Apply_applied_iff by blast
    with False Apply_rejected [OF False] show ?thesis
      by (auto simp: al case_prod_unfold AppliedVer_def rejectCount_def snapshot_ok_def entry
          split: option.splits)
  next
    case True
    then obtain s where s: "pushed = Some s" "snapshot_ok s" "lastVer a < Ver s"
      using Apply_applied_iff by blast
    have v: "allowanceVer (acct l key) \<le> Ver s" for key
      using ok s(3) by (auto simp: feed_ok_def intro: order_trans less_imp_le)
    have d: "ledger_ok l" "distinct (map KeyFingerprint (Allowances s))"
      using ok s(2) by (auto simp: feed_ok_def snapshot_ok_def)
    note e = apply_entries [OF d v]
    have f: "find (\<lambda>x. KeyFingerprint x = KeyFingerprint y) (Allowances s) = Some y"
      if "y \<in> set (Allowances s)" for y
      using that d(2) by (auto simp: find_Some_split dest!: split_list) 
    have n: "find (\<lambda>x. KeyFingerprint x = key) (Allowances s) = None"
      if "key \<notin> KeyFingerprint ` set (Allowances s)" for key
      using that by (auto simp: find_None_iff)
    from s e f n show ?thesis
      by (auto simp: al Apply_applied AppliedVer_def rejectCount_def snapshot_ok_def entry
          list_all_iff allow_acct_def Let_def)
  qed
qed

theorem Apply_fail_safe_witness:
  "allowance (acct (snd (fst (Apply newAllowanceIngester newCreditLedger
     (Some \<lparr>Ver = 3, TsUnix = 100, Allowances = [\<lparr>KeyFingerprint = ''k'', Balance = 40, Watermark = 2\<rparr>]\<rparr>)))) ''k'') = 40"
proof -
  let ?s = "\<lparr>Ver = 3, TsUnix = 100, Allowances = [\<lparr>KeyFingerprint = ''k'', Balance = 40, Watermark = 2\<rparr>]\<rparr>"
  have "snd (Apply newAllowanceIngester newCreditLedger (Some ?s))" by code_simp
  then show ?thesis
    using Apply_fail_safe [of "[]" "Some ?s"] by (simp add: feed_run_def case_prod_unfold Let_def)
qed

subsection \<open>Freshness\<close>

text \<open>
  Freshness is conservative and only gets worse: with the clocks in the int64 range and the
  grace window inside the hard maximum, a snapshot is expired exactly when its timestamp is missing,
  lies further in the future than the tolerated skew, or is older than the hard maximum; it is fresh
  exactly within the grace window; and once it has become stale or expired by age, no later clock
  reading makes it fresh again.
\<close>

theorem snapshotFreshness_sound:
  assumes "in_i64 ts" "0 \<le> now" "in_i64 now" "0 \<le> later" "in_i64 later" "now \<le> later"
    and "0 \<le> skew" "in_i64 skew" "0 \<le> grace" "grace \<le> hardMax"
  shows "(snapshotFreshness ts now grace hardMax skew = Expired \<longleftrightarrow>
            ts \<le> 0 \<or> now + skew < ts \<or> ts + hardMax < now)
    \<and> (snapshotFreshness ts now grace hardMax skew = Fresh \<longleftrightarrow>
            0 < ts \<and> ts \<le> now + skew \<and> now \<le> ts + grace)
    \<and> (ts + grace < now \<longrightarrow> snapshotFreshness ts later grace hardMax skew \<noteq> Fresh)
    \<and> (ts + hardMax < now \<longrightarrow> snapshotFreshness ts later grace hardMax skew = Expired)"
proof (cases "ts \<le> 0")
  case False
  then have "in_i64 (now - ts)" "in_i64 (later - ts)" "in_i64 (- skew)"
    using assms by (auto simp: in_i64_def)
  with False assms show ?thesis by (simp add: snapshotFreshness_def Let_def)
qed (simp add: snapshotFreshness_def)

theorem snapshotFreshness_sound_witness:
  "snapshotFreshness 1000 1400 300 900 5 = Stale \<and> snapshotFreshness 1000 2000 300 900 5 = Expired
   \<and> snapshotFreshness 1000 1400 300 900 5 \<noteq> Fresh"
proof -
  have "snapshotFreshness 1000 1400 300 900 5 = Stale" by (simp add: snapshotFreshness_def in_i64_def)
  then show ?thesis
    using snapshotFreshness_sound [of 1000 1901 2000 5 300 900] by (simp add: in_i64_def)
qed

end
