(* ===== verification/Credit_Gate.thy ===== *)
theory Credit_Gate
  imports Credit_Allowance Price_Book
begin

section \<open>The prepaid-credit gate (proxy/credit_gate.go, proxy/credit_gate_wiring.go)\<close>

text \<open>
  Admission, resolution and fault containment of one metered request. A call that can panic
  returns the state together with \<open>None\<close> when it panicked and \<open>Some\<close> of its result when it
  returned. \<open>g_broken\<close> is a fault injected into the ledger: every call into it then panics before
  it changes anything, which is what the containment boundary is there for. A nil ledger or price
  book is \<open>None\<close>. The JSON fields of the request body are read by a third-party package, so the
  body estimators take what it returns as arguments.
\<close>

record modelAnomaly =
  clamps :: int
  pricingFails :: int

record creditGate =
  enforce :: bool
  g_ledger :: "creditLedger option"
  prices :: "priceBook option"
  failOpen :: bool
  anomalies :: "string \<rightharpoonup> modelAnomaly"
  gatePanics :: int
  g_broken :: bool

datatype admitDecision = admitOff | admitOK | admitUnpriced | admitInsufficient | admitFault

record creditReservation =
  r_gate :: bool
  inner :: "nat option"
  r_model :: string
  reservedCost :: int

record creditCapture =
  status :: int
  cap_input :: int
  cap_output :: int

type_synonym 'a call = "creditGate \<times> 'a option"

subsection \<open>The gate\<close>

definition newCreditGate :: "bool \<Rightarrow> creditLedger option \<Rightarrow> priceBook option \<Rightarrow> creditGate" where
  "newCreditGate e l p = \<lparr>enforce = e, g_ledger = l, prices = p, failOpen = False,
     anomalies = Map.empty, gatePanics = 0, g_broken = False\<rparr>"

definition enforcing :: "creditGate option \<Rightarrow> bool" where
  "enforcing g = (case g of None \<Rightarrow> False | Some g \<Rightarrow> enforce g)"

definition served :: "admitDecision \<Rightarrow> bool" where
  "served d \<longleftrightarrow> d = admitOff \<or> d = admitOK"

definition noopReservation :: creditReservation where
  "noopReservation = \<lparr>r_gate = False, inner = None, r_model = [], reservedCost = 0\<rparr>"

definition ledger_Reserve :: "creditGate \<Rightarrow> creditLedger \<Rightarrow> string \<Rightarrow> int \<Rightarrow> nat option call" where
  "ledger_Reserve g l key cost =
     (if g_broken g then (g, None)
      else case Reserve l key cost of (l', h) \<Rightarrow> (g\<lparr>g_ledger := Some l'\<rparr>, Some h))"

definition ledger_TrueUp :: "creditGate \<Rightarrow> nat option \<Rightarrow> int \<Rightarrow> unit call" where
  "ledger_TrueUp g h actual =
     (case (g_broken g, g_ledger g) of
        (False, Some l) \<Rightarrow> (g\<lparr>g_ledger := Some (fst (TrueUp l h actual))\<rparr>, Some ())
      | _ \<Rightarrow> (g, None))"

definition ledger_Release :: "creditGate \<Rightarrow> nat option \<Rightarrow> unit call" where
  "ledger_Release g h =
     (case (g_broken g, g_ledger g) of
        (False, Some l) \<Rightarrow> (g\<lparr>g_ledger := Some (Release l h)\<rparr>, Some ())
      | _ \<Rightarrow> (g, None))"

definition admit :: "creditGate \<Rightarrow> string \<Rightarrow> string \<Rightarrow> int \<Rightarrow> int
    \<Rightarrow> (creditReservation option \<times> admitDecision) call" where
  "admit g key model promptTokens requestedMax =
     (if \<not> enforcing (Some g) then (g, Some (Some noopReservation, admitOff))
      else case (prices g, g_ledger g) of
        (Some pb, Some l) \<Rightarrow>
          (case ReserveCost pb model promptTokens requestedMax of
             None \<Rightarrow> (g, Some (None, admitUnpriced))
           | Some cost \<Rightarrow>
               (case ledger_Reserve g l key cost of
                  (g, None) \<Rightarrow> (g, None)
                | (g, Some None) \<Rightarrow> (g, Some (None, admitInsufficient))
                | (g, Some (Some hold)) \<Rightarrow>
                    (g, Some (Some \<lparr>r_gate = True, inner = Some hold, r_model = model,
                                    reservedCost = cost\<rparr>, admitOK))))
      | _ \<Rightarrow> (g, Some (None, admitUnpriced)))"

definition anomalyLocked :: "creditGate \<Rightarrow> string \<Rightarrow> modelAnomaly" where
  "anomalyLocked g model =
     (case anomalies g model of None \<Rightarrow> \<lparr>clamps = 0, pricingFails = 0\<rparr> | Some a \<Rightarrow> a)"

definition recordClamp :: "creditGate \<Rightarrow> string \<Rightarrow> creditGate" where
  "recordClamp g model =
     (let a = anomalyLocked g model
      in g\<lparr>anomalies := (anomalies g)(model \<mapsto> a\<lparr>clamps := clamps a + 1\<rparr>)\<rparr>)"

definition recordPricingFail :: "creditGate \<Rightarrow> string \<Rightarrow> creditGate" where
  "recordPricingFail g model =
     (let a = anomalyLocked g model
      in g\<lparr>anomalies := (anomalies g)(model \<mapsto> a\<lparr>pricingFails := pricingFails a + 1\<rparr>)\<rparr>)"

definition clampCount :: "creditGate \<Rightarrow> string \<Rightarrow> int" where
  "clampCount g model = (case anomalies g model of Some a \<Rightarrow> clamps a | None \<Rightarrow> 0)"

definition pricingFailCount :: "creditGate \<Rightarrow> string \<Rightarrow> int" where
  "pricingFailCount g model = (case anomalies g model of Some a \<Rightarrow> pricingFails a | None \<Rightarrow> 0)"

definition recordGateFault :: "creditGate \<Rightarrow> creditGate" where
  "recordGateFault g = g\<lparr>gatePanics := gatePanics g + 1\<rparr>"

definition gatePanicCount :: "creditGate \<Rightarrow> int" where
  "gatePanicCount g = gatePanics g"

definition faultAction :: "creditGate \<Rightarrow> string" where
  "faultAction g = (if failOpen g then ''canary FAIL-OPEN (served un-metered)'' else ''fail-CLOSED deny'')"

subsection \<open>Resolving a reservation\<close>

definition trueUp :: "creditGate \<Rightarrow> creditReservation option \<Rightarrow> int \<Rightarrow> int \<Rightarrow> unit call" where
  "trueUp g rsv promptTokens completionTokens =
     (case rsv of None \<Rightarrow> (g, Some ())
      | Some r \<Rightarrow>
          if inner r = None then (g, Some ())
          else (case prices g of None \<Rightarrow> (g, None)
            | Some pb \<Rightarrow>
                (case ActualCost pb (r_model r) promptTokens completionTokens of
                   None \<Rightarrow> ledger_TrueUp (recordPricingFail g (r_model r)) (inner r) 0
                 | Some actual \<Rightarrow>
                     ledger_TrueUp
                       (if actual > reservedCost r then recordClamp g (r_model r) else g)
                       (inner r) actual)))"

definition rsv_release :: "creditGate \<Rightarrow> creditReservation option \<Rightarrow> unit call" where
  "rsv_release g rsv =
     (case rsv of None \<Rightarrow> (g, Some ())
      | Some r \<Rightarrow> if inner r = None then (g, Some ()) else ledger_Release g (inner r))"

definition trueUpReserved :: "creditGate \<Rightarrow> creditReservation option \<Rightarrow> unit call" where
  "trueUpReserved g rsv =
     (case rsv of None \<Rightarrow> (g, Some ())
      | Some r \<Rightarrow> if inner r = None then (g, Some ()) else ledger_TrueUp g (inner r) (reservedCost r))"

definition resolveReservation ::
  "creditGate \<Rightarrow> creditReservation option \<Rightarrow> creditCapture option \<Rightarrow> unit call" where
  "resolveReservation g rsv cap =
     (case cap of None \<Rightarrow> rsv_release g rsv
      | Some c \<Rightarrow>
          if status c \<noteq> 200 then rsv_release g rsv
          else if cap_input c \<le> 0 \<and> cap_output c \<le> 0 then trueUpReserved g rsv
          else trueUp g rsv (cap_input c) (cap_output c))"

subsection \<open>Containment\<close>

text \<open>The result of the call, whether it panicked, and the policy when it did.\<close>

definition recoverGateFault ::
  "creditGate \<Rightarrow> (creditGate \<Rightarrow> 'a call) \<Rightarrow> creditGate \<times> 'a option \<times> bool \<times> bool" where
  "recoverGateFault g fn =
     (case fn g of
        (g, Some x) \<Rightarrow> (g, Some x, False, False)
      | (g, None) \<Rightarrow> (recordGateFault g, None, True, failOpen g))"

definition guardedAdmit :: "creditGate \<Rightarrow> string \<Rightarrow> string \<Rightarrow> int \<Rightarrow> int
    \<Rightarrow> creditGate \<times> creditReservation option \<times> admitDecision" where
  "guardedAdmit g key model promptTokens requestedMax =
     (case recoverGateFault g (\<lambda>g. admit g key model promptTokens requestedMax) of
        (g, Some (rsv, d), _, _) \<Rightarrow> (g, rsv, d)
      | (g, None, faulted, fo) \<Rightarrow>
          if fo then (g, Some noopReservation, admitOff) else (g, None, admitFault))"

text \<open>The result says whether a panic escapes: \<open>None\<close> would.\<close>

definition guardedResolve ::
  "creditGate \<Rightarrow> creditReservation option \<Rightarrow> (creditGate \<Rightarrow> unit call) \<Rightarrow> unit call" where
  "guardedResolve g rsv fn =
     (case rsv of None \<Rightarrow> (g, Some ())
      | Some r \<Rightarrow>
          if \<not> r_gate r then fn g
          else (case recoverGateFault g fn of
            (g, _, faulted, _) \<Rightarrow>
              if faulted
              then (case recoverGateFault g (\<lambda>g. rsv_release g rsv) of (g, _, _, _) \<Rightarrow> (g, Some ()))
              else (g, Some ())))"

subsection \<open>The wiring\<close>

definition creditPromptUpperBound :: "string \<Rightarrow> string option \<Rightarrow> string option \<Rightarrow> int" where
  "creditPromptUpperBound body messagesRaw promptRaw =
     (let n = 0;
          n = (case messagesRaw of Some m \<Rightarrow> n + int (length m) | None \<Rightarrow> n);
          n = (case promptRaw of Some p \<Rightarrow> n + int (length p) | None \<Rightarrow> n)
      in if n = 0 then int (length body) else n)"

definition creditRequestedMax :: "int option \<Rightarrow> int option \<Rightarrow> int" where
  "creditRequestedMax max_tokens max_completion_tokens =
     (case max_tokens of Some v \<Rightarrow> v
      | None \<Rightarrow> (case max_completion_tokens of Some v \<Rightarrow> v | None \<Rightarrow> 0))"

definition creditDenyStatus :: "admitDecision \<Rightarrow> int" where
  "creditDenyStatus d = (if d = admitFault then 503 else 402)"

fun creditDenyMessage :: "admitDecision \<Rightarrow> string" where
  "creditDenyMessage admitInsufficient = ''insufficient credits for this request''"
| "creditDenyMessage admitUnpriced = ''model is not available for prepaid billing''"
| "creditDenyMessage admitFault = ''billing temporarily unavailable, please retry''"
| "creditDenyMessage _ = ''request denied by billing''"

definition setCreditCaptureStatus :: "creditCapture option \<Rightarrow> int \<Rightarrow> creditCapture option" where
  "setCreditCaptureStatus cap st = map_option (\<lambda>c. c\<lparr>status := st\<rparr>) cap"

definition setCreditCaptureTokens :: "creditCapture option \<Rightarrow> int \<Rightarrow> int \<Rightarrow> creditCapture option" where
  "setCreditCaptureTokens cap inp outp = map_option (\<lambda>c. c\<lparr>cap_input := inp, cap_output := outp\<rparr>) cap"

text \<open>
  The gate's part of \<open>proxyInferenceHandler\<close>: admission, the dispatch (\<open>serve\<close> is the capture it
  leaves and the gate in the state other requests have brought it to), and the deferred resolution.
  \<open>Inl\<close> is the error response.
\<close>

definition meteredRequest :: "creditGate \<Rightarrow> bool \<Rightarrow> string \<Rightarrow> string \<Rightarrow> int \<Rightarrow> int
    \<Rightarrow> (creditGate \<Rightarrow> creditGate \<times> creditCapture) \<Rightarrow> creditGate \<times> ((int \<times> string) + unit option)" where
  "meteredRequest g metered key model promptUpper requestedMax serve =
     (if enforcing (Some g) \<and> metered then
        (case guardedAdmit g key model promptUpper requestedMax of
           (g, rsv, d) \<Rightarrow>
             if \<not> served d then (g, Inl (creditDenyStatus d, creditDenyMessage d))
             else case serve g of (g, cap) \<Rightarrow>
               (case guardedResolve g rsv (\<lambda>g. resolveReservation g rsv (Some cap)) of
                  (g, r) \<Rightarrow> (g, Inr r)))
      else case serve g of (g, _) \<Rightarrow> (g, Inr (Some ())))"

subsection \<open>What admission decides\<close>

lemma lg_deny: "snd (Reserve l key c) = None \<longleftrightarrow> avail l key < max 0 c"
  by (rule lg.admitted_iff)

lemma admit_cases:
  assumes "enforce g" "prices g = Some pb" "g_ledger g = Some l" "\<not> g_broken g"
    and "ReserveCost pb model p m = Some cost"
  shows "avail l key < max 0 cost \<Longrightarrow>
      admit g key model p m = (g\<lparr>g_ledger := Some (fst (Reserve l key cost))\<rparr>, Some (None, admitInsufficient))"
    and "snd (Reserve l key cost) = Some h \<Longrightarrow>
      admit g key model p m = (g\<lparr>g_ledger := Some (fst (Reserve l key cost))\<rparr>,
        Some (Some \<lparr>r_gate = True, inner = Some h, r_model = model, reservedCost = cost\<rparr>, admitOK))"
  using assms lg_deny [of l key cost]
  by (auto simp: admit_def enforcing_def ledger_Reserve_def split: prod.splits)

lemma guardedAdmit_admit:
  "admit g key model p m = (g', Some (rsv, d)) \<Longrightarrow> guardedAdmit g key model p m = (g', rsv, d)"
  by (simp add: guardedAdmit_def recoverGateFault_def)

lemma guardedResolve_returns:
  assumes "fn g = (g', Some ())"
  shows "guardedResolve g (Some r) fn = (g', Some ())"
  using assms by (simp add: guardedResolve_def recoverGateFault_def)

text \<open>
  What a served request is billed once it is resolved: nothing unless the upstream answered 200,
  the whole hold when no usage came back, otherwise the metered price up to the hold.
\<close>

definition charge :: "priceBook \<Rightarrow> string \<Rightarrow> int \<Rightarrow> creditCapture \<Rightarrow> int" where
  "charge pb model cost cap =
     (if status cap \<noteq> 200 then 0
      else if cap_input cap \<le> 0 \<and> cap_output cap \<le> 0 then max 0 cost
      else case ActualCost pb model (cap_input cap) (cap_output cap) of
        None \<Rightarrow> 0 | Some actual \<Rightarrow> min (max 0 cost) (max 0 actual))"

lemma resolve_held:
  assumes "g_ledger g = Some l" "\<not> g_broken g" "prices g = Some pb"
    and "is_open l h key (max 0 cost)"
    and "rsv = \<lparr>r_gate = True, inner = Some h, r_model = model, reservedCost = cost\<rparr>"
  shows "\<exists>g' l'. resolveReservation g (Some rsv) (Some cap) = (g', Some ())
    \<and> g_ledger g' = Some l' \<and> resolved l' h \<and> gatePanics g' = gatePanics g
    \<and> avail l' = (avail l)(key := avail l key + max 0 cost - charge pb model cost cap)"
proof (cases "status cap = 200")
  case False
  then show ?thesis
    using assms lg.release_opened [OF assms(4)]
    by (simp add: resolveReservation_def rsv_release_def ledger_Release_def charge_def)
next
  case ok: True
  show ?thesis
  proof (cases "cap_input cap \<le> 0 \<and> cap_output cap \<le> 0")
    case True
    have "min (max 0 cost) (max 0 cost) = max 0 cost" by simp
    with ok True show ?thesis
      using assms lg.trueup_opened [OF assms(4), of cost]
      by (simp add: resolveReservation_def trueUpReserved_def ledger_TrueUp_def charge_def)
  next
    case False
    note ok = ok if_not_P [OF False]
    show ?thesis
    proof (cases "ActualCost pb model (cap_input cap) (cap_output cap)")
      case None
      then show ?thesis
        using assms lg.trueup_opened [OF assms(4), of 0]
        by (simp add: ok resolveReservation_def trueUp_def ledger_TrueUp_def charge_def
            recordPricingFail_def Let_def)
    next
      case (Some actual)
      then show ?thesis
        using assms lg.trueup_opened [OF assms(4), of actual]
        by (simp add: ok resolveReservation_def trueUp_def ledger_TrueUp_def charge_def
            recordClamp_def Let_def)
    qed
  qed
qed

lemma metered_charge:
  assumes "enforce g" "prices g = Some pb" "g_ledger g = Some l" "\<not> g_broken g"
    and "ReserveCost pb model promptUpper requestedMax = Some cost"
  shows "case meteredRequest g True key model promptUpper requestedMax (\<lambda>g. (g, cap)) of (g', response) \<Rightarrow>
    \<exists>l'. g_ledger g' = Some l' \<and> gatePanicCount g' = gatePanicCount g
     \<and> (if avail l key < max 0 cost
        then response = Inl (402, ''insufficient credits for this request'') \<and> avail l' = avail l
        else response = Inr (Some ())
          \<and> avail l' = (avail l)(key := avail l key -
               charge pb model cost cap)
          \<and> avail l key - max 0 cost \<le> avail l' key \<and> avail l' key \<le> avail l key)"
proof (cases "avail l key < max 0 cost")
  case True
  with lg.deny [OF True] guardedAdmit_admit [OF admit_cases(1) [OF assms True]] assms show ?thesis
    by (simp add: meteredRequest_def enforcing_def served_def creditDenyStatus_def gatePanicCount_def)
next
  case False
  then have cov: "max 0 cost \<le> avail l key" by (simp only: not_less)
  from lg.grant [OF cov] obtain h where h: "snd (Reserve l key cost) = Some h"
    "is_open (fst (Reserve l key cost)) h key (max 0 cost)"
    "avail (fst (Reserve l key cost)) = (avail l)(key := avail l key - max 0 cost)" by blast
  let ?rsv = "\<lparr>r_gate = True, inner = Some h, r_model = model, reservedCost = cost\<rparr>"
  let ?g = "g\<lparr>g_ledger := Some (fst (Reserve l key cost))\<rparr>"
  from resolve_held [of ?g _ pb h key cost ?rsv model cap] h(2) assms
  obtain g' l' where r: "resolveReservation ?g (Some ?rsv) (Some cap) = (g', Some ())"
    "g_ledger g' = Some l'" "gatePanics g' = gatePanics g"
    "avail l' = (avail (fst (Reserve l key cost)))
       (key := avail (fst (Reserve l key cost)) key + max 0 cost - charge pb model cost cap)" by auto
  have run: "meteredRequest g True key model promptUpper requestedMax (\<lambda>g. (g, cap)) = (g', Inr (Some ()))"
    using assms guardedAdmit_admit [OF admit_cases(2) [OF assms h(1)]]
      guardedResolve_returns [where r = ?rsv and g = ?g and g' = g'
        and fn = "\<lambda>g. resolveReservation g (Some ?rsv) (Some cap)", OF r(1)]
    by (simp add: meteredRequest_def enforcing_def served_def)
  have a: "avail l' = (avail l)(key := avail l key - charge pb model cost cap)"
    by (simp add: r(4) h(3))
  have "0 \<le> charge pb model cost cap \<and> charge pb model cost cap \<le> max 0 cost"
    by (auto simp: charge_def split: option.splits)
  then show ?thesis
    using False by (simp only: run) (simp add: r(2,3) a gatePanicCount_def)
qed

text \<open>
  C11. A metered request, end to end: with a working gate, a request whose worst-case cost exceeds
  the key's available balance is answered 402 and leaves every balance as it was; any other is
  served, and once it is resolved its key's balance has dropped by exactly the charge - nothing
  unless the upstream answered 200, the whole hold when no usage came back, otherwise the metered
  price capped at the hold - while no other key's balance moved, the charge lies between 0 and the
  hold, and no fault is counted.
\<close>

theorem meteredRequest_charges:
  assumes "enforce g" "prices g = Some pb" "g_ledger g = Some l" "\<not> g_broken g"
    and "ReserveCost pb model promptUpper requestedMax = Some cost"
  shows "case meteredRequest g True key model promptUpper requestedMax (\<lambda>g. (g, cap)) of (g', response) \<Rightarrow>
    \<exists>l'. g_ledger g' = Some l' \<and> gatePanicCount g' = gatePanicCount g
     \<and> (if avail l key < max 0 cost
        then response = Inl (402, ''insufficient credits for this request'') \<and> avail l' = avail l
        else response = Inr (Some ())
          \<and> avail l' = (avail l)(key := avail l key -
               (if status cap \<noteq> 200 then 0
                else if cap_input cap \<le> 0 \<and> cap_output cap \<le> 0 then max 0 cost
                else case ActualCost pb model (cap_input cap) (cap_output cap) of
                       None \<Rightarrow> 0 | Some actual \<Rightarrow> min (max 0 cost) (max 0 actual)))
          \<and> avail l key - max 0 cost \<le> avail l' key \<and> avail l' key \<le> avail l key)"
  using metered_charge [OF assms] unfolding charge_def .

theorem meteredRequest_charges_witness:
  "case meteredRequest (newCreditGate True (Some (ledger_run newCreditLedger [OSetAllowance ''k'' 50 0 1]))
       (Some [''m'' \<mapsto> \<lparr>InputPer1k = 1000, OutputPer1k = 2000, MaxOutputTokens = 10\<rparr>]))
       True ''k'' ''m'' 8 5 (\<lambda>g. (g, \<lparr>status = 200, cap_input = 6, cap_output = 4\<rparr>)) of (g', response) \<Rightarrow>
    \<exists>l'. g_ledger g' = Some l' \<and> response = Inr (Some ()) \<and> avail l' ''k'' = 36"
proof -
  let ?l = "ledger_run newCreditLedger [OSetAllowance ''k'' 50 0 1]"
  let ?pb = "[''m'' \<mapsto> \<lparr>InputPer1k = 1000, OutputPer1k = 2000, MaxOutputTokens = 10\<rparr>]"
  let ?g = "newCreditGate True (Some ?l) (Some ?pb)"
  have c: "ReserveCost ?pb ''m'' 8 5 = Some 18" "ActualCost ?pb ''m'' 6 4 = Some 14" by code_simp+
  have a: "avail ?l ''k'' = 50" by code_simp
  have g: "enforce ?g" "prices ?g = Some ?pb" "g_ledger ?g = Some ?l" "\<not> g_broken ?g"
    by (simp_all add: newCreditGate_def)
  have "min (max 0 18) (max 0 14) = (14::int)" "\<not> (50::int) < max 0 18" by simp_all
  then show ?thesis
    using meteredRequest_charges [OF g c(1), of "''k''" "\<lparr>status = 200, cap_input = 6, cap_output = 4\<rparr>"]
    unfolding a case_prod_unfold creditCapture.simps c(2) option.case by (auto simp: a)
qed

subsection \<open>Faults stay inside the gate\<close>

lemma broken_calls:
  assumes "g_broken g"
  shows "ledger_Reserve g l key c = (g, None)" "ledger_TrueUp g h a = (g, None)" "ledger_Release g h = (g, None)"
  using assms by (simp_all add: ledger_Reserve_def ledger_TrueUp_def ledger_Release_def)

text \<open>
  C12. Fault containment: when every call into the ledger panics, a metered request the gate would
  have to reserve for is denied with 503, or served without a hold under the fail-open policy, and
  one fault is counted; resolving a held reservation returns normally even though the compensating
  release panics as well, and counts both faults; and in no case is the ledger changed.
\<close>

theorem faults_contained:
  assumes "enforce g" "prices g = Some pb" "g_ledger g = Some l" "g_broken g"
    and "ReserveCost pb model promptUpper requestedMax = Some cost"
  shows "guardedAdmit g key model promptUpper requestedMax =
      (g\<lparr>gatePanics := gatePanics g + 1\<rparr>,
       (if failOpen g then (Some noopReservation, admitOff) else (None, admitFault)))
    \<and> creditDenyStatus admitFault = 503
    \<and> (let rsv = Some \<lparr>r_gate = True, inner = Some h, r_model = model, reservedCost = cost\<rparr> in
        \<exists>g'. guardedResolve g rsv (\<lambda>g. resolveReservation g rsv cap) = (g', Some ())
           \<and> g_ledger g' = Some l \<and> gatePanicCount g' = gatePanicCount g + 2)"
proof -
  let ?r = "\<lparr>r_gate = True, inner = Some h, r_model = model, reservedCost = cost\<rparr>"
  have 1: "guardedAdmit g key model promptUpper requestedMax =
      (g\<lparr>gatePanics := gatePanics g + 1\<rparr>,
       (if failOpen g then (Some noopReservation, admitOff) else (None, admitFault)))"
    using assms broken_calls [OF assms(4)]
    by (simp add: guardedAdmit_def recoverGateFault_def admit_def enforcing_def recordGateFault_def)
  have res: "\<exists>g'. resolveReservation g (Some ?r) cap = (g', None) \<and> g_ledger g' = Some l
      \<and> g_broken g' \<and> gatePanics g' = gatePanics g"
    using assms by (auto simp: resolveReservation_def rsv_release_def trueUpReserved_def trueUp_def
        ledger_TrueUp_def ledger_Release_def recordPricingFail_def recordClamp_def Let_def
        split: option.splits)
  then obtain g' where g': "resolveReservation g (Some ?r) cap = (g', None)" "g_ledger g' = Some l"
    "g_broken g'" "gatePanics g' = gatePanics g" by blast
  have "guardedResolve g (Some ?r) (\<lambda>g. resolveReservation g (Some ?r) cap) =
      (recordGateFault (recordGateFault g'), Some ())"
    using g'(1,3) by (simp add: guardedResolve_def recoverGateFault_def rsv_release_def
        ledger_Release_def recordGateFault_def)
  with 1 g'(2,4) show ?thesis
    by (simp add: creditDenyStatus_def recordGateFault_def gatePanicCount_def Let_def)
qed

theorem faults_contained_witness:
  "snd (snd (guardedAdmit ((newCreditGate True (Some newCreditLedger)
      (Some [''m'' \<mapsto> \<lparr>InputPer1k = 1, OutputPer1k = 1, MaxOutputTokens = 9\<rparr>]))\<lparr>g_broken := True\<rparr>)
      ''k'' ''m'' 1 0)) = admitFault"
proof -
  let ?pb = "[''m'' \<mapsto> \<lparr>InputPer1k = 1, OutputPer1k = 1, MaxOutputTokens = 9\<rparr>]"
  let ?g = "(newCreditGate True (Some newCreditLedger) (Some ?pb))\<lparr>g_broken := True\<rparr>"
  have "ReserveCost ?pb ''m'' 1 0 = Some 2" by code_simp
  then show ?thesis
    using conjunct1 [OF faults_contained [of ?g ?pb newCreditLedger "''m''" 1 0 2 "''k''"]]
    by (simp add: newCreditGate_def)
qed

lemma off_untouched: "\<not> enforce g \<Longrightarrow>
    meteredRequest g metered key model p m serve = (fst (serve g), Inr (Some ()))"
  by (simp add: meteredRequest_def enforcing_def case_prod_unfold)

end
