(* ===== verification/Debit_Log.thy ===== *)
theory Debit_Log
  imports Go_Prelude
begin

section \<open>The durable debit log (proxy/debit_log.go)\<close>

text \<open>
  The append-only log: its file as a byte string on a disk, its memory, and the operations
  \<open>load\<close>, \<open>newDebitLog\<close>, \<open>Append\<close>, \<open>SinceWithHead\<close> and \<open>close\<close>. A disk operation can fail, so
  \<open>Append\<close> takes the outcome of its write and of its fsync: a write that fails may have written
  any prefix of the line. The JSON codec of an event is the pair of arguments \<open>marshal\<close> and
  \<open>unmarshal\<close>; \<open>codec_ok\<close> is what \<open>encoding/json\<close> documents of it: encoded text holds no newline
  byte, and decoding an encoded event, with the trailing newline, gives the event back.
\<close>

record DebitEvent =
  RequestID :: string
  Seq :: nat
  Ts :: int
  ev_KeyFingerprint :: string
  ClientLabel :: string
  ev_Model :: string
  ev_InputTokens :: int
  ev_OutputTokens :: int
  ev_Node :: string
  Country :: string

text \<open>\<open>opened\<close> says whether the append handle is open; the path is \<open>None\<close> when disabled.\<close>

record debitLog =
  dl_path :: "string option"
  dl_seq :: nat
  dl_events :: "DebitEvent list"
  opened :: bool

text \<open>The disk: the file's bytes, \<open>None\<close> when there is no file.\<close>

type_synonym disk = "string option"

datatype write_result = WriteOK | WriteFailed nat
datatype log_error = ErrMarshal | ErrWrite | ErrSync

definition newline :: char where
  "newline = CHR 0x0A"

text \<open>\<open>ReadBytes('\n')\<close>: the bytes through the first newline, \<open>None\<close> at the end of the file.\<close>

fun readLine :: "string \<Rightarrow> (string \<times> string) option" where
  "readLine [] = None"
| "readLine (c # cs) =
     (if c = newline then Some ([c], cs)
      else (case readLine cs of None \<Rightarrow> None | Some (l, r) \<Rightarrow> Some (c # l, r)))"

lemma readLine_length: "readLine cs = Some (l, r) \<Longrightarrow> cs = l @ r \<and> l \<noteq> []"
  by (induction cs arbitrary: l r) (auto split: if_splits option.splits)

text \<open>The loop of \<open>load\<close>: the events read, the greatest Seq, the offset after the last good record.\<close>

function scan ::
  "(string \<Rightarrow> DebitEvent option) \<Rightarrow> string \<Rightarrow> DebitEvent list \<times> nat \<times> nat \<Rightarrow> DebitEvent list \<times> nat \<times> nat" where
  "scan unmarshal f (evs, maxSeq, off) =
     (case readLine f of
        None \<Rightarrow> (evs, maxSeq, off)
      | Some (line, rest) \<Rightarrow>
          (case unmarshal line of
             None \<Rightarrow> (evs, maxSeq, off)
           | Some ev \<Rightarrow>
               scan unmarshal rest (evs @ [ev], if Seq ev > maxSeq then Seq ev else maxSeq,
                 off + length line)))"
  by pat_completeness auto
termination
  by (relation "measure (\<lambda>(_, f, _). length f)") (auto dest: readLine_length)

declare scan.simps [simp del]

text \<open>\<open>readErr\<close>: opening, stat or reading fails; \<open>truncErr\<close>: truncation fails. \<open>Inl\<close> is the error.\<close>

definition load :: "(string \<Rightarrow> DebitEvent option) \<Rightarrow> bool \<Rightarrow> bool \<Rightarrow> disk
    \<Rightarrow> disk \<times> (unit + DebitEvent list \<times> nat)" where
  "load unmarshal readErr truncErr d =
     (if readErr then (d, Inl ())
      else case d of
        None \<Rightarrow> (None, Inr ([], 0))
      | Some f \<Rightarrow>
          (case scan unmarshal f ([], 0, 0) of
             (evs, maxSeq, goodOffset) \<Rightarrow>
               if goodOffset < length f then
                 (if truncErr then (d, Inl ()) else (Some (take goodOffset f), Inr (evs, maxSeq)))
               else (d, Inr (evs, maxSeq))))"

definition disabledLog :: "debitLog" where
  "disabledLog = \<lparr>dl_path = None, dl_seq = 0, dl_events = [], opened = False\<rparr>"

definition newDebitLog :: "(string \<Rightarrow> DebitEvent option) \<Rightarrow> string \<Rightarrow> bool \<Rightarrow> bool \<Rightarrow> bool \<Rightarrow> disk
    \<Rightarrow> debitLog \<times> disk" where
  "newDebitLog unmarshal path readErr truncErr openErr d =
     (if path = [] then (disabledLog, d)
      else case load unmarshal readErr truncErr d of
        (d, Inl _) \<Rightarrow> (disabledLog, d)
      | (d, Inr (evs, maxSeq)) \<Rightarrow>
          if openErr
          then (\<lparr>dl_path = None, dl_seq = maxSeq, dl_events = evs, opened = False\<rparr>, d)
          else (\<lparr>dl_path = Some path, dl_seq = maxSeq, dl_events = evs, opened = True\<rparr>,
                Some (case d of None \<Rightarrow> [] | Some f \<Rightarrow> f)))"

definition enabled :: "debitLog \<Rightarrow> bool" where
  "enabled dl = opened dl"

definition write_bytes :: "disk \<Rightarrow> string \<Rightarrow> disk" where
  "write_bytes d bs = (case d of None \<Rightarrow> Some bs | Some f \<Rightarrow> Some (f @ bs))"

definition Append :: "(DebitEvent \<Rightarrow> string option) \<Rightarrow> write_result \<Rightarrow> bool \<Rightarrow> debitLog \<Rightarrow> disk \<Rightarrow> DebitEvent
    \<Rightarrow> (debitLog \<times> disk) \<times> (DebitEvent \<times> log_error option)" where
  "Append marshal wr syncOK dl d ev =
     (if \<not> opened dl then ((dl, d), ev, None)
      else
        let ev = ev\<lparr>Seq := dl_seq dl + 1\<rparr> in
        case marshal ev of
          None \<Rightarrow> ((dl, d), ev, Some ErrMarshal)
        | Some line \<Rightarrow>
            (case wr of
               WriteFailed n \<Rightarrow> ((dl, write_bytes d (take n (line @ [newline]))), ev, Some ErrWrite)
             | WriteOK \<Rightarrow>
                 if \<not> syncOK then ((dl, write_bytes d (line @ [newline])), ev, Some ErrSync)
                 else ((dl\<lparr>dl_seq := Seq ev, dl_events := dl_events dl @ [ev]\<rparr>,
                        write_bytes d (line @ [newline])), ev, None)))"

definition SinceWithHead :: "debitLog \<Rightarrow> nat \<Rightarrow> DebitEvent list \<times> nat" where
  "SinceWithHead dl cursor = (filter (\<lambda>ev. Seq ev > cursor) (dl_events dl), dl_seq dl)"

definition Since :: "debitLog \<Rightarrow> nat \<Rightarrow> DebitEvent list" where
  "Since dl cursor = fst (SinceWithHead dl cursor)"

definition highWater :: "debitLog \<Rightarrow> nat" where
  "highWater dl = dl_seq dl"

definition close :: "debitLog \<Rightarrow> debitLog" where
  "close dl = (if opened dl then dl\<lparr>opened := False\<rparr> else dl)"

subsection \<open>Reading back what was written\<close>

definition codec_ok :: "(DebitEvent \<Rightarrow> string option) \<Rightarrow> (string \<Rightarrow> DebitEvent option) \<Rightarrow> bool" where
  "codec_ok marshal unmarshal \<longleftrightarrow> (\<forall>ev. case marshal ev of None \<Rightarrow> True
     | Some line \<Rightarrow> newline \<notin> set line \<and> unmarshal (line @ [newline]) = Some ev)"

lemma readLine_line: "newline \<notin> set line \<Longrightarrow> readLine (line @ newline # rest) = Some (line @ [newline], rest)"
  by (induction line) auto

lemma readLine_torn: "newline \<notin> set torn \<Longrightarrow> readLine torn = None"
  by (induction torn) auto

text \<open>The bytes of a list of events, and the greatest Seq of one.\<close>

fun encode :: "(DebitEvent \<Rightarrow> string option) \<Rightarrow> DebitEvent list \<Rightarrow> string" where
  "encode marshal [] = []"
| "encode marshal (ev # evs) =
     (case marshal ev of None \<Rightarrow> [] | Some line \<Rightarrow> line @ [newline]) @ encode marshal evs"

definition encodable :: "(DebitEvent \<Rightarrow> string option) \<Rightarrow> DebitEvent list \<Rightarrow> bool" where
  "encodable marshal evs \<longleftrightarrow> list_all (\<lambda>ev. marshal ev \<noteq> None) evs"

lemma encode_append [simp]: "encode marshal (xs @ ys) = encode marshal xs @ encode marshal ys"
  by (induction xs) auto

lemma encodable_simps [simp]:
  "encodable marshal []" "encodable marshal (x # xs) \<longleftrightarrow> marshal x \<noteq> None \<and> encodable marshal xs"
  "encodable marshal (xs @ ys) \<longleftrightarrow> encodable marshal xs \<and> encodable marshal ys"
  by (simp_all add: encodable_def)

lemma greater_max: "(if n > m then n else m) = max m (n::nat)"
  by simp

lemma scan_encode:
  assumes "codec_ok marshal unmarshal" "encodable marshal evs"
  shows "scan unmarshal (encode marshal evs @ tail) (acc, m, off) =
    scan unmarshal tail (acc @ evs, foldl (\<lambda>m ev. max m (Seq ev)) m evs, off + length (encode marshal evs))"
  using assms(2)
proof (induction evs arbitrary: acc m off)
  case (Cons ev evs)
  then obtain line where l: "marshal ev = Some line" by auto
  with assms(1) have "newline \<notin> set line" "unmarshal (line @ [newline]) = Some ev"
    by (auto simp: codec_ok_def dest: spec [of _ ev])
  with Cons l show ?case
    by (subst scan.simps) (simp add: readLine_line greater_max add.assoc)
qed simp

lemma scan_torn: "newline \<notin> set torn \<Longrightarrow> scan unmarshal torn acc = acc"
  by (cases acc) (simp add: scan.simps readLine_torn)

lemma load_encode:
  assumes "codec_ok marshal unmarshal" "encodable marshal evs" "newline \<notin> set torn"
  shows "load unmarshal False False (Some (encode marshal evs @ torn)) =
    (Some (encode marshal evs), Inr (evs, foldl (\<lambda>m ev. max m (Seq ev)) 0 evs))"
  by (simp add: load_def scan_encode [OF assms(1,2)] scan_torn [OF assms(3)])

subsection \<open>The log's invariant\<close>

text \<open>Sequence numbers count up from 1 without a gap, and the file holds exactly the memory.\<close>

definition log_ok :: "(DebitEvent \<Rightarrow> string option) \<Rightarrow> debitLog \<Rightarrow> disk \<Rightarrow> bool" where
  "log_ok marshal dl d \<longleftrightarrow> opened dl \<and> d = Some (encode marshal (dl_events dl))
     \<and> encodable marshal (dl_events dl) \<and> map Seq (dl_events dl) = [1..<Suc (length (dl_events dl))]
     \<and> dl_seq dl = length (dl_events dl)"

lemma max_seq_upto:
  "map Seq evs = [Suc m..<Suc m + length evs] \<Longrightarrow> foldl (\<lambda>m ev. max m (Seq ev)) m evs = m + length evs"
proof (induction evs arbitrary: m)
  case (Cons ev evs)
  then have "Seq ev = Suc m" "map Seq evs = [Suc (Suc m)..<Suc (Suc m) + length evs]"
    by (auto simp: upt_conv_Cons simp del: upt_Suc)
  with Cons.IH [of "Suc m"] show ?case by (simp add: max_def)
qed simp

lemma Append_good:
  assumes "log_ok marshal dl d" "marshal (ev\<lparr>Seq := dl_seq dl + 1\<rparr>) \<noteq> None"
  shows "case Append marshal WriteOK True dl d ev of ((dl', d'), ev', err) \<Rightarrow>
    err = None \<and> ev' = ev\<lparr>Seq := highWater dl + 1\<rparr> \<and> dl_events dl' = dl_events dl @ [ev']
    \<and> highWater dl' = highWater dl + 1 \<and> log_ok marshal dl' d'"
  using assms by (auto simp: Append_def log_ok_def Let_def highWater_def write_bytes_def)

text \<open>One run: events appended to a fresh log with a working disk.\<close>

fun append_all :: "(DebitEvent \<Rightarrow> string option) \<Rightarrow> debitLog \<times> disk \<Rightarrow> DebitEvent list \<Rightarrow> debitLog \<times> disk" where
  "append_all marshal s [] = s"
| "append_all marshal (dl, d) (ev # evs) =
     append_all marshal (fst (Append marshal WriteOK True dl d ev)) evs"

lemma append_all_ok:
  assumes "\<And>ev. marshal ev \<noteq> None" "log_ok marshal dl d"
  shows "case append_all marshal (dl, d) evs of (dl', d') \<Rightarrow> log_ok marshal dl' d'
    \<and> (\<exists>new. dl_events dl' = dl_events dl @ new \<and> map (\<lambda>e. e\<lparr>Seq := 0\<rparr>) new = map (\<lambda>e. e\<lparr>Seq := 0\<rparr>) evs)"
  using assms(2)
proof (induction evs arbitrary: dl d)
  case (Cons ev evs)
  obtain dl' d' ev' err where a: "Append marshal WriteOK True dl d ev = ((dl', d'), ev', err)"
    by (metis prod.exhaust)
  from Append_good [OF Cons.prems assms(1), of ev] a
  have ok: "log_ok marshal dl' d'" and e: "dl_events dl' = dl_events dl @ [ev\<lparr>Seq := highWater dl + 1\<rparr>]"
    by auto
  from Cons.IH [OF ok] obtain new where
    "case append_all marshal (dl', d') evs of (dl'', d'') \<Rightarrow> log_ok marshal dl'' d''
       \<and> dl_events dl'' = dl_events dl' @ new"
    "map (\<lambda>e. e\<lparr>Seq := 0\<rparr>) new = map (\<lambda>e. e\<lparr>Seq := 0\<rparr>) evs"
    by (auto simp: case_prod_unfold)
  then show ?case
    by (auto simp: a e case_prod_unfold intro!: exI [of _ "ev\<lparr>Seq := highWater dl + 1\<rparr> # new"])
qed simp


subsection \<open>A concrete codec\<close>

text \<open>
  An event as a list of numbers, a number as a run of the digit 1 closed by a comma: a codec that
  satisfies \<open>codec_ok\<close>, on which the facts about the log can be evaluated.
\<close>

definition nats_of_int :: "int \<Rightarrow> nat list" where
  "nats_of_int x = [if x < 0 then 1 else 0, nat \<bar>x\<bar>]"

definition nats_of_string :: "string \<Rightarrow> nat list" where
  "nats_of_string s = length s # map of_char s"

definition nats_of_event :: "DebitEvent \<Rightarrow> nat list" where
  "nats_of_event ev = nats_of_string (RequestID ev) @ Seq ev # nats_of_int (Ts ev)
     @ nats_of_string (ev_KeyFingerprint ev) @ nats_of_string (ClientLabel ev) @ nats_of_string (ev_Model ev)
     @ nats_of_int (ev_InputTokens ev) @ nats_of_int (ev_OutputTokens ev)
     @ nats_of_string (ev_Node ev) @ nats_of_string (Country ev)"

fun take_int :: "nat list \<Rightarrow> (int \<times> nat list) option" where
  "take_int (s # n # xs) = Some (if s = 1 then - int n else int n, xs)"
| "take_int _ = None"

fun take_string :: "nat list \<Rightarrow> (string \<times> nat list) option" where
  "take_string [] = None"
| "take_string (n # xs) = (if n \<le> length xs then Some (map char_of (take n xs), drop n xs) else None)"

fun take_nat :: "nat list \<Rightarrow> (nat \<times> nat list) option" where
  "take_nat [] = None"
| "take_nat (n # xs) = Some (n, xs)"

definition event_of_nats :: "nat list \<Rightarrow> DebitEvent option" where
  "event_of_nats xs =
     Option.bind (take_string xs) (\<lambda>(r, xs). Option.bind (take_nat xs) (\<lambda>(q, xs).
     Option.bind (take_int xs) (\<lambda>(t, xs). Option.bind (take_string xs) (\<lambda>(k, xs).
     Option.bind (take_string xs) (\<lambda>(l, xs). Option.bind (take_string xs) (\<lambda>(m, xs).
     Option.bind (take_int xs) (\<lambda>(i, xs). Option.bind (take_int xs) (\<lambda>(out, xs).
     Option.bind (take_string xs) (\<lambda>(n, xs). Option.bind (take_string xs) (\<lambda>(c, xs).
       if xs = [] then
         Some \<lparr>RequestID = r, Seq = q, Ts = t, ev_KeyFingerprint = k, ClientLabel = l, ev_Model = m,
               ev_InputTokens = i, ev_OutputTokens = out, ev_Node = n, Country = c\<rparr>
       else None))))))))))"

fun unary :: "nat list \<Rightarrow> string" where
  "unary [] = []"
| "unary (n # ns) = replicate n (CHR ''1'') @ CHR '','' # unary ns"

text \<open>\<open>k\<close> is the run of digits being read.\<close>

fun ununary :: "nat \<Rightarrow> string \<Rightarrow> nat list option" where
  "ununary k [] = None"
| "ununary k (c # cs) =
     (if c = CHR ''1'' then ununary (Suc k) cs
      else if c = CHR '','' then map_option (Cons k) (ununary 0 cs)
      else if c = newline \<and> cs = [] \<and> k = 0 then Some []
      else None)"

definition line_marshal :: "DebitEvent \<Rightarrow> string option" where
  "line_marshal ev = Some (unary (nats_of_event ev))"

definition line_unmarshal :: "string \<Rightarrow> DebitEvent option" where
  "line_unmarshal s = Option.bind (ununary 0 s) event_of_nats"

lemma take_of [simp]:
  "take_int (nats_of_int x @ xs) = Some (x, xs)"
  "take_string (nats_of_string s @ xs) = Some (s, xs)"
  by (auto simp: nats_of_int_def nats_of_string_def comp_def)

lemma take_string_last [simp]: "take_string (nats_of_string s) = Some (s, [])"
  using take_of(2) [of s "[]"] by simp

lemma event_of_nats_of_event: "event_of_nats (nats_of_event ev) = Some ev"
  by (simp add: event_of_nats_def nats_of_event_def)

lemma ununary_digits: "ununary k (replicate n (CHR ''1'') @ s) = ununary (k + n) s"
  by (induction n arbitrary: k) auto

lemma ununary_unary: "ununary 0 (unary ns @ [newline]) = Some ns"
  by (induction ns) (simp_all add: newline_def ununary_digits)

lemma unary_no_newline: "newline \<notin> set (unary ns)"
  by (induction ns) (auto simp: newline_def)

lemma line_codec: "codec_ok line_marshal line_unmarshal"
  by (simp add: codec_ok_def line_marshal_def line_unmarshal_def unary_no_newline ununary_unary
      event_of_nats_of_event)

lemma line_marshal_total: "\<forall>ev. line_marshal ev \<noteq> None"
  by (simp add: line_marshal_def)

definition sample_event :: DebitEvent where
  "sample_event = \<lparr>RequestID = ''r1'', Seq = 0, Ts = 5, ev_KeyFingerprint = ''k'', ClientLabel = [],
     ev_Model = ''m'', ev_InputTokens = 2, ev_OutputTokens = 3, ev_Node = ''n'', Country = []\<rparr>"


subsection \<open>Pulling\<close>

text \<open>
  A pull never skips an event: the events returned for a cursor, with the head captured in the
  same critical section, cover every number above the cursor up to that head, each exactly once and
  in order; so a puller that moves its cursor to the head and pulls again, however many events were
  appended in between, has received every event of the log.
\<close>

theorem pull_complete:
  assumes "log_ok marshal dl d" "cursor \<le> highWater dl" "\<forall>ev. marshal ev \<noteq> None"
  shows "let (evs, head) = SinceWithHead dl cursor;
             (dl', d') = append_all marshal (dl, d) later;
             (evs', head') = SinceWithHead dl' head in
     map Seq evs = [cursor + 1..<head + 1] \<and> map Seq evs' = [head + 1..<head' + 1]
   \<and> Since dl' cursor = evs @ evs' \<and> head' = head + length later"
proof -
  obtain dl' d' where run: "append_all marshal (dl, d) later = (dl', d')" by fastforce
  obtain new where ok': "log_ok marshal dl' d'" and new: "dl_events dl' = dl_events dl @ new"
    and m: "map (\<lambda>e. e\<lparr>Seq := 0\<rparr>) new = map (\<lambda>e. e\<lparr>Seq := 0\<rparr>) later"
    using append_all_ok [OF _ assms(1), of later] assms(3) by (auto simp: run)
  have len: "length new = length later" using arg_cong [OF m, of length] by simp
  have since: "map Seq (filter (\<lambda>ev. c < Seq ev) (dl_events x)) = [c + 1..<dl_seq x + 1]"
    if "log_ok marshal x y" "c \<le> dl_seq x" for x y c
  proof -
    have "map Seq (filter (\<lambda>ev. c < Seq ev) (dl_events x)) = filter (\<lambda>n. c < n) (map Seq (dl_events x))"
      by (simp add: filter_map comp_def)
    also have "map Seq (dl_events x) = [1..<c + 1] @ [c + 1..<dl_seq x + 1]"
      using that upt_add_eq_append [of 1 "c + 1" "dl_seq x - c"] by (simp add: log_ok_def)
    finally show ?thesis by (simp add: filter_empty_conv filter_id_conv del: upt_Suc)
  qed
  have head: "dl_seq dl' = dl_seq dl + length later" using assms(1) ok' new len by (simp add: log_ok_def)
  have "map Seq (dl_events dl) @ map Seq new = [1..<dl_seq dl + 1] @ [dl_seq dl + 1..<dl_seq dl' + 1]"
    using ok' assms(1) new len upt_add_eq_append [of 1 "dl_seq dl + 1" "length later"] by (simp add: log_ok_def)
  then have "map Seq new = [dl_seq dl + 1..<dl_seq dl' + 1]"
    using assms(1) by (simp add: log_ok_def)
  then have seqs: "Seq ` set new = {dl_seq dl + 1..<dl_seq dl' + 1}"
    by (metis set_map set_upt)
  have old: "Seq ev \<le> dl_seq dl" if "ev \<in> set (dl_events dl)" for ev
  proof -
    have "Seq ev \<in> set (map Seq (dl_events dl))" using that by simp
    then show ?thesis using assms(1) unfolding log_ok_def by auto
  qed
  have young: "dl_seq dl < Seq ev" if "ev \<in> set new" for ev
    using that seqs by (metis Suc_eq_plus1 Suc_le_eq atLeastLessThan_iff image_eqI)
  have "filter (\<lambda>ev. dl_seq dl < Seq ev) (dl_events dl') = new"
    using old young by (simp add: new filter_id_conv) (simp add: filter_empty_conv not_less)
  moreover have "filter (\<lambda>ev. cursor < Seq ev) new = new"
    using young assms(2) by (auto simp: filter_id_conv highWater_def intro: le_less_trans)
  then have "filter (\<lambda>ev. cursor < Seq ev) (dl_events dl') = filter (\<lambda>ev. cursor < Seq ev) (dl_events dl) @ new"
    by (simp add: new)
  ultimately show ?thesis
    using since [OF assms(1), of cursor] since [OF ok', of "dl_seq dl"] assms(2) head
    by (simp add: run SinceWithHead_def Since_def highWater_def)
qed

theorem pull_complete_witness:
  "let s = append_all line_marshal (newDebitLog line_unmarshal ''/log'' False False False None) [sample_event, sample_event];
       (evs, head) = SinceWithHead (fst s) 1;
       (dl', d') = append_all line_marshal (fst s, snd s) [sample_event];
       (evs', head') = SinceWithHead dl' head in
     map Seq evs = [1 + 1..<head + 1] \<and> map Seq evs' = [head + 1..<head' + 1]
   \<and> Since dl' 1 = evs @ evs' \<and> head' = head + length [sample_event]"
proof -
  let ?new = "newDebitLog line_unmarshal ''/log'' False False False None"
  let ?s = "append_all line_marshal ?new [sample_event, sample_event]"
  have "log_ok line_marshal (fst ?new) (snd ?new)"
    by (simp add: newDebitLog_def load_def log_ok_def)
  from append_all_ok [OF _ this, of "[sample_event, sample_event]"]
  have ok: "log_ok line_marshal (fst ?s) (snd ?s)"
    by (simp add: case_prod_unfold line_marshal_def)
  have "1 \<le> highWater (fst ?s)"
    by (simp add: newDebitLog_def load_def Append_def line_marshal_def Let_def highWater_def)
  from pull_complete [OF ok this line_marshal_total, of "[sample_event]"]
  show ?thesis by (simp only: Let_def)
qed

subsection \<open>After a failed write\<close>

text \<open>
  A log that goes on after a failed write is not gap-free any more. When the fsync of an event
  fails after its line was written, the next event takes the same number, and after a restart the
  log holds two events with that number. When a write stops inside the line, the next acknowledged
  event is merged into the torn line: if the merged line does not decode, a restart loses that event
  and its number is given out a second time.
\<close>

theorem Append_after_failure:
  assumes "codec_ok marshal unmarshal" "log_ok marshal dl d" "path \<noteq> []"
    and "marshal (ev1\<lparr>Seq := dl_seq dl + 1\<rparr>) = Some line1" "marshal (ev2\<lparr>Seq := dl_seq dl + 1\<rparr>) = Some line2"
    and "k \<le> length line1" "unmarshal (take k line1 @ line2 @ [newline]) = None"
  shows "(let ((dl1, d1), _, err1) = Append marshal WriteOK False dl d ev1;
             ((dl2, d2), _, err2) = Append marshal WriteOK True dl1 d1 ev2;
             restarted = fst (newDebitLog unmarshal path False False False d2) in
      err1 = Some ErrSync \<and> err2 = None \<and> highWater dl2 = highWater dl + 1
    \<and> map Seq (Since restarted (highWater dl)) = [highWater dl + 1, highWater dl + 1])
    \<and> (let ((dl1, d1), _, err1) = Append marshal (WriteFailed k) True dl d ev1;
             ((dl2, d2), ev, err2) = Append marshal WriteOK True dl1 d1 ev2;
             restarted = fst (newDebitLog unmarshal path False False False d2) in
      err1 = Some ErrWrite \<and> err2 = None \<and> Since dl2 (highWater dl) = [ev]
    \<and> Since restarted (highWater dl) = [] \<and> highWater restarted + 1 = Seq ev)"
proof -
  have old: "Seq ev \<le> dl_seq dl" if "ev \<in> set (dl_events dl)" for ev
  proof -
    have "Seq ev \<in> set (map Seq (dl_events dl))" using that by simp
    then show ?thesis using assms(2) unfolding log_ok_def by auto
  qed
  then have none: "filter (\<lambda>ev. dl_seq dl < Seq ev) (dl_events dl) = []"
    by (force simp: filter_empty_conv)
  have max: "foldl (\<lambda>m ev. max m (Seq ev)) 0 (dl_events dl) = dl_seq dl"
    using max_seq_upto [of "dl_events dl" 0] assms(2) by (simp add: log_ok_def)
  have enc: "encodable marshal (dl_events dl)" "opened dl" "d = Some (encode marshal (dl_events dl))"
    using assms(2) by (auto simp: log_ok_def)
  let ?e1 = "ev1\<lparr>Seq := dl_seq dl + 1\<rparr>" and ?e2 = "ev2\<lparr>Seq := dl_seq dl + 1\<rparr>"
  have "newDebitLog unmarshal path False False False
      (Some (encode marshal (dl_events dl @ [?e1, ?e2]))) =
      (\<lparr>dl_path = Some path, dl_seq = dl_seq dl + 1, dl_events = dl_events dl @ [?e1, ?e2], opened = True\<rparr>,
       Some (encode marshal (dl_events dl @ [?e1, ?e2])))"
    using load_encode [OF assms(1), of "dl_events dl @ [?e1, ?e2]" "[]"] enc(1) assms(3-5)
    by (simp add: newDebitLog_def max)
  then have A: "let ((dl1, d1), _, err1) = Append marshal WriteOK False dl d ev1;
             ((dl2, d2), _, err2) = Append marshal WriteOK True dl1 d1 ev2;
             restarted = fst (newDebitLog unmarshal path False False False d2) in
      err1 = Some ErrSync \<and> err2 = None \<and> highWater dl2 = highWater dl + 1
    \<and> map Seq (Since restarted (highWater dl)) = [highWater dl + 1, highWater dl + 1]"
    using assms(4,5) enc none
    by (simp add: Append_def Let_def write_bytes_def Since_def SinceWithHead_def highWater_def)
  have n: "newline \<notin> set line1" "newline \<notin> set line2"
    using assms(1,4,5) unfolding codec_ok_def
    by (auto dest: spec [of _ ?e1] spec [of _ ?e2])
  then have "newline \<notin> set (take k line1 @ line2)" by (auto dest: in_set_takeD)
  from readLine_line [OF this, of "[]"]
  have "load unmarshal False False (Some (encode marshal (dl_events dl) @ take k line1 @ line2 @ [newline]))
      = (Some (encode marshal (dl_events dl)), Inr (dl_events dl, dl_seq dl))"
    using assms(7) by (simp add: load_def scan_encode [OF assms(1) enc(1)] max) (simp add: scan.simps)
  then have B: "let ((dl1, d1), _, err1) = Append marshal (WriteFailed k) True dl d ev1;
             ((dl2, d2), ev, err2) = Append marshal WriteOK True dl1 d1 ev2;
             restarted = fst (newDebitLog unmarshal path False False False d2) in
      err1 = Some ErrWrite \<and> err2 = None \<and> Since dl2 (highWater dl) = [ev]
    \<and> Since restarted (highWater dl) = [] \<and> highWater restarted + 1 = Seq ev"
    using assms(3-6) enc none
    by (simp add: Append_def Let_def write_bytes_def Since_def SinceWithHead_def highWater_def
        newDebitLog_def)
  from A B show ?thesis by (rule conjI)
qed

theorem Append_after_failure_witness:
  "let (dl, d) = newDebitLog line_unmarshal ''/log'' False False False None;
       ((dl1, d1), _, err1) = Append line_marshal (WriteFailed 4) True dl d sample_event;
       ((dl2, d2), ev, err2) = Append line_marshal WriteOK True dl1 d1 sample_event;
       restarted = fst (newDebitLog line_unmarshal ''/log'' False False False d2) in
     err1 = Some ErrWrite \<and> err2 = None \<and> Since dl2 (highWater dl) = [ev]
   \<and> Since restarted (highWater dl) = [] \<and> highWater restarted + 1 = Seq ev"
proof -
  let ?new = "newDebitLog line_unmarshal ''/log'' False False False None"
  let ?line = "unary (nats_of_event (sample_event\<lparr>Seq := 1\<rparr>))"
  have ok: "log_ok line_marshal (fst ?new) (snd ?new)" and "dl_seq (fst ?new) = 0"
    by (simp_all add: newDebitLog_def load_def log_ok_def)
  moreover have "4 \<le> length ?line" "line_unmarshal (take 4 ?line @ ?line @ [newline]) = None"
    by code_simp+
  ultimately show ?thesis
    using Append_after_failure [OF line_codec ok, of "''/log''" sample_event ?line sample_event ?line 4]
    by (simp add: line_marshal_def case_prod_unfold Let_def)
qed

end
