(* ===== verification/Debit_Emitter.thy ===== *)
theory Debit_Emitter
  imports Debit_Log
begin

section \<open>The off-path writer of the debit log (proxy/debit_emitter.go)\<close>

text \<open>
  \<open>Emit\<close> pushes onto a buffered channel or drops; one writer goroutine receives events and appends
  them to the sink. The channel is a list of at most \<open>bufSize\<close> events, and the writer's two
  actions - receive, append - are separate steps, so that every interleaving with \<open>Emit\<close> and
  \<open>Close\<close> is a list of steps. The sink is any implementation of \<open>debitAppender\<close>: the locale
  \<open>debit_sink\<close>, interpreted on the debit log.
\<close>

subsection \<open>The emitter\<close>

text \<open>\<open>in_hand\<close> is the event the writer has received and not yet appended.\<close>

record debitEmitter =
  ch :: "DebitEvent list"
  bufSize :: nat
  in_hand :: "DebitEvent option"
  em_dropped :: int
  em_appended :: int
  em_failed :: int
  em_closed :: bool

definition newDebitEmitter :: "int \<Rightarrow> debitEmitter" where
  "newDebitEmitter depth = \<lparr>ch = [], bufSize = nat (if depth \<le> 0 then 1024 else depth), in_hand = None,
     em_dropped = 0, em_appended = 0, em_failed = 0, em_closed = False\<rparr>"

definition Emit :: "debitEmitter \<Rightarrow> DebitEvent \<Rightarrow> debitEmitter" where
  "Emit e ev =
     (if em_closed e then e
      else if length (ch e) < bufSize e then e\<lparr>ch := ch e @ [ev]\<rparr>
      else e\<lparr>em_dropped := em_dropped e + 1\<rparr>)"

text \<open>The writer's loop: a receive, then an append whose result is counted.\<close>

definition run_receive :: "debitEmitter \<Rightarrow> debitEmitter" where
  "run_receive e =
     (case (in_hand e, ch e) of
        (None, ev # evs) \<Rightarrow> e\<lparr>ch := evs, in_hand := Some ev\<rparr>
      | _ \<Rightarrow> e)"

definition run_append ::
  "('s \<Rightarrow> DebitEvent \<Rightarrow> 's \<times> bool) \<Rightarrow> debitEmitter \<times> 's \<Rightarrow> debitEmitter \<times> 's" where
  "run_append app s =
     (case s of (e, sink) \<Rightarrow>
        (case in_hand e of
           None \<Rightarrow> (e, sink)
         | Some ev \<Rightarrow>
             (case app sink ev of (sink', ok) \<Rightarrow>
                if ok then (e\<lparr>in_hand := None, em_appended := em_appended e + 1\<rparr>, sink')
                else (e\<lparr>in_hand := None, em_failed := em_failed e + 1\<rparr>, sink'))))"

text \<open>\<open>Close\<close> marks the channel closed and then waits until the writer has nothing left.\<close>

definition Close_mark :: "debitEmitter \<Rightarrow> debitEmitter" where
  "Close_mark e = (if em_closed e then e else e\<lparr>em_closed := True\<rparr>)"

definition writer_done :: "debitEmitter \<Rightarrow> bool" where
  "writer_done e \<longleftrightarrow> em_closed e \<and> ch e = [] \<and> in_hand e = None"

definition droppedCount :: "debitEmitter \<Rightarrow> int" where
  "droppedCount e = em_dropped e"

definition appendedCount :: "debitEmitter \<Rightarrow> int" where
  "appendedCount e = em_appended e"

definition failedCount :: "debitEmitter \<Rightarrow> int" where
  "failedCount e = em_failed e"

datatype em_op = EEmit DebitEvent | EReceive | EAppend | EClose

fun em_do :: "('s \<Rightarrow> DebitEvent \<Rightarrow> 's \<times> bool) \<Rightarrow> debitEmitter \<times> 's \<Rightarrow> em_op \<Rightarrow> debitEmitter \<times> 's" where
  "em_do app (e, s) (EEmit ev) = (Emit e ev, s)"
| "em_do app (e, s) EReceive = (run_receive e, s)"
| "em_do app (e, s) EAppend = run_append app (e, s)"
| "em_do app (e, s) EClose = (Close_mark e, s)"

fun em_run :: "('s \<Rightarrow> DebitEvent \<Rightarrow> 's \<times> bool) \<Rightarrow> debitEmitter \<times> 's \<Rightarrow> em_op list \<Rightarrow> debitEmitter \<times> 's" where
  "em_run app s [] = s"
| "em_run app s (x # xs) = em_run app (em_do app s x) xs"

text \<open>The events a run accepts into the buffer, and the number it has to drop.\<close>

fun accepted :: "('s \<Rightarrow> DebitEvent \<Rightarrow> 's \<times> bool) \<Rightarrow> debitEmitter \<times> 's \<Rightarrow> em_op list \<Rightarrow> DebitEvent list" where
  "accepted app s [] = []"
| "accepted app s (x # xs) =
     (case x of
        EEmit ev \<Rightarrow> if \<not> em_closed (fst s) \<and> length (ch (fst s)) < bufSize (fst s) then [ev] else []
      | _ \<Rightarrow> []) @ accepted app (em_do app s x) xs"

fun overflows :: "('s \<Rightarrow> DebitEvent \<Rightarrow> 's \<times> bool) \<Rightarrow> debitEmitter \<times> 's \<Rightarrow> em_op list \<Rightarrow> int" where
  "overflows app s [] = 0"
| "overflows app s (x # xs) =
     (case x of
        EEmit ev \<Rightarrow> if \<not> em_closed (fst s) \<and> \<not> length (ch (fst s)) < bufSize (fst s) then 1 else 0
      | _ \<Rightarrow> 0) + overflows app (em_do app s x) xs"

lemma em_run_append: "em_run app s (xs @ ys) = em_run app (em_run app s xs) ys"
  by (induction xs arbitrary: s) auto

lemma accepted_append:
  "accepted app s (xs @ ys) = accepted app s xs @ accepted app (em_run app s xs) ys"
  by (induction xs arbitrary: s) auto

subsection \<open>The sink\<close>

text \<open>
  The contract of \<open>debitAppender\<close>: the sink holds a list of events; a successful append adds the
  event (the sink owns its number) at the end, a failed one adds nothing.
\<close>

definition payload :: "DebitEvent \<Rightarrow> DebitEvent" where
  "payload ev = ev\<lparr>Seq := 0\<rparr>"

locale debit_sink =
  fixes sink_append :: "'s \<Rightarrow> DebitEvent \<Rightarrow> 's \<times> bool"
    and stored :: "'s \<Rightarrow> DebitEvent list"
    and sink_ok :: "'s \<Rightarrow> bool"
  assumes append_stores: "sink_ok s \<Longrightarrow> snd (sink_append s ev) \<Longrightarrow>
      map payload (stored (fst (sink_append s ev))) = map payload (stored s) @ [payload ev]"
    and append_fails: "sink_ok s \<Longrightarrow> \<not> snd (sink_append s ev) \<Longrightarrow> stored (fst (sink_append s ev)) = stored s"
    and append_keeps: "sink_ok s \<Longrightarrow> sink_ok (fst (sink_append s ev))"
begin

definition backlog :: "debitEmitter \<Rightarrow> DebitEvent list" where
  "backlog e = (case in_hand e of None \<Rightarrow> [] | Some ev \<Rightarrow> [ev]) @ ch e"

text \<open>Every accepted event is stored, waiting or counted as failed; every refused one is counted.\<close>

lemma em_do_accounts:
  assumes "sink_ok s"
  shows "case em_do sink_append (e, s) x of (e', s') \<Rightarrow> sink_ok s'
    \<and> em_dropped e' = em_dropped e + overflows sink_append (e, s) [x]
    \<and> int (length (stored s')) - em_appended e' = int (length (stored s)) - em_appended e
    \<and> em_appended e' + em_failed e' + int (length (backlog e'))
        = em_appended e + em_failed e + int (length (backlog e)) + int (length (accepted sink_append (e, s) [x]))
    \<and> em_failed e \<le> em_failed e'
    \<and> (em_failed e' = em_failed e \<longrightarrow>
         map payload (stored s' @ backlog e')
           = map payload (stored s @ backlog e @ accepted sink_append (e, s) [x]))"
proof (cases x)
  case (EEmit ev)
  then show ?thesis using assms by (auto simp: Emit_def backlog_def split: option.splits)
next
  case EReceive
  then show ?thesis using assms by (auto simp: run_receive_def backlog_def split: option.splits list.splits)
next
  case EAppend
  show ?thesis
  proof (cases "in_hand e")
    case None
    then show ?thesis using assms EAppend by (simp add: run_append_def)
  next
    case (Some ev)
    obtain s' ok where a: "sink_append s ev = (s', ok)" by force
    show ?thesis
    proof (cases ok)
      case True
      from append_stores [OF assms, of ev] a True
      have st: "map payload (stored s') = map payload (stored s) @ [payload ev]" by simp
      have "length (stored s') = Suc (length (stored s))" using arg_cong [OF st, of length] by simp
      then show ?thesis
        using append_keeps [OF assms, of ev] a True EAppend Some st
        by (simp add: run_append_def backlog_def)
    next
      case False
      then show ?thesis
        using append_fails [OF assms, of ev] append_keeps [OF assms, of ev] a EAppend Some
        by (simp add: run_append_def backlog_def)
    qed
  qed
next
  case EClose
  then show ?thesis using assms by (auto simp: Close_mark_def backlog_def)
qed

lemma em_run_accounts:
  assumes "sink_ok s"
  shows "case em_run sink_append (e, s) xs of (e', s') \<Rightarrow> sink_ok s'
    \<and> em_dropped e' = em_dropped e + overflows sink_append (e, s) xs
    \<and> int (length (stored s')) - em_appended e' = int (length (stored s)) - em_appended e
    \<and> em_appended e' + em_failed e' + int (length (backlog e'))
        = em_appended e + em_failed e + int (length (backlog e)) + int (length (accepted sink_append (e, s) xs))
    \<and> em_failed e \<le> em_failed e'
    \<and> (em_failed e' = em_failed e \<longrightarrow>
         map payload (stored s' @ backlog e')
           = map payload (stored s @ backlog e @ accepted sink_append (e, s) xs))"
  using assms
proof (induction xs arbitrary: e s)
  case (Cons x xs)
  obtain e1 s1 where 1: "em_do sink_append (e, s) x = (e1, s1)" by force
  obtain e2 s2 where 2: "em_run sink_append (e1, s1) xs = (e2, s2)" by force
  note step = em_do_accounts [OF Cons.prems, of e x, unfolded 1 split]
  then have "sink_ok s1" by blast
  note rest = Cons.IH [OF this, of e1, unfolded 2 split]
  have acc: "accepted sink_append (e, s) (x # xs) = accepted sink_append (e, s) [x] @ accepted sink_append (e1, s1) xs"
    and ov: "overflows sink_append (e, s) (x # xs) = overflows sink_append (e, s) [x] + overflows sink_append (e1, s1) xs"
    by (simp_all add: 1)
  have run: "em_run sink_append (e, s) (x # xs) = (e2, s2)" by (simp add: 1 2)
  show ?case
    unfolding run split acc ov using step rest
    by (auto simp del: accepted.simps overflows.simps)
qed simp

end

text \<open>
  The debit log is such a sink: with a total codec, whatever the outcomes of its writes. The
  outcomes still to come are part of the sink's state.
\<close>

type_synonym log_state = "(debitLog \<times> disk) \<times> (write_result \<times> bool) list"

definition log_append ::
  "(DebitEvent \<Rightarrow> string option) \<Rightarrow> log_state \<Rightarrow> DebitEvent \<Rightarrow> log_state \<times> bool" where
  "log_append marshal st ev =
     (case st of ((dl, d), outcomes) \<Rightarrow>
        let (wr, ok) = (case outcomes of [] \<Rightarrow> (WriteOK, True) | out # _ \<Rightarrow> out)
        in case Append marshal wr ok dl d ev of (s', _, err) \<Rightarrow> ((s', tl outcomes), err = None))"

lemma Append_outcome:
  assumes "opened dl"
  shows "case Append marshal wr ok dl d ev of ((dl', d'), _, err) \<Rightarrow> opened dl'
    \<and> (if err = None then map payload (dl_events dl') = map payload (dl_events dl) @ [payload ev]
       else dl_events dl' = dl_events dl)"
  using assms by (auto simp: Append_def Let_def payload_def split: option.splits write_result.splits)

interpretation log_sink: debit_sink "log_append marshal" "\<lambda>st. dl_events (fst (fst st))" "\<lambda>st. opened (fst (fst st))"
  for marshal
proof
  fix s :: log_state and ev
  assume o: "opened (fst (fst s))"
  obtain dl d outs where s: "s = ((dl, d), outs)" by (metis prod.exhaust)
  obtain wr ok where w: "(case outs of [] \<Rightarrow> (WriteOK, True) | out # _ \<Rightarrow> out) = (wr, ok)" by force
  obtain dl' d' ev' err where a: "Append marshal wr ok dl d ev = ((dl', d'), ev', err)" by (metis prod.exhaust)
  have r: "log_append marshal s ev = (((dl', d'), tl outs), err = None)"
    by (simp add: log_append_def s w a)
  have "opened dl" using o s by simp
  note out = Append_outcome [OF this, where marshal = marshal and wr = wr and ok = ok and d = d and ev = ev, unfolded a split]
  show "opened (fst (fst (fst (log_append marshal s ev))))" using out by (simp add: r)
  show "snd (log_append marshal s ev) \<Longrightarrow>
      map payload (dl_events (fst (fst (fst (log_append marshal s ev))))) =
      map payload (dl_events (fst (fst s))) @ [payload ev]" using out r by (simp add: s split: if_splits)
  show "\<not> snd (log_append marshal s ev) \<Longrightarrow>
      dl_events (fst (fst (fst (log_append marshal s ev)))) = dl_events (fst (fst s))" using out r by (simp add: s split: if_splits)
qed

subsection \<open>Nothing is lost silently\<close>

lemma log_backlog: "log_sink.backlog e = (case in_hand e of None \<Rightarrow> [] | Some ev \<Rightarrow> [ev]) @ ch e"
  by (rule log_sink.backlog_def)



subsection \<open>Closing drains\<close>

lemma writer_pair:
  assumes "in_hand e = None" "ch e = ev # evs"
  shows "\<exists>e' s'. em_run app (e, s) [EReceive, EAppend] = (e', s') \<and> in_hand e' = None
    \<and> ch e' = evs \<and> em_closed e' = em_closed e"
  using assms by (auto simp: run_receive_def run_append_def split: prod.splits)

lemma writer_drains:
  "in_hand e = None \<Longrightarrow> length (ch e) \<le> n \<Longrightarrow>
   case em_run app (e, s) (concat (replicate n [EReceive, EAppend])) of (e', s') \<Rightarrow>
     ch e' = [] \<and> in_hand e' = None \<and> em_closed e' = em_closed e"
proof (induction n arbitrary: e s)
  case (Suc n)
  show ?case
  proof (cases "ch e")
    case Nil
    then have "em_run app (e, s) [EReceive, EAppend] = (e, s)"
      using Suc.prems by (simp add: run_receive_def run_append_def)
    moreover have "length (ch e) \<le> n" using Nil by simp
    ultimately show ?thesis using Suc.IH [OF Suc.prems(1), of s] by simp
  next
    case (Cons ev evs)
    from writer_pair [OF Suc.prems(1) this, of app s] obtain e' s' where
      r: "em_run app (e, s) [EReceive, EAppend] = (e', s')" "in_hand e' = None"
      "ch e' = evs" "em_closed e' = em_closed e" by blast
    have "length (ch e') \<le> n" using Suc.prems(2) Cons r(3) by simp
    from Suc.IH [OF r(2) this, of s'] r(1,4) show ?thesis by simp
  qed
qed simp

text \<open>
  \<open>Close\<close> returns and loses nothing in flight: from any state of the emitter, once \<open>Close\<close> has
  marked the channel closed no further event is accepted, and the writer finishes after at most one
  append and one receive-append pair per buffered event, whatever the sink does.
\<close>

lemma Close_drains:
  "(let (e', s') = em_run app (e, s)
          (EClose # EAppend # concat (replicate (length (ch e)) [EReceive, EAppend])) in writer_done e')
   \<and> Emit (Close_mark e) ev = Close_mark e"
proof -
  obtain e1 s1 where 1: "em_run app (e, s) [EClose, EAppend] = (e1, s1)" by force
  then have "in_hand e1 = None" "ch e1 = ch e" "em_closed e1"
    by (auto simp: Close_mark_def run_append_def split: option.splits prod.splits if_splits)
  with writer_drains [of e1 "length (ch e)" app s1]
  have "case em_run app (e1, s1) (concat (replicate (length (ch e)) [EReceive, EAppend])) of
      (e', s') \<Rightarrow> writer_done e'" by (auto simp: writer_done_def)
  with 1 show ?thesis by (simp add: Emit_def Close_mark_def case_prod_unfold)
qed

subsection \<open>Request ids\<close>

definition hex_digit :: "nat \<Rightarrow> char" where
  "hex_digit n = ''0123456789abcdef'' ! n"

definition hex_byte :: "8 word \<Rightarrow> string" where
  "hex_byte b = [hex_digit (unat b div 16), hex_digit (unat b mod 16)]"

definition hex :: "8 word list \<Rightarrow> string" where
  "hex bs = concat (map hex_byte bs)"

text \<open>\<open>rand.Read\<close> fills the 16 bytes; \<open>None\<close> is its error.\<close>

definition mintRequestID :: "8 word list option \<Rightarrow> string option" where
  "mintRequestID random =
     (case random of None \<Rightarrow> None
      | Some b \<Rightarrow>
          let b = b[6 := or (and (b ! 6) 0x0f) 0x40];
              b = b[8 := or (and (b ! 8) 0x3f) 0x80]
          in Some (hex (take 4 b) @ ''-'' @ hex (take 2 (drop 4 b)) @ ''-'' @ hex (take 2 (drop 6 b)) @ ''-''
                   @ hex (take 2 (drop 8 b)) @ ''-'' @ hex (take 6 (drop 10 b))))"

lemma or_above:
  "list_all (\<lambda>y. or y (64::nat) = y + 64) [0..<16]" "list_all (\<lambda>y. or y (128::nat) = y + 128) [0..<64]"
  by code_simp+

lemma version_byte: "unat (or (and b 0x0f) (0x40 :: 8 word)) = unat b mod 16 + 64"
proof -
  have "and (unat b) 15 = unat b mod 16"
    using take_bit_eq_mask [of 4 "unat b"] by (simp add: mask_eq_exp_minus_1 take_bit_eq_mod)
  then have "unat (or (and b 0x0f) (0x40 :: 8 word)) = or (unat b mod 16) 64"
    by (simp add: unsigned_or_eq unsigned_and_eq)
  also have "\<dots> = unat b mod 16 + 64" using or_above(1) by (simp add: list_all_iff)
  finally show ?thesis .
qed

lemma variant_byte: "unat (or (and b 0x3f) (0x80 :: 8 word)) = unat b mod 64 + 128"
proof -
  have "and (unat b) 63 = unat b mod 64"
    using take_bit_eq_mask [of 6 "unat b"] by (simp add: mask_eq_exp_minus_1 take_bit_eq_mod)
  then have "unat (or (and b 0x3f) (0x80 :: 8 word)) = or (unat b mod 64) 128"
    by (simp add: unsigned_or_eq unsigned_and_eq)
  also have "\<dots> = unat b mod 64 + 128" using or_above(2) by (simp add: list_all_iff)
  finally show ?thesis .
qed

lemma length_hex [simp]: "length (hex bs) = 2 * length bs"
  by (induction bs) (simp_all add: hex_def hex_byte_def)

lemma hex_take_Cons: "hex (b # bs) = hex_digit (unat b div 16) # hex_digit (unat b mod 16) # hex bs"
  by (simp add: hex_def hex_byte_def)

text \<open>
  Request ids are RFC 4122 version 4 identifiers: from any 16 random bytes the minted string
  has 36 characters with dashes in positions 8, 13, 18 and 23, the version digit 4 in position 14
  and the variant digit 8, 9, a or b in position 19; and none is minted when the random source fails.
\<close>

theorem mintRequestID_shape:
  assumes "length random = 16"
  shows "mintRequestID None = None \<and> (\<exists>s. mintRequestID (Some random) = Some s \<and> length s = 36
    \<and> s ! 8 = CHR ''-'' \<and> s ! 13 = CHR ''-'' \<and> s ! 18 = CHR ''-'' \<and> s ! 23 = CHR ''-''
    \<and> s ! 14 = CHR ''4'' \<and> s ! 19 \<in> set ''89ab'')"
proof -
  obtain b0 b1 b2 b3 b4 b5 b6 b7 b8 b9 ba bb bc bd be bf where
    r: "random = [b0, b1, b2, b3, b4, b5, b6, b7, b8, b9, ba, bb, bc, bd, be, bf]"
  proof
    have "random = map ((!) random) [0..<16]" using assms by (metis map_nth)
    also have "\<dots> = [random ! 0, random ! 1, random ! 2, random ! 3, random ! 4, random ! 5,
        random ! 6, random ! 7, random ! 8, random ! 9, random ! 10, random ! 11, random ! 12,
        random ! 13, random ! 14, random ! 15]"
      by (simp add: upt_rec numeral_eq_Suc)
    finally show "random = [random ! 0, random ! 1, random ! 2, random ! 3, random ! 4, random ! 5,
        random ! 6, random ! 7, random ! 8, random ! 9, random ! 10, random ! 11, random ! 12,
        random ! 13, random ! 14, random ! 15]" .
  qed
  have v: "(unat b6 mod 16 + 64) div 16 = 4" by simp
  have "unat b8 mod 64 div 16 < 4" by (rule less_mult_imp_div_less) simp
  moreover have "(unat b8 mod 64 + 128) div 16 = unat b8 mod 64 div 16 + 8"
    using div_mult_self1 [of 16 "unat b8 mod 64" 8] by simp
  ultimately have "(unat b8 mod 64 + 128) div 16 \<in> {8, 9, 10, 11}" by auto
  then have w: "hex_digit ((unat b8 mod 64 + 128) div 16) \<in> set ''89ab''"
    by (auto simp: hex_digit_def)
  show ?thesis
    using w by (simp add: mintRequestID_def r hex_take_Cons hex_def [of "[]"] version_byte variant_byte Let_def)
      (simp add: hex_digit_def)
qed

theorem mintRequestID_shape_witness:
  "mintRequestID None = None \<and> (\<exists>s. mintRequestID (Some (replicate 16 0xff)) = Some s \<and> length s = 36
    \<and> s ! 8 = CHR ''-'' \<and> s ! 13 = CHR ''-'' \<and> s ! 18 = CHR ''-'' \<and> s ! 23 = CHR ''-''
    \<and> s ! 14 = CHR ''4'' \<and> s ! 19 \<in> set ''89ab'')"
  by (rule mintRequestID_shape) simp

end
