(* ===== verification/Rate_Limiter.thy ===== *)
theory Rate_Limiter
  imports Go_Prelude
begin

section \<open>Per-client rate limiting (proxy/rate_limiter.go)\<close>

text \<open>
  A fixed one-minute window per client. Times are nanoseconds; each call of \<open>allow\<close> runs under the
  limiter's mutex, so a run is a list of calls in the order they take it. The overrides and the
  windows are maps; a nil override map reads like an empty one.
\<close>

record rlWindow =
  w_start :: int
  w_count :: int

record rateLimiter =
  perMin :: int
  overrides :: "string \<rightharpoonup> int"
  windows :: "string \<rightharpoonup> rlWindow"

definition Minute :: int where
  "Minute = 60000000000"

definition newRateLimiter :: "int \<Rightarrow> (string \<rightharpoonup> int) \<Rightarrow> rateLimiter" where
  "newRateLimiter pm ov = \<lparr>perMin = pm, overrides = ov, windows = Map.empty\<rparr>"

definition rl_enabled :: "rateLimiter option \<Rightarrow> bool" where
  "rl_enabled rl = (case rl of None \<Rightarrow> False | Some rl \<Rightarrow> perMin rl > 0 \<or> overrides rl \<noteq> Map.empty)"

definition limitFor :: "rateLimiter \<Rightarrow> string \<Rightarrow> int" where
  "limitFor rl client = (case overrides rl client of Some v \<Rightarrow> v | None \<Rightarrow> perMin rl)"

definition allow :: "rateLimiter \<Rightarrow> int \<Rightarrow> string \<Rightarrow> rateLimiter \<times> bool" where
  "allow rl now client =
     (let lim = limitFor rl client in
      if lim \<le> 0 then (rl, True)
      else
        let fresh = (rl\<lparr>windows := (windows rl)(client \<mapsto> \<lparr>w_start = now, w_count = 1\<rparr>)\<rparr>, True) in
        case windows rl client of
          None \<Rightarrow> fresh
        | Some w \<Rightarrow>
            if now - w_start w \<ge> Minute then fresh
            else if w_count w \<ge> lim then (rl, False)
            else (rl\<lparr>windows := (windows rl)(client \<mapsto> w\<lparr>w_count := w_count w + 1\<rparr>)\<rparr>, True))"

fun allow_run :: "rateLimiter \<Rightarrow> (int \<times> string) list \<Rightarrow> bool list" where
  "allow_run rl [] = []"
| "allow_run rl ((now, client) # calls) =
     (case allow rl now client of (rl', ok) \<Rightarrow> ok # allow_run rl' calls)"

text \<open>How many of the calls of a client with a time in an interval were let through.\<close>

fun passed :: "string \<Rightarrow> int \<Rightarrow> int \<Rightarrow> (int \<times> string) list \<Rightarrow> bool list \<Rightarrow> int" where
  "passed client a b ((now, c) # calls) (ok # oks) =
     (if c = client \<and> a \<le> now \<and> now < b \<and> ok then 1 else 0) + passed client a b calls oks"
| "passed client a b _ _ = 0"

lemma allow_other:
  "client \<noteq> c \<Longrightarrow> windows (fst (allow rl now c)) client = windows rl client"
  and allow_config: "limitFor (fst (allow rl now c)) = limitFor rl"
  by (auto simp: allow_def Let_def limitFor_def fun_eq_iff split: option.splits)

text \<open>The three cases of a call of a limited client.\<close>

lemma allow_cases:
  assumes "0 < limitFor rl c"
  obtains (restart) "windows rl c = None \<or> (\<exists>w. windows rl c = Some w \<and> Minute \<le> now - w_start w)"
      "snd (allow rl now c)" "windows (fst (allow rl now c)) c = Some \<lparr>w_start = now, w_count = 1\<rparr>"
    | (denied) w where "windows rl c = Some w" "now - w_start w < Minute" "limitFor rl c \<le> w_count w"
      "\<not> snd (allow rl now c)" "fst (allow rl now c) = rl"
    | (counted) w where "windows rl c = Some w" "now - w_start w < Minute" "w_count w < limitFor rl c"
      "snd (allow rl now c)" "windows (fst (allow rl now c)) c = Some (w\<lparr>w_count := w_count w + 1\<rparr>)"
proof (cases "windows rl c")
  case None
  with assms show ?thesis by (intro restart) (simp_all add: allow_def Let_def)
next
  case (Some w)
  consider "Minute \<le> now - w_start w" | "now - w_start w < Minute" "limitFor rl c \<le> w_count w"
    | "now - w_start w < Minute" "w_count w < limitFor rl c" by linarith
  then show ?thesis
  proof cases
    case 1 with assms Some show ?thesis by (intro restart) (simp_all add: allow_def Let_def)
  next
    case 2 with assms Some show ?thesis by (intro denied) (simp_all add: allow_def Let_def)
  next
    case 3 with assms Some show ?thesis by (intro counted) (simp_all add: allow_def Let_def)
  qed
qed

text \<open>\<open>room\<close>: what the client may still pass before \<open>a + Minute\<close>, by where its window started.\<close>

definition room :: "rateLimiter \<Rightarrow> string \<Rightarrow> int \<Rightarrow> int \<Rightarrow> int" where
  "room rl client a now =
     (if a + Minute \<le> now then 0
      else case windows rl client of
        None \<Rightarrow> 2 * limitFor rl client
      | Some w \<Rightarrow>
          if a \<le> w_start w then limitFor rl client - w_count w
          else if now < a then 2 * limitFor rl client
          else 2 * limitFor rl client - w_count w)"

definition window_ok :: "rateLimiter \<Rightarrow> string \<Rightarrow> int \<Rightarrow> bool" where
  "window_ok rl client now \<longleftrightarrow>
     (case windows rl client of None \<Rightarrow> True
      | Some w \<Rightarrow> w_start w \<le> now \<and> 1 \<le> w_count w \<and> w_count w \<le> limitFor rl client)"

lemma passed_room:
  assumes "0 < limitFor rl client" "window_ok rl client now" "sorted (map fst calls)"
    and "list_all (\<lambda>(t, _). now \<le> t) calls"
  shows "passed client a (a + Minute) calls (allow_run rl calls) \<le> room rl client a now"
  using assms
proof (induction calls arbitrary: rl now)
  case Nil
  then show ?case by (auto simp: room_def window_ok_def Minute_def split: option.splits)
next
  case (Cons call calls)
  obtain t c where call: "call = (t, c)" by force
  let ?rl = "fst (allow rl t c)"
  have t: "now \<le> t" and later: "list_all (\<lambda>(u, _). t \<le> u) calls" and sorted: "sorted (map fst calls)"
    using Cons.prems by (auto simp: call list_all_iff)
  have lim: "limitFor ?rl = limitFor rl" by (rule allow_config)
  have step: "passed client a (a + Minute) (call # calls) (allow_run rl (call # calls)) =
      (if c = client \<and> a \<le> t \<and> t < a + Minute \<and> snd (allow rl t c) then 1 else 0)
      + passed client a (a + Minute) calls (allow_run ?rl calls)"
    by (simp add: call case_prod_unfold)
  have pos: "0 < limitFor ?rl client" using Cons.prems(1) lim by simp
  show ?case
  proof (cases "c = client")
    case False
    then have same: "windows ?rl client = windows rl client" by (intro allow_other) auto
    have "window_ok ?rl client t"
      using Cons.prems(2) t by (auto simp: window_ok_def same lim split: option.splits)
    from Cons.IH [OF pos this sorted later] have "passed client a (a + Minute) calls (allow_run ?rl calls)
        \<le> room ?rl client a t" .
    moreover have "room ?rl client a t \<le> room rl client a now"
      using t Cons.prems(1,2) by (auto simp: room_def same lim window_ok_def split: option.splits)
    ultimately show ?thesis using False by (simp add: step)
  next
    case c: True
    have "0 < limitFor rl c" using Cons.prems(1) c by simp
    then show ?thesis
    proof (cases rule: allow_cases [where now = t])
      case restart
      have w: "window_ok ?rl client t"
        using restart(3) pos lim c by (simp add: window_ok_def)
      have "room ?rl client a t + (if a \<le> t \<and> t < a + Minute then 1 else 0) \<le> room rl client a now"
        using restart(1,3) t Cons.prems(1,2) c
        by (auto simp: room_def allow_config window_ok_def split: option.splits)
      with Cons.IH [OF pos w sorted later] restart(2) c show ?thesis by (simp add: step)
    next
      case (denied w)
      have w: "window_ok ?rl client t"
        using Cons.prems(2) t denied(5) by (auto simp: window_ok_def split: option.splits)
      have "room ?rl client a t \<le> room rl client a now"
        using t denied(1,5) Cons.prems(2) c by (auto simp: room_def window_ok_def)
      with Cons.IH [OF pos w sorted later] denied(4) c show ?thesis by (simp add: step)
    next
      case (counted w)
      have w: "window_ok ?rl client t"
        using Cons.prems(2) t counted(1,3,5) lim c by (simp add: window_ok_def)
      have "room ?rl client a t + (if a \<le> t \<and> t < a + Minute then 1 else 0) \<le> room rl client a now"
        using counted(1,2,5) t Cons.prems(1,2) c
        by (auto simp: room_def allow_config window_ok_def)
      with Cons.IH [OF pos w sorted later] counted(4) c show ?thesis by (simp add: step)
    qed
  qed
qed

lemma passed_twice:
  assumes pos: "0 < limitFor (newRateLimiter pm ov) client" and "sorted (map fst calls)"
  shows "passed client a (a + Minute) calls (allow_run (newRateLimiter pm ov) calls)
    \<le> 2 * limitFor (newRateLimiter pm ov) client"
proof (cases calls)
  case (Cons call rest)
  let ?rl = "newRateLimiter pm ov"
  have w: "window_ok ?rl client (fst call)" by (simp add: window_ok_def newRateLimiter_def)
  have "list_all (\<lambda>(t, _). fst call \<le> t) calls"
    using assms(2) Cons by (auto simp: list_all_iff)
  from passed_room [OF pos w assms(2) this, of a]
  have "passed client a (a + Minute) calls (allow_run ?rl calls) \<le> room ?rl client a (fst call)" .
  also have "\<dots> \<le> 2 * limitFor ?rl client"
    using pos by (simp add: room_def) (simp add: newRateLimiter_def)
  finally show ?thesis .
qed (use pos in simp)

text \<open>
  The limit is enforced: for a client with a positive limit, and any calls of any clients made
  in time order to a fresh limiter, at most the limit is let through in the minute after the
  limiter starts counting at the first call, and at most twice the limit in any minute whatsoever
  (the fixed windows allow a burst on each side of a boundary); a client without a limit is never
  refused.
\<close>

theorem rate_limit_enforced:
  assumes "sorted (map fst calls)"
  shows "(0 < limitFor (newRateLimiter pm ov) client \<longrightarrow>
      passed client a (a + Minute) calls (allow_run (newRateLimiter pm ov) calls)
        \<le> 2 * limitFor (newRateLimiter pm ov) client
    \<and> (\<forall>first rest. calls = (first, client) # rest \<longrightarrow>
        passed client first (first + Minute) calls (allow_run (newRateLimiter pm ov) calls)
          \<le> limitFor (newRateLimiter pm ov) client))
   \<and> (limitFor rl client \<le> 0 \<longrightarrow> allow rl now client = (rl, True))"
proof (intro conjI impI allI)
  assume pos: "0 < limitFor (newRateLimiter pm ov) client"
  let ?rl = "newRateLimiter pm ov"
  show "passed client a (a + Minute) calls (allow_run ?rl calls) \<le> 2 * limitFor ?rl client"
    by (rule passed_twice [OF pos assms])
  fix first rest
  assume calls: "calls = (first, client) # rest"
  let ?rl' = "fst (allow ?rl first client)"
  have r: "allow ?rl first client = (?rl\<lparr>windows := [client \<mapsto> \<lparr>w_start = first, w_count = 1\<rparr>]\<rparr>, True)"
    using pos by (simp add: allow_def newRateLimiter_def Let_def)
  have pos': "0 < limitFor ?rl' client" using pos allow_config [of ?rl first client] by simp
  have w: "window_ok ?rl' client first" using pos' by (simp add: r window_ok_def)
  have s: "sorted (map fst rest)" "list_all (\<lambda>(t, _). first \<le> t) rest"
    using assms by (auto simp: calls list_all_iff)
  have "passed client first (first + Minute) rest (allow_run ?rl' rest) \<le> room ?rl' client first first"
    by (rule passed_room [OF pos' w s])
  also have "\<dots> = limitFor ?rl client - 1"
    by (simp add: r room_def) (simp add: limitFor_def newRateLimiter_def Minute_def split: option.split)
  finally show "passed client first (first + Minute) calls (allow_run ?rl calls) \<le> limitFor ?rl client"
    by (simp add: calls r Minute_def)
qed (simp add: allow_def)

theorem rate_limit_enforced_witness:
  "passed ''c'' 0 Minute [(0, ''c''), (5, ''c''), (6, ''d''), (7, ''c'')]
     (allow_run (newRateLimiter 2 Map.empty) [(0, ''c''), (5, ''c''), (6, ''d''), (7, ''c'')]) \<le> 2"
  using rate_limit_enforced [of "[(0, ''c''), (5, ''c''), (6, ''d''), (7, ''c'')]" 2 Map.empty "''c''"]
  by (simp add: newRateLimiter_def limitFor_def)

end
