(* ===== verification/Peer_Admission.thy ===== *)
theory Peer_Admission
  imports Go_Prelude
begin

section \<open>In-flight admission per peer (proxy/peer_admission.go)\<close>

text \<open>
  A buffered channel of capacity \<open>maxInflight\<close> per peer is a counting semaphore: sending takes a
  slot, receiving gives it back. The semaphore's contract is the locale \<open>slot_pool\<close>. A request is
  in one of the phases of \<open>acquire\<close>; the steps of all requests, in any interleaving, are the
  inductive relation \<open>adm_step\<close>.
\<close>

subsection \<open>Counting semaphores\<close>

locale slot_pool =
  fixes take :: "'s \<Rightarrow> 's option"
    and give :: "'s \<Rightarrow> 's"
    and used :: "'s \<Rightarrow> nat"
    and size :: "'s \<Rightarrow> nat"
  assumes take_Some: "take s = Some s' \<Longrightarrow> used s < size s \<and> used s' = Suc (used s) \<and> size s' = size s"
    and take_None: "take s = None \<Longrightarrow> size s \<le> used s"
    and give_used: "used (give s) = used s - 1"
    and give_size: "size (give s) = size s"
begin

text \<open>What a pool keeps when exactly its holders give slots back.\<close>

definition balanced :: "'s \<Rightarrow> nat \<Rightarrow> bool" where
  "balanced s holders \<longleftrightarrow> used s = holders \<and> holders \<le> size s"

lemma balanced_take: "balanced s n \<Longrightarrow> take s = Some s' \<Longrightarrow> balanced s' (Suc n)"
  using take_Some [of s s'] by (simp add: balanced_def)

lemma balanced_give: "balanced s (Suc n) \<Longrightarrow> balanced (give s) n"
  by (simp add: balanced_def give_used give_size)

lemma take_iff: "balanced s n \<Longrightarrow> take s = None \<longleftrightarrow> n = size s"
  using take_None [of s] take_Some [of s] by (cases "take s") (auto simp: balanced_def)

end

text \<open>A Go channel of empty structs: the tokens in its buffer and its capacity.\<close>

record slotChan =
  tokens :: nat
  capacity :: nat

definition chan_send :: "slotChan \<Rightarrow> slotChan option" where
  "chan_send c = (if tokens c < capacity c then Some (c\<lparr>tokens := tokens c + 1\<rparr>) else None)"

definition chan_recv :: "slotChan \<Rightarrow> slotChan" where
  "chan_recv c = c\<lparr>tokens := tokens c - 1\<rparr>"

interpretation slots_chan: slot_pool chan_send chan_recv tokens capacity
  by unfold_locales (auto simp: chan_send_def chan_recv_def split: if_splits)

subsection \<open>Admission\<close>

record peerAdmission =
  maxInflight :: int
  queueTimeout :: int
  slots :: "string \<rightharpoonup> slotChan"

definition newPeerAdmission :: "int \<Rightarrow> int \<Rightarrow> string list \<Rightarrow> peerAdmission" where
  "newPeerAdmission m qt peerIDs = \<lparr>maxInflight = m, queueTimeout = qt,
     slots = (if m > 0 then (\<lambda>id. if id \<in> set peerIDs then Some \<lparr>tokens = 0, capacity = nat m\<rparr> else None)
              else Map.empty)\<rparr>"

definition pa_enabled :: "peerAdmission option \<Rightarrow> bool" where
  "pa_enabled pa = (case pa of None \<Rightarrow> False | Some pa \<Rightarrow> maxInflight pa > 0)"

text \<open>
  The first part of \<open>acquire\<close>, up to its blocking select: pass-through, a slot, a rejection, or the
  decision to wait.
\<close>

datatype acquired = PassThrough | GotSlot | Reject | MustWait

definition acquire_try :: "peerAdmission \<Rightarrow> string \<Rightarrow> peerAdmission \<times> acquired" where
  "acquire_try pa peerID =
     (if \<not> pa_enabled (Some pa) then (pa, PassThrough)
      else case slots pa peerID of
        None \<Rightarrow> (pa, PassThrough)
      | Some c \<Rightarrow>
          (case chan_send c of
             Some c' \<Rightarrow> (pa\<lparr>slots := (slots pa)(peerID \<mapsto> c')\<rparr>, GotSlot)
           | None \<Rightarrow> if queueTimeout pa \<le> 0 then (pa, Reject) else (pa, MustWait)))"

text \<open>The select's send case, when the channel has room.\<close>

definition acquire_send :: "peerAdmission \<Rightarrow> string \<Rightarrow> peerAdmission option" where
  "acquire_send pa peerID =
     (case slots pa peerID of
        None \<Rightarrow> None
      | Some c \<Rightarrow> map_option (\<lambda>c'. pa\<lparr>slots := (slots pa)(peerID \<mapsto> c')\<rparr>) (chan_send c))"

definition release_slot :: "peerAdmission \<Rightarrow> string \<Rightarrow> peerAdmission" where
  "release_slot pa peerID =
     (case slots pa peerID of
        None \<Rightarrow> pa
      | Some c \<Rightarrow> pa\<lparr>slots := (slots pa)(peerID \<mapsto> chan_recv c)\<rparr>)"

text \<open>\<open>writeTooManyRequests\<close>: the headers and the status of the refusal; times are nanoseconds.\<close>

definition retryAfterSeconds :: "int \<Rightarrow> int" where
  "retryAfterSeconds retryAfter =
     (let secs = go_quot retryAfter 1000000000 in if secs < 1 then 1 else secs)"

definition writeTooManyRequests :: "string \<Rightarrow> int \<Rightarrow> (string \<times> string) list \<times> int \<times> int" where
  "writeTooManyRequests origin retryAfter =
     ((if origin \<noteq> [] then [(''Access-Control-Allow-Origin'', origin), (''Vary'', ''Origin'')] else []),
      retryAfterSeconds retryAfter, 429)"

subsection \<open>All requests together\<close>

datatype phase = Waiting string | Holding string | Passed | Rejected | Finished

type_synonym adm_state = "peerAdmission \<times> (nat \<rightharpoonup> phase)"

text \<open>
  One step: a new request tries, a waiting one gets a slot, times out or is cancelled, a holder calls
  its release function, which the dispatcher defers and so runs once.
\<close>

inductive adm_step :: "adm_state \<Rightarrow> adm_state \<Rightarrow> bool" where
  try_pass: "rs r = None \<Longrightarrow> acquire_try pa p = (pa', PassThrough) \<Longrightarrow>
    adm_step (pa, rs) (pa', rs(r \<mapsto> Passed))"
| try_slot: "rs r = None \<Longrightarrow> acquire_try pa p = (pa', GotSlot) \<Longrightarrow>
    adm_step (pa, rs) (pa', rs(r \<mapsto> Holding p))"
| try_reject: "rs r = None \<Longrightarrow> acquire_try pa p = (pa', Reject) \<Longrightarrow>
    adm_step (pa, rs) (pa', rs(r \<mapsto> Rejected))"
| try_wait: "rs r = None \<Longrightarrow> acquire_try pa p = (pa', MustWait) \<Longrightarrow>
    adm_step (pa, rs) (pa', rs(r \<mapsto> Waiting p))"
| wait_slot: "rs r = Some (Waiting p) \<Longrightarrow> acquire_send pa p = Some pa' \<Longrightarrow>
    adm_step (pa, rs) (pa', rs(r \<mapsto> Holding p))"
| wait_timeout: "rs r = Some (Waiting p) \<Longrightarrow> adm_step (pa, rs) (pa, rs(r \<mapsto> Rejected))"
| wait_cancel: "rs r = Some (Waiting p) \<Longrightarrow> adm_step (pa, rs) (pa, rs(r \<mapsto> Rejected))"
| release: "rs r = Some (Holding p) \<Longrightarrow> adm_step (pa, rs) (release_slot pa p, rs(r \<mapsto> Finished))"
| pass_done: "rs r = Some Passed \<Longrightarrow> adm_step (pa, rs) (pa, rs(r \<mapsto> Finished))"

inductive_cases adm_stepE: "adm_step (pa, rs) s'"

inductive reachable :: "peerAdmission \<Rightarrow> adm_state \<Rightarrow> bool" for pa0 where
  start: "reachable pa0 (pa0, Map.empty)"
| step: "reachable pa0 s \<Longrightarrow> adm_step s s' \<Longrightarrow> reachable pa0 s'"

definition holders :: "(nat \<rightharpoonup> phase) \<Rightarrow> string \<Rightarrow> nat set" where
  "holders rs p = {r. rs r = Some (Holding p)}"

lemma holders_upd:
  "holders (rs(r \<mapsto> x)) p = (if x = Holding p then insert r (holders rs p) else holders rs p - {r})"
  by (auto simp: holders_def)

definition peer_ok :: "slotChan option \<Rightarrow> int \<Rightarrow> nat set \<Rightarrow> bool" where
  "peer_ok ch m hs \<longleftrightarrow> finite hs \<and> (case ch of
       None \<Rightarrow> hs = {} | Some c \<Rightarrow> slots_chan.balanced c (card hs) \<and> capacity c = nat m \<and> 0 < m)"

definition adm_ok :: "adm_state \<Rightarrow> bool" where
  "adm_ok s \<longleftrightarrow> (\<forall>p. peer_ok (slots (fst s) p) (maxInflight (fst s)) (holders (snd s) p))"

lemma adm_okD: "adm_ok (pa, rs) \<Longrightarrow> peer_ok (slots pa p) (maxInflight pa) (holders rs p)"
  by (simp add: adm_ok_def)

lemma not_holder: "rs r = None \<or> rs r = Some (Waiting q) \<or> rs r = Some Passed \<Longrightarrow> r \<notin> holders rs p"
  by (auto simp: holders_def)

lemma adm_ok_neutral:
  assumes "adm_ok (pa, rs)" "\<And>p. r \<notin> holders rs p" "\<And>p. x \<noteq> Holding p"
  shows "adm_ok (pa, rs(r \<mapsto> x))"
  using assms by (simp add: adm_ok_def holders_upd)

lemma adm_ok_take:
  assumes "adm_ok (pa, rs)" "\<And>q. r \<notin> holders rs q" "slots pa p = Some c" "chan_send c = Some c'"
  shows "adm_ok (pa\<lparr>slots := (slots pa)(p \<mapsto> c')\<rparr>, rs(r \<mapsto> Holding p))"
proof -
  have p: "finite (holders rs p)" "slots_chan.balanced c (card (holders rs p))" "capacity c = nat (maxInflight pa)" "0 < maxInflight pa"
    using adm_okD [OF assms(1), of p] assms(3) by (auto simp: peer_ok_def)
  have "slots_chan.balanced c' (Suc (card (holders rs p)))" "capacity c' = nat (maxInflight pa)"
    using slots_chan.balanced_take [OF p(2) assms(4)] slots_chan.take_Some [OF assms(4)] p(3) by auto
  then have "peer_ok (Some c') (maxInflight pa) (insert r (holders rs p))"
    using p(1,4) assms(2) by (simp add: peer_ok_def)
  then show ?thesis
    using assms(1,2) by (auto simp: adm_ok_def holders_upd)
qed

lemma adm_ok_give:
  assumes "adm_ok (pa, rs)" "rs r = Some (Holding p)"
  shows "adm_ok (release_slot pa p, rs(r \<mapsto> Finished))"
proof -
  have r: "r \<in> holders rs p" and other: "q \<noteq> p \<Longrightarrow> holders rs q - {r} = holders rs q" for q
    using assms(2) by (auto simp: holders_def)
  then obtain c where c: "slots pa p = Some c" "finite (holders rs p)"
    "slots_chan.balanced c (card (holders rs p))" "capacity c = nat (maxInflight pa)" "0 < maxInflight pa"
    using adm_okD [OF assms(1), of p] by (auto simp: peer_ok_def split: option.splits)
  have card: "card (holders rs p) = Suc (card (holders rs p - {r}))"
    using r c(2) by (metis card_Suc_Diff1)
  have "slots_chan.balanced (chan_recv c) (card (holders rs p - {r}))"
    using slots_chan.balanced_give c(3) unfolding card by blast
  then have "peer_ok (Some (chan_recv c)) (maxInflight pa) (holders rs p - {r})"
    using c slots_chan.give_size [of c] by (simp add: peer_ok_def)
  then show ?thesis
    using assms(1) c(1) other by (auto simp: adm_ok_def release_slot_def holders_upd)
qed

lemma acquire_try_other:
  "acquire_try pa p = (pa', a) \<Longrightarrow> a \<noteq> GotSlot \<Longrightarrow> pa' = pa"
  by (auto simp: acquire_try_def split: if_splits option.splits)

lemma acquire_try_slot:
  "acquire_try pa p = (pa', GotSlot) \<Longrightarrow>
   \<exists>c c'. slots pa p = Some c \<and> chan_send c = Some c' \<and> pa' = pa\<lparr>slots := (slots pa)(p \<mapsto> c')\<rparr>"
  by (auto simp: acquire_try_def split: if_splits option.splits)

lemma adm_step_ok:
  assumes "adm_ok s" "adm_step s s'"
  shows "adm_ok s'"
  using assms(2,1)
proof (cases rule: adm_step.cases)
  case (try_pass rs r pa p pa')
  then show ?thesis using assms(1) acquire_try_other not_holder by (auto intro!: adm_ok_neutral)
next
  case (try_slot rs r pa p pa')
  then show ?thesis
    using assms(1) acquire_try_slot [OF try_slot(4)] not_holder [of rs r]
    by (auto intro!: adm_ok_take)
next
  case (try_reject rs r pa p pa')
  then show ?thesis using assms(1) acquire_try_other not_holder by (auto intro!: adm_ok_neutral)
next
  case (try_wait rs r pa p pa')
  then show ?thesis using assms(1) acquire_try_other not_holder by (auto intro!: adm_ok_neutral)
next
  case (wait_slot rs r p pa pa')
  then show ?thesis
    using assms(1) not_holder [of rs r]
    by (auto simp: acquire_send_def split: option.splits intro!: adm_ok_take)
next
  case (wait_timeout rs r p pa)
  then show ?thesis using assms(1) not_holder by (auto intro!: adm_ok_neutral)
next
  case (wait_cancel rs r p pa)
  then show ?thesis using assms(1) not_holder by (auto intro!: adm_ok_neutral)
next
  case (release rs r p pa)
  then show ?thesis using assms(1) by (auto intro!: adm_ok_give)
next
  case (pass_done rs r pa)
  then show ?thesis using assms(1) not_holder by (auto intro!: adm_ok_neutral)
qed

lemma adm_step_config: "adm_step s s' \<Longrightarrow> maxInflight (fst s') = maxInflight (fst s)"
  by (induction rule: adm_step.induct)
    (auto simp: acquire_try_def acquire_send_def release_slot_def split: if_splits option.splits)

lemma new_ok: "adm_ok (newPeerAdmission m qt ids, Map.empty)"
  by (simp add: adm_ok_def peer_ok_def newPeerAdmission_def holders_def slots_chan.balanced_def)

lemma reachable_ok:
  "reachable (newPeerAdmission m qt ids) s \<Longrightarrow> adm_ok s \<and> maxInflight (fst s) = m"
  by (induction rule: reachable.induct)
    (auto intro: new_ok adm_step_ok simp: adm_step_config, simp add: newPeerAdmission_def)

text \<open>
  C20. The in-flight cap: in every state any interleaving of requests can reach, the number of
  requests holding a slot of a peer is exactly the number of tokens in that peer's channel and never
  exceeds the configured maximum; so no slot leaks, and when no request holds one every slot of the
  peer is free. A new request is turned away, or made to wait, only if the peer's slots are all held.
\<close>

theorem inflight_bounded:
  assumes "reachable (newPeerAdmission m qt ids) (pa, rs)"
  shows "(case slots pa p of
      None \<Rightarrow> {r. rs r = Some (Holding p)} = {}
    | Some c \<Rightarrow> card {r. rs r = Some (Holding p)} = tokens c \<and> int (tokens c) \<le> m
        \<and> capacity c = nat m)
   \<and> (snd (acquire_try pa p) = Reject \<or> snd (acquire_try pa p) = MustWait \<longrightarrow>
        int (card {r. rs r = Some (Holding p)}) = m)"
proof -
  from reachable_ok [OF assms] have ok: "adm_ok (pa, rs)" and m: "maxInflight pa = m" by auto
  note peer = adm_okD [OF ok, of p]
  show ?thesis
  proof (cases "slots pa p")
    case None
    then show ?thesis using peer by (auto simp: peer_ok_def holders_def acquire_try_def split: if_splits)
  next
    case (Some c)
    have b: "slots_chan.balanced c (card (holders rs p))" "capacity c = nat m" "0 < m"
      using peer Some m by (auto simp: peer_ok_def)
    have "0 < m \<and> chan_send c = None" if "snd (acquire_try pa p) = Reject \<or> snd (acquire_try pa p) = MustWait"
      using that Some m by (auto simp: acquire_try_def pa_enabled_def split: if_splits option.splits)
    then show ?thesis
      using b slots_chan.take_iff [OF b(1)] Some
      by (auto simp: slots_chan.balanced_def holders_def)
  qed
qed

theorem inflight_bounded_witness:
  "(case slots (fst (acquire_try (newPeerAdmission 2 0 [''p'']) ''p'')) ''p'' of
      None \<Rightarrow> False | Some c \<Rightarrow> card {r. [7 \<mapsto> Holding ''p''] r = Some (Holding ''p'')} = tokens c)"
proof -
  let ?pa = "newPeerAdmission 2 0 [''p'']"
  have tr: "acquire_try ?pa ''p'' = (fst (acquire_try ?pa ''p''), GotSlot)"
    by (simp add: acquire_try_def newPeerAdmission_def pa_enabled_def chan_send_def)
  have "reachable ?pa (fst (acquire_try ?pa ''p''), [7 \<mapsto> Holding ''p''])"
    by (rule reachable.step [OF reachable.start adm_step.try_slot [OF _ tr]]) simp
  from inflight_bounded [OF this, of "''p''"] show ?thesis
    by (simp add: acquire_try_def newPeerAdmission_def pa_enabled_def chan_send_def)
qed

end
