(* ===== verification/Event_Dispatcher.thy ===== *)
theory Event_Dispatcher
  imports Go_Prelude
begin

section \<open>The event dispatcher (event/event.go, event/default.go)\<close>

text \<open>
  The registry maps event types to subscriber groups: two parallel arrays sorted by type, replaced
  as a whole on each change. Groups and consumers are objects the code shares by pointer, so the
  state holds the list of each and a pointer is an index. \<open>tag\<close> stands for the Go type parameter of
  a group. Each critical section is one operation: publishing (\<open>None\<close> while the backpressure loop
  waits), subscribing, unsubscribing, a consumer's buffer swap, and one handler call. What the
  dispatcher promises is the abstract \<open>hub\<close>: every published event reaches each current subscriber
  of its type once, in order.
\<close>

record 'e consumer =
  queue :: "'e list"
  stop :: bool
  batch :: "'e list"
  handled :: "'e list"
  exited :: bool

record group =
  tag :: string
  subs :: "nat list"
  maxLen :: nat

record 'e Dispatcher =
  reg_keys :: "nat list"
  reg_grps :: "nat list"
  closed :: bool
  maxQueue :: nat
  groups :: "group list"
  consumers :: "'e consumer list"

definition NewDispatcherConfig :: "nat \<Rightarrow> 'e Dispatcher" where
  "NewDispatcherConfig mq = \<lparr>reg_keys = [], reg_grps = [], closed = False, maxQueue = mq,
     groups = [], consumers = []\<rparr>"

definition NewDispatcher :: "'e Dispatcher" where
  "NewDispatcher = NewDispatcherConfig 50000"

definition Close :: "'e Dispatcher \<Rightarrow> 'e Dispatcher" where
  "Close d = d\<lparr>closed := True\<rparr>"

text \<open>The binary search of \<open>findGroup\<close>, which is also the one of \<open>sort.Search\<close>.\<close>

function bsearch :: "nat list \<Rightarrow> nat \<Rightarrow> nat \<Rightarrow> nat \<Rightarrow> nat" where
  "bsearch keys eventType left right =
     (if left < right then
        let mid = left + (right - left) div 2
        in if keys ! mid < eventType then bsearch keys eventType (mid + 1) right
           else bsearch keys eventType left mid
      else left)"
  by pat_completeness auto
termination
  by (relation "measure (\<lambda>(_, _, l, r). r - l)") auto

declare bsearch.simps [simp del]

definition findGroup :: "'e Dispatcher \<Rightarrow> nat \<Rightarrow> nat option" where
  "findGroup d eventType =
     (let keys = reg_keys d; left = bsearch keys eventType 0 (length keys)
      in if left < length keys \<and> keys ! left = eventType then Some (reg_grps d ! left) else None)"

definition newConsumer :: "'e consumer" where
  "newConsumer = \<lparr>queue = [], stop = False, batch = [], handled = [], exited = False\<rparr>"

text \<open>\<open>group.Add\<close>: a new consumer, whose index is the pointer returned.\<close>

definition Add :: "'e Dispatcher \<Rightarrow> nat \<Rightarrow> 'e Dispatcher \<times> nat" where
  "Add d g =
     (let sub = length (consumers d); grp = groups d ! g
      in (d\<lparr>consumers := consumers d @ [newConsumer],
            groups := (groups d)[g := grp\<lparr>subs := subs grp @ [sub]\<rparr>]\<rparr>, sub))"

text \<open>\<open>None\<close> is a panic: a closed dispatcher, or a group of another type. The result is the
  consumer and its group, which the cancel function closes over.\<close>

definition SubscribeTo :: "'e Dispatcher \<Rightarrow> string \<Rightarrow> nat \<Rightarrow> ('e Dispatcher \<times> nat \<times> nat) option" where
  "SubscribeTo d ty eventType =
     (if closed d then None
      else case findGroup d eventType of
        Some g \<Rightarrow>
          if tag (groups d ! g) = ty then (case Add d g of (d', sub) \<Rightarrow> Some (d', g, sub)) else None
      | None \<Rightarrow>
          let g = length (groups d);
              d1 = d\<lparr>groups := groups d @ [\<lparr>tag = ty, subs = [], maxLen = 0\<rparr>]\<rparr>;
              idx = bsearch (reg_keys d) eventType 0 (length (reg_keys d))
          in (case Add d1 g of (d2, sub) \<Rightarrow>
                Some (d2\<lparr>reg_keys := take idx (reg_keys d) @ eventType # drop idx (reg_keys d),
                         reg_grps := take idx (reg_grps d) @ g # drop idx (reg_grps d)\<rparr>, g, sub)))"

definition maxQueueLen :: "'e Dispatcher \<Rightarrow> nat list \<Rightarrow> nat" where
  "maxQueueLen d ss =
     foldl (\<lambda>m s. if length (queue (consumers d ! s)) > m then length (queue (consumers d ! s)) else m) 0 ss"

definition enqueue :: "'e \<Rightarrow> 'e consumer list \<Rightarrow> nat \<Rightarrow> 'e consumer list" where
  "enqueue ev cs s = cs[s := (cs ! s)\<lparr>queue := queue (cs ! s) @ [ev]\<rparr>]"

text \<open>\<open>None\<close>: the publisher waits for a consumer to drain.\<close>

definition Broadcast :: "'e Dispatcher \<Rightarrow> nat \<Rightarrow> 'e \<Rightarrow> 'e Dispatcher option" where
  "Broadcast d g ev =
     (let grp = groups d ! g in
      if maxQueueLen d (subs grp) \<ge> maxQueue d then None
      else
        let d1 = d\<lparr>consumers := foldl (enqueue ev) (consumers d) (subs grp)\<rparr>
        in Some (d1\<lparr>groups := (groups d)[g := grp\<lparr>maxLen := maxQueueLen d1 (subs grp)\<rparr>]\<rparr>))"

datatype 'e published = Done "'e Dispatcher" | Waits | Panics

definition Publish :: "'e Dispatcher \<Rightarrow> string \<Rightarrow> nat \<Rightarrow> 'e \<Rightarrow> 'e published" where
  "Publish d ty eventType ev =
     (case findGroup d eventType of
        None \<Rightarrow> Done d
      | Some g \<Rightarrow>
          if tag (groups d ! g) \<noteq> ty then Panics
          else (case Broadcast d g ev of None \<Rightarrow> Waits | Some d' \<Rightarrow> Done d'))"

definition Del :: "'e Dispatcher \<Rightarrow> nat \<Rightarrow> nat \<Rightarrow> 'e Dispatcher" where
  "Del d g sub =
     (let grp = groups d ! g
      in d\<lparr>consumers := (consumers d)[sub := (consumers d ! sub)\<lparr>stop := True\<rparr>],
           groups := (groups d)[g := grp\<lparr>subs := remove1 sub (subs grp)\<rparr>]\<rparr>)"

definition count :: "'e Dispatcher \<Rightarrow> nat \<Rightarrow> nat" where
  "count d eventType =
     (case findGroup d eventType of None \<Rightarrow> 0 | Some g \<Rightarrow> length (subs (groups d ! g)))"

text \<open>The consumer's loop \<open>Listen\<close>: the buffer swap under the lock, and one handler call.\<close>

definition Listen_swap :: "'e consumer \<Rightarrow> 'e consumer" where
  "Listen_swap s =
     (if exited s \<or> batch s \<noteq> [] then s
      else if queue s = [] then (if stop s then s\<lparr>exited := True\<rparr> else s)
      else s\<lparr>batch := queue s, queue := []\<rparr>)"

definition Listen_handle :: "'e consumer \<Rightarrow> 'e consumer" where
  "Listen_handle s =
     (case batch s of [] \<Rightarrow> s | ev # evs \<Rightarrow> s\<lparr>batch := evs, handled := handled s @ [ev]\<rparr>)"

definition listen :: "('e consumer \<Rightarrow> 'e consumer) \<Rightarrow> 'e Dispatcher \<Rightarrow> nat \<Rightarrow> 'e Dispatcher" where
  "listen step d s =
     (if s < length (consumers d) then d\<lparr>consumers := (consumers d)[s := step (consumers d ! s)]\<rparr> else d)"

subsection \<open>The binary search finds the group\<close>

lemma bsearch_bounds:
  assumes "sorted keys" "left \<le> right" "right \<le> length keys"
    and "\<forall>i < left. keys ! i < x" "\<forall>i. right \<le> i \<and> i < length keys \<longrightarrow> x \<le> keys ! i"
  shows "bsearch keys x left right \<le> length keys
    \<and> (\<forall>i < bsearch keys x left right. keys ! i < x)
    \<and> (\<forall>i. bsearch keys x left right \<le> i \<and> i < length keys \<longrightarrow> x \<le> keys ! i)"
  using assms
proof (induction keys x left right rule: bsearch.induct)
  case (1 keys x left right)
  show ?case
  proof (cases "left < right")
    case False
    then show ?thesis using "1.prems" by (simp add: bsearch.simps)
  next
    case True
    let ?mid = "left + (right - left) div 2"
    have mid: "left \<le> ?mid" "?mid < right" using True by auto
    show ?thesis
    proof (cases "keys ! ?mid < x")
      case less: True
      have "\<forall>i < ?mid + 1. keys ! i < x"
      proof (intro allI impI)
        fix i assume "i < ?mid + 1"
        then have "keys ! i \<le> keys ! ?mid"
          using mid "1.prems"(1,3) by (intro sorted_nth_mono) auto
        with less show "keys ! i < x" by simp
      qed
      with "1.IH"(1) [OF True refl less "1.prems"(1)] mid "1.prems" show ?thesis
        by (subst (1 2 3) bsearch.simps) (simp add: True less Let_def)
    next
      case ge: False
      have "\<forall>i. ?mid \<le> i \<and> i < length keys \<longrightarrow> x \<le> keys ! i"
      proof (intro allI impI, elim conjE)
        fix i assume "?mid \<le> i" "i < length keys"
        then have "keys ! ?mid \<le> keys ! i" using "1.prems"(1) by (intro sorted_nth_mono) auto
        with ge show "x \<le> keys ! i" by simp
      qed
      with "1.IH"(2) [OF True refl ge "1.prems"(1)] mid "1.prems" show ?thesis
        by (subst (1 2 3) bsearch.simps) (simp add: True ge Let_def)
    qed
  qed
qed

lemma bsearch_all:
  assumes "sorted keys"
  shows "bsearch keys x 0 (length keys) \<le> length keys"
    "i < bsearch keys x 0 (length keys) \<Longrightarrow> keys ! i < x"
    "bsearch keys x 0 (length keys) \<le> i \<Longrightarrow> i < length keys \<Longrightarrow> x \<le> keys ! i"
  using bsearch_bounds [OF assms, of 0 "length keys" x] by auto

text \<open>The registry: sorted types, each with a group of its own.\<close>

definition reg_ok :: "'e Dispatcher \<Rightarrow> bool" where
  "reg_ok d \<longleftrightarrow> sorted (reg_keys d) \<and> distinct (reg_keys d) \<and> length (reg_grps d) = length (reg_keys d)
     \<and> distinct (reg_grps d) \<and> set (reg_grps d) \<subseteq> {..<length (groups d)}"

definition registered :: "'e Dispatcher \<Rightarrow> (nat \<times> nat) list" where
  "registered d = zip (reg_keys d) (reg_grps d)"

lemma findGroup_lookup:
  assumes "reg_ok d"
  shows "findGroup d x = map_of (registered d) x"
proof -
  let ?k = "reg_keys d" and ?i = "bsearch (reg_keys d) x 0 (length (reg_keys d))"
  have s: "sorted ?k" and len: "length (reg_grps d) = length ?k" and dist: "distinct ?k"
    using assms by (auto simp: reg_ok_def)
  have at: "map_of (registered d) (?k ! i) = Some (reg_grps d ! i)" if "i < length ?k" for i
    using that len dist unfolding registered_def by (simp add: map_of_zip_nth)
  show ?thesis
  proof (cases "x \<in> set ?k")
    case True
    then obtain j where j: "j < length ?k" "?k ! j = x" by (auto simp: in_set_conv_nth)
    then have "\<not> j < ?i" using bsearch_all(2) [OF s] by force
    then have "?i < length ?k" using j by simp
    moreover from this have "x \<le> ?k ! ?i" using bsearch_all(3) [OF s] by simp
    moreover have "?k ! ?i \<le> ?k ! j" using \<open>\<not> j < ?i\<close> j s by (intro sorted_nth_mono) auto
    ultimately have "?i < length ?k" "?k ! ?i = x" using j by auto
    then show ?thesis using at [of ?i] by (simp add: findGroup_def Let_def)
  next
    case False
    then have "findGroup d x = None" using nth_mem by (fastforce simp: findGroup_def Let_def)
    moreover have "map_of (registered d) x = None"
      using False len by (simp add: registered_def map_of_zip_is_None)
    ultimately show ?thesis by simp
  qed
qed

lemma insert_sorted:
  assumes "sorted keys" "x \<notin> set keys" "i = bsearch keys x 0 (length keys)"
  shows "sorted (take i keys @ x # drop i keys)" "\<And>y. y \<in> set (take i keys) \<Longrightarrow> y < x"
    "\<And>y. y \<in> set (drop i keys) \<Longrightarrow> x < y"
proof -
  show lo: "y < x" if "y \<in> set (take i keys)" for y
    using that bsearch_all(2) [OF assms(1)] assms(3) by (auto simp: in_set_conv_nth)
  show hi: "x < y" if "y \<in> set (drop i keys)" for y
  proof -
    obtain j where "j < length keys - i" "y = keys ! (i + j)" using \<open>y \<in> set (drop i keys)\<close>
      by (auto simp: in_set_conv_nth)
    then have "x \<le> y" using bsearch_all(3) [OF assms(1), of x "i + j"] assms(3) by simp
    moreover have "y \<noteq> x" using that assms(2) by (auto dest: in_set_dropD)
    ultimately show ?thesis by simp
  qed
  show "sorted (take i keys @ x # drop i keys)"
    using lo hi assms(1) by (force simp: sorted_append sorted_wrt_take sorted_wrt_drop intro: less_imp_le)
qed

subsection \<open>What is promised: a publish-subscribe hub\<close>

text \<open>Who receives a type, what each consumer has been sent, and how many consumers there are.\<close>

record 'e hub =
  members :: "nat \<Rightarrow> nat list"
  inbox :: "nat \<Rightarrow> 'e list"
  size :: nat

definition hub_subscribe :: "'e hub \<Rightarrow> nat \<Rightarrow> 'e hub" where
  "hub_subscribe h key = h\<lparr>members := (members h)(key := members h key @ [size h]),
     inbox := (inbox h)(size h := []), size := Suc (size h)\<rparr>"

definition hub_publish :: "'e hub \<Rightarrow> nat \<Rightarrow> 'e \<Rightarrow> 'e hub" where
  "hub_publish h key ev =
     h\<lparr>inbox := (\<lambda>c. if c \<in> set (members h key) then inbox h c @ [ev] else inbox h c)\<rparr>"

definition hub_cancel :: "'e hub \<Rightarrow> nat \<Rightarrow> 'e hub" where
  "hub_cancel h c = h\<lparr>members := (\<lambda>key. remove1 c (members h key))\<rparr>"

definition sent :: "'e consumer \<Rightarrow> 'e list" where
  "sent s = handled s @ batch s @ queue s"

definition hub_of :: "'e Dispatcher \<Rightarrow> 'e hub" where
  "hub_of d = \<lparr>members = (\<lambda>key. case findGroup d key of None \<Rightarrow> [] | Some g \<Rightarrow> subs (groups d ! g)),
     inbox = (\<lambda>c. if c < length (consumers d) then sent (consumers d ! c) else []),
     size = length (consumers d)\<rparr>"

text \<open>A run keeps the handles \<open>SubscribeTo\<close> returned; \<open>DCancel i\<close> calls the \<open>i\<close>-th cancel function.\<close>

datatype 'e dop = DSub string nat | DPub string nat 'e | DCancel nat | DSwap nat | DHandle nat | DClose

type_synonym 'e dstate = "'e Dispatcher \<times> (nat \<times> nat) list"

fun dstep :: "'e dstate \<Rightarrow> 'e dop \<Rightarrow> 'e dstate" where
  "dstep (d, hs) (DSub ty key) =
     (case SubscribeTo d ty key of None \<Rightarrow> (d, hs) | Some (d', g, sub) \<Rightarrow> (d', hs @ [(g, sub)]))"
| "dstep (d, hs) (DPub ty key ev) = (case Publish d ty key ev of Done d' \<Rightarrow> (d', hs) | _ \<Rightarrow> (d, hs))"
| "dstep (d, hs) (DCancel i) = (if i < length hs then (Del d (fst (hs ! i)) (snd (hs ! i)), hs) else (d, hs))"
| "dstep (d, hs) (DSwap c) = (listen Listen_swap d c, hs)"
| "dstep (d, hs) (DHandle c) = (listen Listen_handle d c, hs)"
| "dstep (d, hs) DClose = (Close d, hs)"

text \<open>The hub takes a step only when the dispatcher neither panics nor waits.\<close>

fun hstep :: "'e dstate \<Rightarrow> 'e hub \<Rightarrow> 'e dop \<Rightarrow> 'e hub" where
  "hstep (d, hs) h (DSub ty key) = (if SubscribeTo d ty key = None then h else hub_subscribe h key)"
| "hstep (d, hs) h (DPub ty key ev) =
     (case Publish d ty key ev of Done _ \<Rightarrow> hub_publish h key ev | _ \<Rightarrow> h)"
| "hstep (d, hs) h (DCancel i) = (if i < length hs then hub_cancel h i else h)"
| "hstep (d, hs) h _ = h"

fun drun :: "'e dstate \<Rightarrow> 'e dop list \<Rightarrow> 'e dstate" where
  "drun s [] = s"
| "drun s (x # xs) = drun (dstep s x) xs"

fun hrun :: "'e dstate \<Rightarrow> 'e hub \<Rightarrow> 'e dop list \<Rightarrow> 'e hub" where
  "hrun s h [] = h"
| "hrun s h (x # xs) = hrun (dstep s x) (hstep s h x) xs"

definition disp_ok :: "'e dstate \<Rightarrow> bool" where
  "disp_ok s \<longleftrightarrow> (case s of (d, hs) \<Rightarrow> reg_ok d \<and> length hs = length (consumers d)
     \<and> (\<forall>i < length hs. snd (hs ! i) = i \<and> fst (hs ! i) < length (groups d))
     \<and> (\<forall>g < length (groups d). distinct (subs (groups d ! g))
          \<and> (\<forall>c \<in> set (subs (groups d ! g)). c < length hs \<and> fst (hs ! c) = g))
     \<and> (\<forall>c < length (consumers d). length (queue (consumers d ! c)) \<le> maxQueue d))"

lemma disp_okD:
  assumes "disp_ok (d, hs)"
  shows "reg_ok d" "length hs = length (consumers d)"
    "i < length hs \<Longrightarrow> snd (hs ! i) = i \<and> fst (hs ! i) < length (groups d)"
    "g < length (groups d) \<Longrightarrow> distinct (subs (groups d ! g))"
    "g < length (groups d) \<Longrightarrow> c \<in> set (subs (groups d ! g)) \<Longrightarrow> c < length hs \<and> fst (hs ! c) = g"
    "c < length (consumers d) \<Longrightarrow> length (queue (consumers d ! c)) \<le> maxQueue d"
  using assms by (auto simp: disp_ok_def)

lemma findGroup_index: "reg_ok d \<Longrightarrow> findGroup d x = Some g \<Longrightarrow> g < length (groups d)"
  by (auto simp: findGroup_lookup registered_def reg_ok_def dest!: map_of_SomeD set_zip_rightD)

lemma findGroup_inj:
  assumes "reg_ok d" "findGroup d x = Some g" "findGroup d y = Some g" shows "x = y"
proof -
  have "length (reg_keys d) = length (reg_grps d)" "distinct (reg_grps d)" using assms(1) by (auto simp: reg_ok_def)
  with assms show ?thesis
    by (auto simp: findGroup_lookup registered_def in_set_zip nth_eq_iff_index_eq dest!: map_of_SomeD)
qed

lemma findGroup_cong:
  "reg_keys d' = reg_keys d \<Longrightarrow> reg_grps d' = reg_grps d \<Longrightarrow> findGroup d' x = findGroup d x"
  by (simp add: findGroup_def Let_def)

text \<open>Enqueueing on distinct consumers.\<close>

lemma enqueue_length [simp]: "length (foldl (enqueue ev) cs ss) = length cs"
  by (induction ss arbitrary: cs) (simp_all add: enqueue_def)

lemma enqueue_one:
  "length (enqueue ev cs s) = length cs"
  "s < length cs \<Longrightarrow> enqueue ev cs s ! c = (if c = s then (cs ! s)\<lparr>queue := queue (cs ! s) @ [ev]\<rparr> else cs ! c)"
  by (auto simp: enqueue_def)

lemma enqueue_nth:
  assumes "distinct ss" "set ss \<subseteq> {..<length cs}"
  shows "foldl (enqueue ev) cs ss ! c =
    (if c \<in> set ss then (cs ! c)\<lparr>queue := queue (cs ! c) @ [ev]\<rparr> else cs ! c)"
  using assms
proof (induction ss arbitrary: cs)
  case (Cons s ss)
  have "foldl (enqueue ev) (enqueue ev cs s) ss ! c =
      (if c \<in> set ss then (enqueue ev cs s ! c)\<lparr>queue := queue (enqueue ev cs s ! c) @ [ev]\<rparr>
       else enqueue ev cs s ! c)"
    using Cons.prems by (intro Cons.IH) (auto simp: enqueue_one)
  then show ?case using Cons.prems by (auto simp: enqueue_one)
qed simp

lemma maxQueueLen_ge: "s \<in> set ss \<Longrightarrow> length (queue (consumers d ! s)) \<le> maxQueueLen d ss"
proof -
  have "m \<le> foldl (\<lambda>m s. if length (queue (consumers d ! s)) > m then length (queue (consumers d ! s)) else m) m ss
      \<and> (\<forall>s \<in> set ss. length (queue (consumers d ! s)) \<le>
          foldl (\<lambda>m s. if length (queue (consumers d ! s)) > m then length (queue (consumers d ! s)) else m) m ss)" for m
  proof (induction ss arbitrary: m)
    case (Cons s ss)
    from Cons.IH [of m] Cons.IH [of "length (queue (consumers d ! s))"] show ?case by auto
  qed simp
  then show "s \<in> set ss \<Longrightarrow> ?thesis" by (simp add: maxQueueLen_def)
qed

subsection \<open>Each operation keeps the invariant and does what the hub does\<close>

lemma Add_simps:
  assumes "Add d g = (d', sub)"
  shows "sub = length (consumers d)" "consumers d' = consumers d @ [newConsumer]"
    "groups d' = (groups d)[g := (groups d ! g)\<lparr>subs := subs (groups d ! g) @ [sub]\<rparr>]"
    "reg_keys d' = reg_keys d" "reg_grps d' = reg_grps d" "maxQueue d' = maxQueue d"
  using assms by (auto simp: Add_def Let_def)

lemma new_queue_ok: "queue newConsumer = []" "sent newConsumer = []"
  by (simp_all add: newConsumer_def sent_def)

lemma Add_ok:
  assumes "disp_ok (d, hs)" "g < length (groups d)" "Add d g = (d', sub)"
  shows "disp_ok (d', hs @ [(g, sub)])"
proof -
  note a = Add_simps [OF assms(3)] and o = disp_okD [OF assms(1)]
  have reg: "reg_ok d'" using o(1) by (simp add: reg_ok_def a)
  have grp: "distinct (subs (groups d' ! i)) \<and> (\<forall>c \<in> set (subs (groups d' ! i)).
      c < length (hs @ [(g, sub)]) \<and> fst ((hs @ [(g, sub)]) ! c) = i)" if "i < length (groups d')" for i
  proof -
    have i: "i < length (groups d)" using that by (simp add: a)
    have "sub \<notin> set (subs (groups d ! g))" using o(5) [OF assms(2)] o(2) a(1) by auto
    then show ?thesis
      using o(4) [OF i] o(5) [OF i] o(2) i a(1) by (cases "i = g") (auto simp: a(3) nth_append intro: less_SucI)
  qed
  show ?thesis
    using reg grp o(2,3,6) assms(2) a
    by (auto simp: disp_ok_def nth_append less_Suc_eq new_queue_ok)
qed

lemma hub_of_simps:
  "members (hub_of d) = (\<lambda>key. case findGroup d key of None \<Rightarrow> [] | Some g \<Rightarrow> subs (groups d ! g))"
  "inbox (hub_of d) = (\<lambda>c. if c < length (consumers d) then sent (consumers d ! c) else [])"
  "size (hub_of d) = length (consumers d)"
  by (simp_all add: hub_of_def)

lemma hub_eqI: "members h = members h' \<Longrightarrow> inbox h = inbox h' \<Longrightarrow> size h = size h' \<Longrightarrow> h = (h' :: 'e hub)"
  by (rule hub.equality) simp_all

lemma Add_hub:
  assumes "reg_ok d" "findGroup d key = Some g" "Add d g = (d', sub)"
  shows "hub_of d' = hub_subscribe (hub_of d) key"
proof (rule hub_eqI)
  note a = Add_simps [OF assms(3)]
  have find: "findGroup d' x = findGroup d x" for x by (rule findGroup_cong [OF a(4,5)])
  have g: "g < length (groups d)" by (rule findGroup_index [OF assms(1,2)])
  show "members (hub_of d') = members (hub_subscribe (hub_of d) key)"
  proof
    fix x
    show "members (hub_of d') x = members (hub_subscribe (hub_of d) key) x"
    proof (cases "findGroup d x")
      case None
      with assms(2) have "x \<noteq> key" by auto
      with None show ?thesis by (simp add: hub_of_simps hub_subscribe_def find)
    next
      case (Some j)
      have "x = key \<longleftrightarrow> j = g" using findGroup_inj [OF assms(1) Some, of key] assms(2) Some
        by (cases "x = key") auto
      with Some g show ?thesis
        by (auto simp: hub_of_simps hub_subscribe_def find a(1,3))
    qed
  qed
  show "inbox (hub_of d') = inbox (hub_subscribe (hub_of d) key)"
    by (auto simp: hub_of_simps hub_subscribe_def a nth_append new_queue_ok fun_eq_iff less_Suc_eq)
  show "size (hub_of d') = size (hub_subscribe (hub_of d) key)"
    by (simp add: hub_of_simps hub_subscribe_def a)
qed

text \<open>A registry with a new type: sorted again, and the other types keep their groups.\<close>

definition extend :: "'e Dispatcher \<Rightarrow> string \<Rightarrow> nat \<Rightarrow> 'e Dispatcher" where
  "extend d ty x = (let i = bsearch (reg_keys d) x 0 (length (reg_keys d))
     in d\<lparr>groups := groups d @ [\<lparr>tag = ty, subs = [], maxLen = 0\<rparr>],
          reg_keys := take i (reg_keys d) @ x # drop i (reg_keys d),
          reg_grps := take i (reg_grps d) @ length (groups d) # drop i (reg_grps d)\<rparr>)"

lemma extend_ok:
  assumes "reg_ok d" "findGroup d x = None"
  shows "reg_ok (extend d ty x)"
    and "findGroup (extend d ty x) y = (if y = x then Some (length (groups d)) else findGroup d y)"
proof -
  let ?i = "bsearch (reg_keys d) x 0 (length (reg_keys d))"
  have r: "sorted (reg_keys d)" "distinct (reg_keys d)" "length (reg_grps d) = length (reg_keys d)"
    "distinct (reg_grps d)" "set (reg_grps d) \<subseteq> {..<length (groups d)}"
    using assms(1) by (auto simp: reg_ok_def)
  have x: "x \<notin> set (reg_keys d)"
    using assms r(3) by (simp add: findGroup_lookup registered_def map_of_zip_is_None)
  note ins = insert_sorted [OF r(1) x refl]
  have dist: "distinct (take ?i (reg_keys d) @ x # drop ?i (reg_keys d))"
    using r(2) ins(2,3) by (auto simp: set_take_disj_set_drop_if_distinct dest: less_trans)
  have new: "length (groups d) \<notin> set (reg_grps d)" using r(5) by auto
  have "distinct (take ?i (reg_grps d) @ length (groups d) # drop ?i (reg_grps d))"
    using r(4) new by (auto simp: set_take_disj_set_drop_if_distinct dest: in_set_takeD in_set_dropD)
  moreover have "set (take ?i (reg_grps d) @ length (groups d) # drop ?i (reg_grps d))
      \<subseteq> {..<Suc (length (groups d))}"
    using r(5) by (auto dest!: in_set_takeD in_set_dropD intro: less_SucI)
  ultimately show ok: "reg_ok (extend d ty x)"
    using ins(1) dist r(3) by (simp add: reg_ok_def extend_def Let_def)
  have len: "length (take ?i (reg_keys d)) = length (take ?i (reg_grps d))" using r(3) by simp
  have split: "registered d = zip (take ?i (reg_keys d)) (take ?i (reg_grps d))
      @ zip (drop ?i (reg_keys d)) (drop ?i (reg_grps d))"
    using zip_append [OF len, of "drop ?i (reg_keys d)" "drop ?i (reg_grps d)"]
    by (simp add: registered_def)
  have "registered (extend d ty x) = zip (take ?i (reg_keys d)) (take ?i (reg_grps d))
      @ (x, length (groups d)) # zip (drop ?i (reg_keys d)) (drop ?i (reg_grps d))"
    using zip_append [OF len] by (simp add: registered_def extend_def Let_def)
  moreover have "map_of (zip (take ?i (reg_keys d)) (take ?i (reg_grps d))) x = None"
    using len x by (subst map_of_zip_is_None) (auto dest: in_set_takeD)
  ultimately show "findGroup (extend d ty x) y = (if y = x then Some (length (groups d)) else findGroup d y)"
    unfolding findGroup_lookup [OF ok] findGroup_lookup [OF assms(1)] split
    by (auto simp: map_add_def split: option.splits)
qed

lemma extend_disp_ok:
  assumes "disp_ok (d, hs)" "findGroup d x = None"
  shows "disp_ok (extend d ty x, hs)"
proof -
  note o = disp_okD [OF assms(1)]
  have "distinct (subs (groups (extend d ty x) ! g)) \<and> (\<forall>c \<in> set (subs (groups (extend d ty x) ! g)).
      c < length hs \<and> fst (hs ! c) = g)" if "g < length (groups (extend d ty x))" for g
    using that o(4,5) [of g] by (auto simp: extend_def Let_def nth_append less_Suc_eq)
  then show ?thesis
    using extend_ok(1) [OF o(1) assms(2)] o(2,3,6)
    by (auto simp: disp_ok_def less_SucI) (simp_all add: extend_def Let_def less_SucI)
qed

lemma extend_hub:
  assumes "reg_ok d" "findGroup d x = None"
  shows "hub_of (extend d ty x) = hub_of d"
proof (rule hub_eqI)
  have g: "findGroup d y = Some g \<Longrightarrow> g < length (groups d)" for y g by (rule findGroup_index [OF assms(1)])
  show "members (hub_of (extend d ty x)) = members (hub_of d)"
    using assms(2) g by (auto simp: hub_of_simps extend_ok(2) [OF assms] fun_eq_iff split: option.splits)
      (auto simp: extend_def Let_def nth_append)
qed (auto simp: hub_of_simps extend_def Let_def fun_eq_iff)

lemma Subscribe_new:
  assumes "\<not> closed d" "findGroup d key = None"
  shows "SubscribeTo d ty key = (case Add (extend d ty key) (length (groups d)) of
    (d', sub) \<Rightarrow> Some (d', length (groups d), sub))"
  using assms by (simp add: SubscribeTo_def Let_def Add_def extend_def)

lemma Subscribe_sim:
  assumes "disp_ok (d, hs)" "SubscribeTo d ty key = Some (d', g, sub)"
  shows "disp_ok (d', hs @ [(g, sub)]) \<and> hub_of d' = hub_subscribe (hub_of d) key"
proof (cases "findGroup d key")
  case (Some g')
  note o = disp_okD [OF assms(1)]
  have "Add d g = (d', sub)" "findGroup d key = Some g"
    using assms(2) Some by (auto simp: SubscribeTo_def split: if_splits prod.splits)
  then show ?thesis
    using Add_ok [OF assms(1) findGroup_index [OF o(1)]] Add_hub [OF o(1)] by blast
next
  case None
  note o = disp_okD [OF assms(1)]
  have "\<not> closed d" using assms(2) by (auto simp: SubscribeTo_def)
  from Subscribe_new [OF this None] assms(2)
  have a: "Add (extend d ty key) (length (groups d)) = (d', sub)" and g: "g = length (groups d)"
    by (auto split: prod.splits)
  have ok: "disp_ok (extend d ty key, hs)" by (rule extend_disp_ok [OF assms(1) None])
  have f: "findGroup (extend d ty key) key = Some (length (groups d))"
    using extend_ok(2) [OF o(1) None] by simp
  have len: "length (groups d) < length (groups (extend d ty key))" by (simp add: extend_def Let_def)
  show ?thesis
    using Add_ok [OF ok len a] Add_hub [OF disp_okD(1) [OF ok] f a] extend_hub [OF o(1) None] g by simp
qed

lemma Broadcast_simps:
  assumes "Broadcast d g ev = Some d'"
  shows "consumers d' = foldl (enqueue ev) (consumers d) (subs (groups d ! g))"
    "length (groups d') = length (groups d)"
    "reg_keys d' = reg_keys d" "reg_grps d' = reg_grps d" "maxQueue d' = maxQueue d"
    "maxQueueLen d (subs (groups d ! g)) < maxQueue d"
    "subs (groups d' ! i) = subs (groups d ! i)"
proof -
  obtain m where "groups d' = (groups d)[g := (groups d ! g)\<lparr>maxLen := m\<rparr>]"
    using assms by (auto simp: Broadcast_def Let_def split: if_splits)
  then show "subs (groups d' ! i) = subs (groups d ! i)"
    by (cases "i = g"; cases "g < length (groups d)") (auto simp: list_update_beyond)
qed (use assms in \<open>auto simp: Broadcast_def Let_def split: if_splits\<close>)

lemma Publish_sim:
  assumes "disp_ok (d, hs)" "Publish d ty key ev = Done d'"
  shows "disp_ok (d', hs) \<and> hub_of d' = hub_publish (hub_of d) key ev"
proof (cases "findGroup d key")
  case None
  then show ?thesis using assms
    by (simp add: Publish_def hub_publish_def hub_of_simps)
next
  case (Some g)
  note o = disp_okD [OF assms(1)]
  have g: "g < length (groups d)" by (rule findGroup_index [OF o(1) Some])
  have b: "Broadcast d g ev = Some d'"
    using assms(2) Some by (auto simp: Publish_def split: if_splits option.splits)
  note bs = Broadcast_simps [OF b]
  have ss: "distinct (subs (groups d ! g))" "set (subs (groups d ! g)) \<subseteq> {..<length (consumers d)}"
    using o(4,5) [OF g] o(2) by auto
  note at = enqueue_nth [OF ss, of ev]
  have find: "findGroup d' x = findGroup d x" for x by (rule findGroup_cong [OF bs(3,4)])
  have len: "length (queue (consumers d' ! c)) \<le> maxQueue d'" if "c < length (consumers d')" for c
    using that o(6) [of c] maxQueueLen_ge [of c "subs (groups d ! g)" d] bs(6)
    by (auto simp: bs at Suc_le_eq intro: le_less_trans)
  have reg: "reg_ok d'" using o(1) by (simp add: reg_ok_def bs)
  have "disp_ok (d', hs)"
    using reg len o(2-5) by (simp add: disp_ok_def bs(1,2,7))
  moreover have "hub_of d' = hub_publish (hub_of d) key ev"
  proof (rule hub_eqI)
    show "members (hub_of d') = members (hub_publish (hub_of d) key ev)"
      by (auto simp: hub_of_simps hub_publish_def find bs(7) fun_eq_iff split: option.split)
    show "inbox (hub_of d') = inbox (hub_publish (hub_of d) key ev)"
      using ss(2) by (auto simp: hub_of_simps hub_publish_def Some bs(1) at sent_def fun_eq_iff)
    show "size (hub_of d') = size (hub_publish (hub_of d) key ev)"
      by (simp add: hub_of_simps hub_publish_def bs(1))
  qed
  ultimately show ?thesis ..
qed

lemma Cancel_sim:
  assumes "disp_ok (d, hs)" "i < length hs"
  shows "disp_ok (Del d (fst (hs ! i)) (snd (hs ! i)), hs)
    \<and> hub_of (Del d (fst (hs ! i)) (snd (hs ! i))) = hub_cancel (hub_of d) i"
proof -
  note o = disp_okD [OF assms(1)]
  obtain g where hi: "hs ! i = (g, i)" "g < length (groups d)"
    using o(3) [OF assms(2)] by (metis prod.collapse)
  let ?d = "Del d g i"
  have c: "consumers ?d = (consumers d)[i := (consumers d ! i)\<lparr>stop := True\<rparr>]"
    and grp: "\<And>j. subs (groups ?d ! j) = (if j = g then remove1 i (subs (groups d ! g)) else subs (groups d ! j))"
    and same: "reg_keys ?d = reg_keys d" "reg_grps ?d = reg_grps d" "maxQueue ?d = maxQueue d"
      "length (groups ?d) = length (groups d)"
    using hi(2) by (auto simp: Del_def Let_def)
  have i: "i < length (consumers d)" using assms(2) o(2) by simp
  have find: "findGroup ?d x = findGroup d x" for x by (rule findGroup_cong [OF same(1,2)])
  have other: "i \<notin> set (subs (groups d ! j))" if "j < length (groups d)" "j \<noteq> g" for j
    using o(5) [OF that(1), of i] hi(1) that(2) by auto
  have reg: "reg_ok ?d" using o(1) by (simp add: reg_ok_def same)
  have "disp_ok (?d, hs)"
    using reg o(2-6) i by (auto simp: disp_ok_def same grp c nth_list_update dest: notin_set_remove1 set_remove1_subset [THEN subsetD] split: if_splits)
  moreover have "hub_of ?d = hub_cancel (hub_of d) i"
  proof (rule hub_eqI)
    show "members (hub_of ?d) = members (hub_cancel (hub_of d) i)"
    proof
      fix key
      show "members (hub_of ?d) key = members (hub_cancel (hub_of d) i) key"
      proof (cases "findGroup d key")
        case (Some j)
        have "j < length (groups d)" by (rule findGroup_index [OF o(1) Some])
        with other [OF this] show ?thesis
          by (auto simp: hub_of_simps hub_cancel_def find Some grp remove1_idem)
      qed (simp add: hub_of_simps hub_cancel_def find)
    qed
    show "inbox (hub_of ?d) = inbox (hub_cancel (hub_of d) i)"
      using i by (auto simp: hub_of_simps hub_cancel_def c sent_def nth_list_update fun_eq_iff)
    show "size (hub_of ?d) = size (hub_cancel (hub_of d) i)"
      by (simp add: hub_of_simps hub_cancel_def c)
  qed
  ultimately show ?thesis by (simp add: hi(1))
qed

lemma listen_sim:
  assumes "disp_ok (d, hs)" "\<And>s. sent (step s) = sent s" "\<And>s. length (queue (step s)) \<le> length (queue s)"
  shows "disp_ok (listen step d c, hs) \<and> hub_of (listen step d c) = hub_of d"
proof (cases "c < length (consumers d)")
  case True
  let ?d = "listen step d c"
  note o = disp_okD [OF assms(1)]
  have c: "consumers ?d = (consumers d)[c := step (consumers d ! c)]"
    and same: "groups ?d = groups d" "reg_keys ?d = reg_keys d" "reg_grps ?d = reg_grps d" "maxQueue ?d = maxQueue d"
    using True by (simp_all add: listen_def)
  have find: "findGroup ?d x = findGroup d x" for x by (rule findGroup_cong [OF same(2,3)])
  have "disp_ok (?d, hs)"
    using o True by (auto simp: disp_ok_def reg_ok_def same c nth_list_update intro: order_trans [OF assms(3)])
  moreover have "hub_of ?d = hub_of d"
    by (rule hub_eqI) (use True in \<open>auto simp: hub_of_simps find same c nth_list_update assms(2) fun_eq_iff
        split: option.split\<close>)
  ultimately show ?thesis ..
qed (use assms in \<open>simp add: listen_def\<close>)

lemma Listen_steps:
  "sent (Listen_swap s) = sent s" "length (queue (Listen_swap s)) \<le> length (queue s)"
  "sent (Listen_handle s) = sent s" "length (queue (Listen_handle s)) \<le> length (queue s)"
  by (auto simp: Listen_swap_def Listen_handle_def sent_def split: list.splits)

lemma dstep_sim:
  assumes "disp_ok s"
  shows "disp_ok (dstep s x) \<and> hub_of (fst (dstep s x)) = hstep s (hub_of (fst s)) x"
proof -
  obtain d hs where s: "s = (d, hs)" by force
  with assms have ok: "disp_ok (d, hs)" by simp
  show ?thesis
  proof (cases x)
    case (DSub ty key)
    then show ?thesis using Subscribe_sim [OF ok] ok by (auto simp: s split: option.splits)
  next
    case (DPub ty key ev)
    then show ?thesis using Publish_sim [OF ok] ok by (auto simp: s split: published.splits)
  next
    case (DCancel i)
    then show ?thesis using Cancel_sim [OF ok] ok by (auto simp: s)
  next
    case (DSwap c)
    then show ?thesis using listen_sim [OF ok Listen_steps(1,2)] by (simp add: s)
  next
    case (DHandle c)
    then show ?thesis using listen_sim [OF ok Listen_steps(3,4)] by (simp add: s)
  next
    case DClose
    have "findGroup (Close d) x = findGroup d x" for x by (rule findGroup_cong) (simp_all add: Close_def)
    with DClose ok show ?thesis
      by (simp add: s) (auto simp: disp_ok_def reg_ok_def Close_def hub_of_def fun_eq_iff split: option.split)
  qed
qed

lemma drun_sim:
  "disp_ok s \<Longrightarrow> disp_ok (drun s xs) \<and> hub_of (fst (drun s xs)) = hrun s (hub_of (fst s)) xs"
proof (induction xs arbitrary: s)
  case (Cons x xs)
  from dstep_sim [OF Cons.prems, of x] Cons.IH [of "dstep s x"] show ?case by simp
qed simp

definition fresh :: "nat \<Rightarrow> 'e dstate" where
  "fresh mq = (NewDispatcherConfig mq, [])"

definition emptyHub :: "'e hub" where
  "emptyHub = \<lparr>members = (\<lambda>_. []), inbox = (\<lambda>_. []), size = 0\<rparr>"

lemma fresh_ok: "disp_ok (fresh mq)" "hub_of (fst (fresh mq)) = emptyHub"
  by (simp_all add: fresh_def disp_ok_def reg_ok_def NewDispatcherConfig_def hub_of_def emptyHub_def
      findGroup_def Let_def)

text \<open>
  The registry: after any run of subscriptions, cancellations, publications and listener steps,
  the type array is strictly sorted, as long as the group array, and the lock-free binary search
  returns for every type exactly the group registered for it, or nil when there is none.
\<close>

theorem registry_search_exact:
  "let d = fst (drun (fresh mq) ops) in
     sorted (reg_keys d) \<and> distinct (reg_keys d) \<and> length (reg_grps d) = length (reg_keys d)
   \<and> (\<forall>eventType. findGroup d eventType = map_of (zip (reg_keys d) (reg_grps d)) eventType)"
proof -
  obtain d hs where d: "drun (fresh mq) ops = (d, hs)" by force
  have "reg_ok d" using drun_sim [OF fresh_ok(1), of mq ops] disp_okD(1) [of d hs] d by simp
  then show ?thesis
    using findGroup_lookup [of d] by (simp add: d reg_ok_def registered_def)
qed

text \<open>
  C22. Delivery: the dispatcher implements the publish-subscribe hub. After any interleaving of
  subscriptions, cancellations, publications and listener steps, what each consumer's handler has
  been called with, followed by its batch and its queue, is exactly the list of events published to
  its type while it was subscribed, each once and in order; the current subscribers of each type are
  the hub's; and no queue is longer than the configured maximum.
\<close>

theorem dispatcher_delivers:
  "let d = fst (drun (fresh mq) ops); h = hrun (fresh mq) emptyHub ops in
     size h = length (consumers d)
   \<and> list_all (\<lambda>c. handled (consumers d ! c) @ batch (consumers d ! c) @ queue (consumers d ! c) = inbox h c
        \<and> length (queue (consumers d ! c)) \<le> mq) [0..<length (consumers d)]
   \<and> (\<forall>key. count d key = length (members h key)
      \<and> (case findGroup d key of None \<Rightarrow> members h key = [] | Some g \<Rightarrow> subs (groups d ! g) = members h key))"
proof -
  obtain d hs where d: "drun (fresh mq) ops = (d, hs)" by force
  have ok: "disp_ok (d, hs)" and h: "hub_of d = hrun (fresh mq) emptyHub ops"
    using drun_sim [OF fresh_ok(1), of mq ops] d by (auto simp: fresh_ok(2))
  have mq: "maxQueue (fst (drun s ops)) = maxQueue (fst s)" for s :: "'a dstate"
  proof (induction ops arbitrary: s)
    case (Cons x ops)
    have "maxQueue (fst (dstep s x)) = maxQueue (fst s)"
      by (cases s; cases x) (auto simp: SubscribeTo_def Add_def Publish_def Broadcast_def Let_def Del_def
          listen_def Close_def split: option.splits if_splits)
    with Cons.IH [of "dstep s x"] show ?case by simp
  qed simp
  have "maxQueue d = mq" using mq [of "fresh mq"] d by (simp add: fresh_def NewDispatcherConfig_def)
  then show ?thesis
    unfolding d fst_conv h [symmetric] Let_def
    using disp_okD(6) [OF ok] by (auto simp: hub_of_simps sent_def count_def list_all_iff split: option.split)
qed

lemma Del_stops_receiving:
  "disp_ok (d, hs) \<Longrightarrow> i < length hs \<Longrightarrow>
   members (hub_of (Del d (fst (hs ! i)) (snd (hs ! i)))) key = remove1 i (members (hub_of d) key)"
  using Cancel_sim [of d hs i] by (simp add: hub_cancel_def)

end
