(* ===== verification/Log_Monitor.thy ===== *)
theory Log_Monitor
  imports Event_Dispatcher Go_Strings
begin

section \<open>The log monitor and its circular buffer (proxy/logMonitor.go)\<close>

text \<open>
  A fixed-capacity byte buffer that overwrites its oldest bytes, and the monitor that writes to the
  standard output, keeps the buffer and broadcasts to subscribers. The buffer's contract - its
  history is the last bytes of everything written - is the locale \<open>history_buffer\<close>.
\<close>

record circularBuffer =
  data :: string
  head :: nat
  buf_size :: nat

definition newCircularBuffer :: "nat \<Rightarrow> circularBuffer" where
  "newCircularBuffer capacity = \<lparr>data = replicate capacity (CHR 0x00), head = 0, buf_size = 0\<rparr>"

text \<open>Go's \<open>copy(dst[a:], src)\<close>: as many bytes as fit.\<close>

definition copy_at :: "string \<Rightarrow> nat \<Rightarrow> string \<Rightarrow> string" where
  "copy_at dst a src = take a dst @ take (length dst - a) src @ drop (a + length src) dst"

definition cb_Write :: "circularBuffer \<Rightarrow> string \<Rightarrow> circularBuffer" where
  "cb_Write cb p =
     (if length p = 0 then cb
      else
        let cap = length (data cb) in
        if length p \<ge> cap
        then cb\<lparr>data := copy_at (data cb) 0 (drop (length p - cap) p), head := 0, buf_size := cap\<rparr>
        else
          let firstPart = cap - head cb;
              cb1 = (if firstPart \<ge> length p
                     then cb\<lparr>data := copy_at (data cb) (head cb) p, head := (head cb + length p) mod cap\<rparr>
                     else cb\<lparr>data := copy_at (copy_at (data cb) (head cb) (take firstPart p)) 0 (drop firstPart p),
                             head := length p - firstPart\<rparr>);
              cb2 = cb1\<lparr>buf_size := buf_size cb1 + length p\<rparr>
          in if buf_size cb2 > cap then cb2\<lparr>buf_size := cap\<rparr> else cb2)"

definition cb_GetHistory :: "circularBuffer \<Rightarrow> string" where
  "cb_GetHistory cb =
     (if buf_size cb = 0 then []
      else
        let cap = length (data cb);
            start = (head cb + cap - buf_size cb) mod cap
        in if start + buf_size cb \<le> cap then take (buf_size cb) (drop start (data cb))
           else let firstPart = cap - start
                in drop start (data cb) @ take (buf_size cb - firstPart) (data cb))"

subsection \<open>The buffer's contract\<close>

definition last_n :: "nat \<Rightarrow> 'a list \<Rightarrow> 'a list" where
  "last_n n xs = drop (length xs - n) xs"

lemma last_n_append: "last_n n (last_n n xs @ ys) = last_n n (xs @ ys)"
proof (cases "length xs \<le> n")
  case False
  have e: "drop (length xs - n) xs @ ys = drop (length xs - n) (xs @ ys)" by simp
  show ?thesis
    using False unfolding last_n_def e drop_drop by (simp add: add.commute)
qed (simp add: last_n_def)

locale history_buffer =
  fixes empty :: "nat \<Rightarrow> 'b"
    and put_bytes :: "'b \<Rightarrow> string \<Rightarrow> 'b"
    and history :: "'b \<Rightarrow> string"
    and wf :: "nat \<Rightarrow> 'b \<Rightarrow> bool"
  assumes empty_wf: "0 < n \<Longrightarrow> wf n (empty n)"
    and empty_history: "0 < n \<Longrightarrow> history (empty n) = []"
    and write_wf: "wf n b \<Longrightarrow> wf n (put_bytes b p)"
    and write_history: "wf n b \<Longrightarrow> history (put_bytes b p) = last_n n (history b @ p)"
    and history_bound: "wf n b \<Longrightarrow> length (history b) \<le> n"
begin

lemma writes_wf: "wf n b \<Longrightarrow> wf n (foldl put_bytes b ps)"
  by (induction ps arbitrary: b) (simp_all add: write_wf)

lemma writes_history:
  assumes "wf n b" shows "history (foldl put_bytes b ps) = last_n n (history b @ concat ps)"
  using assms
proof (induction ps arbitrary: b)
  case Nil
  then show ?case using history_bound [of n b] by (simp add: last_n_def)
next
  case (Cons p ps)
  from Cons.IH [OF write_wf [OF Cons.prems]] write_history [OF Cons.prems, of p] show ?case
    by (simp add: last_n_append)
qed

end

definition cb_ok :: "nat \<Rightarrow> circularBuffer \<Rightarrow> bool" where
  "cb_ok n cb \<longleftrightarrow> 0 < n \<and> length (data cb) = n \<and> head cb < n \<and> buf_size cb \<le> n"

lemma wrap_mod: "a < n \<Longrightarrow> i < n \<Longrightarrow> (a + i) mod n = (if a + i < n then a + i else a + i - n)"
  for a i n :: nat
  by (simp add: le_mod_geq)

text \<open>The stored bytes by position: the \<open>i\<close>-th oldest.\<close>

definition byte_at :: "circularBuffer \<Rightarrow> nat \<Rightarrow> char" where
  "byte_at cb i = data cb ! ((head cb + length (data cb) - buf_size cb + i) mod length (data cb))"

lemma copy_at_length [simp]: "a \<le> length dst \<Longrightarrow> length (copy_at dst a src) = length dst"
  by (simp add: copy_at_def)

lemma copy_at_nth:
  "a \<le> length dst \<Longrightarrow> j < length dst \<Longrightarrow>
   copy_at dst a src ! j = (if a \<le> j \<and> j < a + length src then src ! (j - a) else dst ! j)"
  by (auto simp: copy_at_def nth_append min_def)

lemma GetHistory_nth:
  assumes "cb_ok n cb"
  shows "cb_GetHistory cb = map (byte_at cb) [0..<buf_size cb]"
proof (cases "buf_size cb = 0")
  case False
  have ok: "0 < n" "length (data cb) = n" "head cb < n" "buf_size cb \<le> n"
    using assms by (auto simp: cb_ok_def)
  define st where "st = (head cb + n - buf_size cb) mod n"
  have st: "st < n" using ok(1) by (simp add: st_def)
  have at: "byte_at cb i = data cb ! (if st + i < n then st + i else st + i - n)" if "i < n" for i
  proof -
    have "(head cb + n - buf_size cb + i) mod n = (st + i) mod n" by (simp add: st_def mod_add_left_eq)
    also have "\<dots> = (if st + i < n then st + i else st + i - n)" using st that by (rule wrap_mod)
    finally show ?thesis using ok(2) by (simp add: byte_at_def)
  qed
  have hist: "cb_GetHistory cb = (if st + buf_size cb \<le> n then take (buf_size cb) (drop st (data cb))
      else drop st (data cb) @ take (buf_size cb - (n - st)) (data cb))"
    using False ok(2) by (simp add: cb_GetHistory_def Let_def st_def)
  show ?thesis
  proof (cases "st + buf_size cb \<le> n")
    case True
    show ?thesis by (rule nth_equalityI) (use True ok at st in \<open>auto simp: hist\<close>)
  next
    case wrap: False
    have le: "i < buf_size cb \<Longrightarrow> \<not> i < n - st \<Longrightarrow> i - (n - st) < buf_size cb - (n - st) \<and> i - (n - st) = st + i - n" for i
      using st by auto
    show ?thesis
      by (rule nth_equalityI) (use wrap ok at st le in \<open>auto simp: hist nth_append\<close>)
  qed
qed (simp add: cb_GetHistory_def)

text \<open>A write that fits: where its bytes go, and that no other byte moves.\<close>

lemma Write_small:
  assumes "cb_ok n cb" "0 < length p" "length p < n"
  shows "head (cb_Write cb p) = (head cb + length p) mod n"
    "buf_size (cb_Write cb p) = min n (buf_size cb + length p)"
    "length (data (cb_Write cb p)) = n"
    "k < n \<Longrightarrow> data (cb_Write cb p) ! ((head cb + k) mod n) =
       (if k < length p then p ! k else data cb ! ((head cb + k) mod n))"
proof -
  have ok: "0 < n" "length (data cb) = n" "head cb < n" "buf_size cb \<le> n"
    using assms(1) by (auto simp: cb_ok_def)
  have wrap: "(head cb + k) mod n = (if head cb + k < n then head cb + k else head cb + k - n)" if "k < n" for k
    using ok(3) that by (rule wrap_mod)
  show "head (cb_Write cb p) = (head cb + length p) mod n"
    using assms(2,3) ok wrap [OF assms(3)] by (auto simp: cb_Write_def Let_def)
  show "buf_size (cb_Write cb p) = min n (buf_size cb + length p)" "length (data (cb_Write cb p)) = n"
    using assms(2,3) ok by (auto simp: cb_Write_def Let_def)
  show "data (cb_Write cb p) ! ((head cb + k) mod n) =
       (if k < length p then p ! k else data cb ! ((head cb + k) mod n))" if k: "k < n"
    using assms(2,3) ok k wrap [OF k]
    by (auto simp: cb_Write_def Let_def copy_at_nth nth_append)
qed

lemma Write_ok: "cb_ok n cb \<Longrightarrow> cb_ok n (cb_Write cb p)"
proof -
  assume a: "cb_ok n cb"
  consider "length p = 0" | "0 < length p" "length p < n" | "0 < length p" "n \<le> length p" by linarith
  then show ?thesis
  proof cases
    case 2
    then show ?thesis using a Write_small(1-3) [OF a 2] by (simp add: cb_ok_def)
  qed (use a in \<open>auto simp: cb_ok_def cb_Write_def Let_def\<close>)
qed

lemma Write_history:
  assumes "cb_ok n cb"
  shows "cb_GetHistory (cb_Write cb p) = last_n n (cb_GetHistory cb @ p)"
proof -
  have ok: "0 < n" "length (data cb) = n" "head cb < n" "buf_size cb \<le> n"
    using assms by (auto simp: cb_ok_def)
  have len: "length (cb_GetHistory cb) = buf_size cb" by (simp add: GetHistory_nth [OF assms])
  consider "length p = 0" | (small) "0 < length p" "length p < n" | (big) "0 < length p" "n \<le> length p" by linarith
  then show ?thesis
  proof cases
    case 1
    then show ?thesis using len ok(4) by (simp add: cb_Write_def last_n_def)
  next
    case big
    have "cb_Write cb p = cb\<lparr>data := drop (length p - n) p, head := 0, buf_size := n\<rparr>"
      using big ok(2) by (simp add: cb_Write_def copy_at_def Let_def)
    moreover have "last_n n (cb_GetHistory cb @ p) = drop (length p - n) p"
      using big len ok(4) by (simp add: last_n_def)
    ultimately show ?thesis using big ok(1) by (simp add: cb_GetHistory_def Let_def)
  next
    case small
    let ?cb = "cb_Write cb p" and ?s = "buf_size cb" and ?l = "length p"
    note w = Write_small [OF assms small]
    have at: "byte_at ?cb i = (cb_GetHistory cb @ p) ! (?s + ?l - buf_size ?cb + i)"
      if i: "i < buf_size ?cb" for i
    proof (cases "buf_size ?cb - ?l \<le> i")
      case True
      then have "(head ?cb + n - buf_size ?cb + i) mod n = (head cb + (i + ?l - buf_size ?cb)) mod n"
        using w(2) small ok i
      proof -
        have "head ?cb + n - buf_size ?cb + i = head ?cb + (n + i - buf_size ?cb)" using w(2) by simp
        also have "\<dots> mod n = (head cb + ?l + (n + i - buf_size ?cb)) mod n" by (simp add: w(1) mod_add_left_eq)
        also have "head cb + ?l + (n + i - buf_size ?cb) = head cb + (i + ?l - buf_size ?cb) + n"
          using True w(2) small(2) by (simp add: min_def)
        finally show ?thesis by simp
      qed
      moreover have "i + ?l - buf_size ?cb < ?l" "i + ?l - buf_size ?cb < n"
        using i small True by linarith+
      ultimately have "byte_at ?cb i = p ! (i + ?l - buf_size ?cb)"
        using w(4) [of "i + ?l - buf_size ?cb"] by (simp add: byte_at_def w(3))
      moreover have "?s + ?l - buf_size ?cb + i = ?s + (i + ?l - buf_size ?cb)"
        using True w(2) by (auto simp: min_def)
      ultimately show ?thesis by (simp add: nth_append len)
    next
      case False
      let ?k = "n - buf_size ?cb + ?l + i"
      have k: "?l \<le> ?k" "?k < n" using False w(2) ok(1) by (auto simp: min_def)
      have "head ?cb + n - buf_size ?cb + i = head ?cb + (n - buf_size ?cb + i)" using w(2) by simp
      also have "\<dots> mod n = (head cb + ?l + (n - buf_size ?cb + i)) mod n" by (simp add: w(1) mod_add_left_eq)
      also have "head cb + ?l + (n - buf_size ?cb + i) = head cb + ?k" by simp
      finally have "(head ?cb + n - buf_size ?cb + i) mod n = (head cb + ?k) mod n" .
      then have "byte_at ?cb i = data cb ! ((head cb + ?k) mod n)"
        using w(4) [of ?k] k by (simp add: byte_at_def w(3))
      also have "(head cb + ?k) mod n = (head cb + n - ?s + (?s + ?l - buf_size ?cb + i)) mod n"
        using w(2) ok(4) False by (auto simp: min_def algebra_simps)
      finally have b: "byte_at ?cb i = byte_at cb (?s + ?l - buf_size ?cb + i)"
        by (simp add: byte_at_def ok(2))
      have "?s + ?l - buf_size ?cb + i < ?s" using False w(2) by (auto simp: min_def)
      with b show ?thesis by (simp add: nth_append len) (simp add: GetHistory_nth [OF assms])
    qed
    have ok': "cb_ok n ?cb" by (rule Write_ok [OF assms])
    show ?thesis
    proof (rule nth_equalityI)
      show "length (cb_GetHistory ?cb) = length (last_n n (cb_GetHistory cb @ p))"
        using w(2) len small by (simp add: GetHistory_nth [OF ok'] last_n_def min_def)
      fix i assume "i < length (cb_GetHistory ?cb)"
      then have i: "i < buf_size ?cb" by (simp add: GetHistory_nth [OF ok'])
      have "?s + ?l - buf_size ?cb = ?s + ?l - n" using w(2) by (auto simp: min_def)
      with at [OF i] i len show "cb_GetHistory ?cb ! i = last_n n (cb_GetHistory cb @ p) ! i"
        by (simp add: GetHistory_nth [OF ok'] last_n_def del: drop_append)
    qed
  qed
qed

interpretation ring: history_buffer newCircularBuffer cb_Write cb_GetHistory cb_ok
proof
  fix n and b :: circularBuffer and p
  show "0 < n \<Longrightarrow> cb_ok n (newCircularBuffer n)" by (simp add: cb_ok_def newCircularBuffer_def)
  show "0 < n \<Longrightarrow> cb_GetHistory (newCircularBuffer n) = []" by (simp add: cb_GetHistory_def newCircularBuffer_def)
  show "cb_ok n b \<Longrightarrow> cb_ok n (cb_Write b p)" by (rule Write_ok)
  show "cb_ok n b \<Longrightarrow> cb_GetHistory (cb_Write b p) = last_n n (cb_GetHistory b @ p)" by (rule Write_history)
  show "cb_ok n b \<Longrightarrow> length (cb_GetHistory b) \<le> n" using GetHistory_nth [of n b] by (simp add: cb_ok_def)
qed

subsection \<open>The monitor\<close>

definition LevelDebug :: int where "LevelDebug = 0"
definition LevelInfo :: int where "LevelInfo = 1"
definition LevelWarn :: int where "LevelWarn = 2"
definition LevelError :: int where "LevelError = 3"

definition LogBufferSize :: nat where
  "LogBufferSize = 100 * 1024"

definition LogDataEventID :: nat where
  "LogDataEventID = 4"

definition LogLevel_String :: "int \<Rightarrow> string" where
  "LogLevel_String l =
     (if l = LevelDebug then ''DEBUG'' else if l = LevelInfo then ''INFO''
      else if l = LevelWarn then ''WARN'' else if l = LevelError then ''ERROR'' else ''UNKNOWN'')"

text \<open>\<open>stdout\<close> is what has been written to it.\<close>

record LogMonitor =
  eventbus :: "string Dispatcher"
  buffer :: "circularBuffer option"
  stdout :: string
  level :: int
  prefix :: string
  timeFormat :: string

definition NewLogMonitorWriter :: LogMonitor where
  "NewLogMonitorWriter = \<lparr>eventbus = NewDispatcherConfig 1000, buffer = None, stdout = [],
     level = LevelInfo, prefix = [], timeFormat = []\<rparr>"

definition lm_broadcast :: "LogMonitor \<Rightarrow> string \<Rightarrow> LogMonitor option" where
  "lm_broadcast w msg =
     (case Publish (eventbus w) ''LogDataEvent'' LogDataEventID msg of
        Done d \<Rightarrow> Some (w\<lparr>eventbus := d\<rparr>) | _ \<Rightarrow> None)"

text \<open>
  \<open>out\<close> is what the writer returns: the bytes written and whether it fails. The result is the
  count and the error, or \<open>None\<close> while the broadcast waits for a slow subscriber.
\<close>

definition lm_Write :: "LogMonitor \<Rightarrow> nat \<times> bool \<Rightarrow> string \<Rightarrow> LogMonitor \<times> (nat \<times> bool) option" where
  "lm_Write w out p =
     (if length p = 0 then (w, Some (0, False))
      else case out of (n, err) \<Rightarrow>
        let w = w\<lparr>stdout := stdout w @ take n p\<rparr>
        in if err then (w, Some (n, True))
           else
             let b = (case buffer w of None \<Rightarrow> newCircularBuffer LogBufferSize | Some b \<Rightarrow> b);
                 w = w\<lparr>buffer := Some (cb_Write b p)\<rparr>
             in (case lm_broadcast w p of None \<Rightarrow> (w, None) | Some w' \<Rightarrow> (w', Some (n, False))))"

definition lm_GetHistory :: "LogMonitor \<Rightarrow> string" where
  "lm_GetHistory w = (case buffer w of None \<Rightarrow> [] | Some b \<Rightarrow> cb_GetHistory b)"

definition lm_Clear :: "LogMonitor \<Rightarrow> LogMonitor" where
  "lm_Clear w = w\<lparr>buffer := None\<rparr>"

definition lm_OnLogData :: "LogMonitor \<Rightarrow> (LogMonitor \<times> nat \<times> nat) option" where
  "lm_OnLogData w =
     map_option (\<lambda>(d, handle). (w\<lparr>eventbus := d\<rparr>, handle)) (SubscribeTo (eventbus w) ''LogDataEvent'' LogDataEventID)"

definition SetPrefix :: "LogMonitor \<Rightarrow> string \<Rightarrow> LogMonitor" where
  "SetPrefix w p = w\<lparr>prefix := p\<rparr>"

definition SetLogLevel :: "LogMonitor \<Rightarrow> int \<Rightarrow> LogMonitor" where
  "SetLogLevel w l = w\<lparr>level := l\<rparr>"

definition SetLogTimeFormat :: "LogMonitor \<Rightarrow> string \<Rightarrow> LogMonitor" where
  "SetLogTimeFormat w f = w\<lparr>timeFormat := f\<rparr>"

text \<open>\<open>now\<close> is the current time in the monitor's format.\<close>

definition formatMessage :: "LogMonitor \<Rightarrow> string \<Rightarrow> string \<Rightarrow> string \<Rightarrow> string" where
  "formatMessage w now lvl msg =
     (let pre = (if prefix w \<noteq> [] then ''['' @ prefix w @ ''] '' else []);
          timestamp = (if timeFormat w \<noteq> [] then now @ '' '' else [])
      in timestamp @ pre @ ''['' @ lvl @ ''] '' @ msg @ [CHR 0x0A])"

definition lm_log :: "LogMonitor \<Rightarrow> nat \<times> bool \<Rightarrow> string \<Rightarrow> int \<Rightarrow> string \<Rightarrow> LogMonitor" where
  "lm_log w out now lvl msg =
     (if lvl < level w then w else fst (lm_Write w out (formatMessage w now (LogLevel_String lvl) msg)))"

text \<open>The calls by level; \<open>Debugf\<close> and its like format the message first.\<close>

definition lm_Debug :: "LogMonitor \<Rightarrow> nat \<times> bool \<Rightarrow> string \<Rightarrow> string \<Rightarrow> LogMonitor" where
  "lm_Debug w out now msg = lm_log w out now LevelDebug msg"

definition lm_Info :: "LogMonitor \<Rightarrow> nat \<times> bool \<Rightarrow> string \<Rightarrow> string \<Rightarrow> LogMonitor" where
  "lm_Info w out now msg = lm_log w out now LevelInfo msg"

definition lm_Warn :: "LogMonitor \<Rightarrow> nat \<times> bool \<Rightarrow> string \<Rightarrow> string \<Rightarrow> LogMonitor" where
  "lm_Warn w out now msg = lm_log w out now LevelWarn msg"

definition lm_Error :: "LogMonitor \<Rightarrow> nat \<times> bool \<Rightarrow> string \<Rightarrow> string \<Rightarrow> LogMonitor" where
  "lm_Error w out now msg = lm_log w out now LevelError msg"

text \<open>Below the configured level nothing is written.\<close>

lemma level_filters:
  "lm_Debug (SetLogLevel w LevelInfo) out now msg = SetLogLevel w LevelInfo"
  "lm_Info (SetLogLevel w LevelWarn) out now msg = SetLogLevel w LevelWarn"
  "lm_Warn (SetLogLevel w LevelError) out now msg = SetLogLevel w LevelError"
  by (simp_all add: lm_Debug_def lm_Info_def lm_Warn_def lm_log_def SetLogLevel_def
      LevelDebug_def LevelInfo_def LevelWarn_def LevelError_def)

datatype lm_op =
    LWrite "nat \<times> bool" string
  | LLog "nat \<times> bool" string int string
  | LClear | LSetPrefix string | LSetLevel int | LSetFormat string | LOnData

fun lm_do :: "LogMonitor \<Rightarrow> lm_op \<Rightarrow> LogMonitor" where
  "lm_do w (LWrite out p) = fst (lm_Write w out p)"
| "lm_do w (LLog out now lvl msg) = lm_log w out now lvl msg"
| "lm_do w LClear = lm_Clear w"
| "lm_do w (LSetPrefix p) = SetPrefix w p"
| "lm_do w (LSetLevel l) = SetLogLevel w l"
| "lm_do w (LSetFormat f) = SetLogTimeFormat w f"
| "lm_do w LOnData = (case lm_OnLogData w of None \<Rightarrow> w | Some (w', _) \<Rightarrow> w')"

fun lm_run :: "LogMonitor \<Rightarrow> lm_op list \<Rightarrow> LogMonitor" where
  "lm_run w [] = w"
| "lm_run w (x # xs) = lm_run (lm_do w x) xs"

text \<open>The bytes a run has put into the log since it was last cleared, \<open>acc\<close> before it.\<close>

fun logged :: "LogMonitor \<Rightarrow> string \<Rightarrow> lm_op list \<Rightarrow> string" where
  "logged w acc [] = acc"
| "logged w acc (x # xs) =
     logged (lm_do w x)
       (case x of
          LWrite (n, err) p \<Rightarrow> if err then acc else acc @ p
        | LLog (n, err) now lvl msg \<Rightarrow>
            if err \<or> lvl < level w then acc else acc @ formatMessage w now (LogLevel_String lvl) msg
        | LClear \<Rightarrow> []
        | _ \<Rightarrow> acc) xs"

definition lm_ok :: "LogMonitor \<Rightarrow> bool" where
  "lm_ok w \<longleftrightarrow> (case buffer w of None \<Rightarrow> True | Some b \<Rightarrow> cb_ok LogBufferSize b)"

lemma last_n_nil [simp]: "last_n n [] = []"
  by (simp add: last_n_def)

lemma LogBufferSize_pos: "0 < LogBufferSize"
  by (simp add: LogBufferSize_def)

lemma lm_Write_history:
  assumes "lm_ok w"
  shows "lm_ok (fst (lm_Write w (n, err) p))"
    and "lm_GetHistory (fst (lm_Write w (n, err) p)) =
      (if err then lm_GetHistory w else last_n LogBufferSize (lm_GetHistory w @ p))"
proof -
  have b: "buffer (fst (lm_Write w (n, err) p)) =
      (if err \<or> p = [] then buffer w
       else Some (cb_Write (case buffer w of None \<Rightarrow> newCircularBuffer LogBufferSize | Some b \<Rightarrow> b) p))"
    by (auto simp: lm_Write_def lm_broadcast_def Let_def split: option.splits published.splits)
  show "lm_ok (fst (lm_Write w (n, err) p))"
    using assms ring.write_wf ring.empty_wf [OF LogBufferSize_pos]
    by (auto simp: lm_ok_def b split: option.splits)
  have keep: "last_n LogBufferSize (lm_GetHistory w) = lm_GetHistory w"
    using assms ring.history_bound by (auto simp: lm_ok_def lm_GetHistory_def last_n_def split: option.splits)
  show "lm_GetHistory (fst (lm_Write w (n, err) p)) =
      (if err then lm_GetHistory w else last_n LogBufferSize (lm_GetHistory w @ p))"
  proof (cases "p = []")
    case True
    then show ?thesis using keep by (simp add: lm_Write_def)
  next
    case False
    show ?thesis
      using assms False ring.write_history ring.empty_wf [OF LogBufferSize_pos]
        ring.empty_history [OF LogBufferSize_pos]
      by (auto simp: lm_GetHistory_def b lm_ok_def split: option.splits)
  qed
qed

lemma lm_run_history:
  "lm_ok w \<Longrightarrow> lm_GetHistory w = last_n LogBufferSize acc \<Longrightarrow>
   lm_GetHistory (lm_run w ops) = last_n LogBufferSize (logged w acc ops)"
proof (induction ops arbitrary: w acc)
  case (Cons x ops)
  have same: "lm_ok (w'::LogMonitor) = lm_ok w \<and> lm_GetHistory w' = lm_GetHistory w"
    if "buffer w' = buffer w" for w' using that by (simp add: lm_ok_def lm_GetHistory_def)
  show ?case
  proof (cases x)
    case (LWrite out p)
    then show ?thesis
      using lm_Write_history [OF Cons.prems(1), of "fst out" "snd out" p] Cons
      by (cases out) (auto simp: last_n_append)
  next
    case (LLog out now lvl msg)
    then show ?thesis
      using lm_Write_history [OF Cons.prems(1), of "fst out" "snd out" "formatMessage w now (LogLevel_String lvl) msg"] Cons
      by (cases out) (auto simp: last_n_append lm_log_def)
  next
    case LClear
    then show ?thesis using Cons by (simp add: lm_Clear_def lm_ok_def lm_GetHistory_def)
  next
    case (LSetPrefix p)
    then show ?thesis using Cons same [of "SetPrefix w p"] by (simp add: SetPrefix_def)
  next
    case (LSetLevel l)
    then show ?thesis using Cons same [of "SetLogLevel w l"] by (simp add: SetLogLevel_def)
  next
    case (LSetFormat f)
    then show ?thesis using Cons same [of "SetLogTimeFormat w f"] by (simp add: SetLogTimeFormat_def)
  next
    case LOnData
    have "buffer (lm_do w LOnData) = buffer w"
      by (auto simp: lm_OnLogData_def split: option.splits)
    from same [OF this] show ?thesis using Cons LOnData by simp
  qed
qed simp

text \<open>
  C23. The history: after any run of writes, log calls, clears, subscriptions and setting changes,
  the history of a fresh monitor is exactly the last 102400 bytes of what was put into the log since
  the last clear, in order - a log call below the level and a write the output refused put in
  nothing.
\<close>

theorem history_last_bytes:
  "lm_GetHistory (lm_run NewLogMonitorWriter ops) =
     drop (length (logged NewLogMonitorWriter [] ops) - 102400) (logged NewLogMonitorWriter [] ops)"
proof -
  have "lm_ok NewLogMonitorWriter" "lm_GetHistory NewLogMonitorWriter = last_n LogBufferSize []"
    by (simp_all add: NewLogMonitorWriter_def lm_ok_def lm_GetHistory_def)
  from lm_run_history [OF this, of ops] show ?thesis by (simp add: last_n_def LogBufferSize_def)
qed

end
