(* ===== verification/Config_Macros.thy ===== *)
theory Config_Macros
  imports Go_Strings
begin

section \<open>Macros in the configuration (proxy/config/config.go)\<close>

text \<open>
  Values of the configuration (Go's \<open>any\<close> after YAML decoding), the macro list, validation of
  macros, substitution in nested values, the scan for macros left over, environment macros, and the
  cleaning of command strings. The regular expressions are written as scanners: both match a
  bracketed word whose characters exclude the brackets, so the leftmost match is the one at the first
  position where the whole pattern fits. A float is represented by its printed text, since the code
  only prints it. The YAML round trip that strips comments and the shell splitter are third-party
  packages and arguments.
\<close>

datatype any =
    VNil | VBool bool | VInt int | VFloat string | VStr string | VList "any list" | VMap "(string \<times> any) list"

record MacroEntry =
  m_Name :: string
  m_Value :: any

type_synonym MacroList = "MacroEntry list"

subsection \<open>Printing values\<close>

fun digits :: "nat \<Rightarrow> string" where
  "digits n = (if n < 10 then [char_of (48 + n)] else digits (n div 10) @ [char_of (48 + n mod 10)])"

declare digits.simps [simp del]

definition itoa :: "int \<Rightarrow> string" where
  "itoa i = (if i < 0 then CHR ''-'' # digits (nat (- i)) else digits (nat i))"

text \<open>\<open>fmt.Sprintf("%v", value)\<close>; a map is printed with its keys in order.\<close>

fun print_any :: "any \<Rightarrow> string" where
  "print_any VNil = ''<nil>''"
| "print_any (VBool b) = (if b then ''true'' else ''false'')"
| "print_any (VInt i) = itoa i"
| "print_any (VFloat s) = s"
| "print_any (VStr s) = s"
| "print_any (VList vs) = ''['' @ Join (map print_any vs) '' '' @ '']''"
| "print_any (VMap kvs) = ''map['' @ Join (map snd (sort_key fst
     (map (\<lambda>kv. (fst kv, fst kv @ '':'' @ print_any (snd kv))) kvs))) '' '' @ '']''"

definition slug :: "string \<Rightarrow> string" where
  "slug name = ''${'' @ name @ ''}''"

subsection \<open>Macro lists\<close>

fun MacroList_Get :: "MacroList \<Rightarrow> string \<Rightarrow> any option" where
  "MacroList_Get [] name = None"
| "MacroList_Get (e # ml) name = (if m_Name e = name then Some (m_Value e) else MacroList_Get ml name)"

definition MacroList_ToMap :: "MacroList \<Rightarrow> string \<rightharpoonup> any" where
  "MacroList_ToMap ml = foldl (\<lambda>m e. m(m_Name e \<mapsto> m_Value e)) Map.empty ml"

text \<open>A mapping node's alternating key and value nodes, decoded by the YAML package.\<close>

fun MacroList_UnmarshalYAML ::
  "('n \<Rightarrow> string option) \<Rightarrow> ('n \<Rightarrow> any option) \<Rightarrow> 'n list \<Rightarrow> MacroList option" where
  "MacroList_UnmarshalYAML decodeKey decodeVal (k # v # content) =
     (case decodeKey k of None \<Rightarrow> None
      | Some name \<Rightarrow> (case decodeVal v of None \<Rightarrow> None
        | Some val \<Rightarrow> map_option (Cons \<lparr>m_Name = name, m_Value = val\<rparr>)
                        (MacroList_UnmarshalYAML decodeKey decodeVal content)))"
| "MacroList_UnmarshalYAML decodeKey decodeVal _ = Some []"

subsection \<open>Scanning for macros\<close>

definition is_alpha :: "char \<Rightarrow> bool" where
  "is_alpha c \<longleftrightarrow> (let n = (of_char c :: nat) in 65 \<le> n \<and> n \<le> 90 \<or> 97 \<le> n \<and> n \<le> 122)"

definition is_digit :: "char \<Rightarrow> bool" where
  "is_digit c \<longleftrightarrow> (let n = (of_char c :: nat) in 48 \<le> n \<and> n \<le> 57)"

definition macro_char :: "char \<Rightarrow> bool" where
  "macro_char c \<longleftrightarrow> is_alpha c \<or> is_digit c \<or> c = CHR ''_'' \<or> c = CHR ''-''"

definition macroNameRegex :: "string \<Rightarrow> bool" where
  "macroNameRegex s \<longleftrightarrow> s \<noteq> [] \<and> list_all macro_char s"

text \<open>A pattern at the start of a string: the word and the rest.\<close>

definition match_word :: "string \<Rightarrow> (char \<Rightarrow> bool) \<Rightarrow> (string \<Rightarrow> bool) \<Rightarrow> string \<Rightarrow> (string \<times> string) option" where
  "match_word opener wordchar wordok s =
     (if HasPrefix s opener then
        let t = drop (length opener) s; w = takeWhile wordchar t; r = dropWhile wordchar t
        in if w \<noteq> [] \<and> wordok w \<and> r \<noteq> [] \<and> hd r = CHR ''}'' then Some (w, tl r) else None
      else None)"

definition macro_at :: "string \<Rightarrow> (string \<times> string) option" where
  "macro_at s = match_word ''${'' macro_char (\<lambda>_. True) s"

definition env_at :: "string \<Rightarrow> (string \<times> string) option" where
  "env_at s = match_word ''${env.'' (\<lambda>c. is_alpha c \<or> is_digit c \<or> c = CHR ''_'')
     (\<lambda>w. \<not> is_digit (hd w)) s"

lemma match_word_shorter:
  assumes "match_word opener P Q s = Some (w, r)" shows "length r < length s"
proof -
  let ?t = "drop (length opener) s"
  have "dropWhile P ?t \<noteq> []" "r = tl (dropWhile P ?t)"
    using assms by (auto simp: match_word_def Let_def split: if_splits)
  then have "length r < length (dropWhile P ?t)" by simp
  also have "\<dots> \<le> length ?t" by (rule length_dropWhile_le)
  also have "\<dots> \<le> length s" by simp
  finally show ?thesis .
qed

text \<open>\<open>FindAllStringSubmatch(s, -1)\<close>: the words of all matches, left to right.\<close>

function find_all :: "(string \<Rightarrow> (string \<times> string) option) \<Rightarrow> string \<Rightarrow> string list" where
  "find_all at s =
     (case s of [] \<Rightarrow> []
      | c # cs \<Rightarrow>
          (case at s of
             Some (w, r) \<Rightarrow> if length r < length s then w # find_all at r else [w]
           | None \<Rightarrow> find_all at cs))"
  by pat_completeness auto
termination
  by (relation "measure (\<lambda>(_, s). length s)") auto

declare find_all.simps [simp del]

definition macro_names :: "string \<Rightarrow> string list" where
  "macro_names s = find_all macro_at s"

definition env_names :: "string \<Rightarrow> string list" where
  "env_names s = find_all env_at s"

subsection \<open>Validation\<close>

datatype macro_error =
    NameTooLong string | InvalidName string | ValueTooLong string | SelfReference string
  | NotScalar string | Reserved string

definition validateMacro :: "string \<Rightarrow> any \<Rightarrow> macro_error option" where
  "validateMacro name value =
     (if length name \<ge> 64 then Some (NameTooLong name)
      else if \<not> macroNameRegex name then Some (InvalidName name)
      else
        let scalar = (case value of
            VStr v \<Rightarrow> if length v \<ge> 1024 then Some (ValueTooLong name)
                      else if Contains v (slug name) then Some (SelfReference name) else None
          | VInt _ \<Rightarrow> None | VFloat _ \<Rightarrow> None | VBool _ \<Rightarrow> None
          | _ \<Rightarrow> Some (NotScalar name))
        in if scalar \<noteq> None then scalar
           else if name = ''PORT'' \<or> name = ''MODEL_ID'' then Some (Reserved name) else None)"

datatype unknown_macro = UnknownMacro string | EnvNotSet string

fun first_error :: "'e option list \<Rightarrow> 'e option" where
  "first_error [] = None"
| "first_error (Some e # es) = Some e"
| "first_error (None # es) = first_error es"

text \<open>\<open>None\<close>: nothing left over. The error's context is the caller's.\<close>

fun validateNested :: "any \<Rightarrow> unknown_macro option" where
  "validateNested (VStr v) =
     (case macro_names v of m # _ \<Rightarrow> Some (UnknownMacro m)
      | [] \<Rightarrow> (case env_names v of e # _ \<Rightarrow> Some (EnvNotSet e) | [] \<Rightarrow> None))"
| "validateNested (VMap kvs) = first_error (map (\<lambda>kv. validateNested (snd kv)) kvs)"
| "validateNested (VList vs) = first_error (map validateNested vs)"
| "validateNested _ = None"

fun substituteMacroInValue :: "any \<Rightarrow> string \<Rightarrow> any \<Rightarrow> any" where
  "substituteMacroInValue (VStr v) macroName macroValue =
     (if v = slug macroName then macroValue
      else if Contains v (slug macroName)
      then VStr (ReplaceAll v (slug macroName) (print_any macroValue))
      else VStr v)"
| "substituteMacroInValue (VMap kvs) macroName macroValue =
     VMap (map (\<lambda>kv. (fst kv, substituteMacroInValue (snd kv) macroName macroValue)) kvs)"
| "substituteMacroInValue (VList vs) macroName macroValue =
     VList (map (\<lambda>v. substituteMacroInValue v macroName macroValue) vs)"
| "substituteMacroInValue v macroName macroValue = v"

subsection \<open>Environment macros\<close>

datatype env_error = NotSet string | BadValue string

definition sanitizeEnvValueForYAML :: "string \<Rightarrow> string \<Rightarrow> env_error + string" where
  "sanitizeEnvValueForYAML value varName =
     (if list_ex (\<lambda>c. c = CHR 0x0A \<or> c = CHR 0x0D \<or> c = CHR 0x00) value then Inl (BadValue varName)
      else
        let value = ReplaceAll value [CHR 0x5C] [CHR 0x5C, CHR 0x5C]
        in Inr (ReplaceAll value [CHR 0x22] [CHR 0x5C, CHR 0x22]))"

fun substitute_envs :: "(string \<rightharpoonup> string) \<Rightarrow> string list \<Rightarrow> string \<Rightarrow> env_error + string" where
  "substitute_envs env [] result = Inr result"
| "substitute_envs env (varName # names) result =
     (case env varName of
        None \<Rightarrow> Inl (NotSet varName)
      | Some value \<Rightarrow>
          (case sanitizeEnvValueForYAML value varName of
             Inl e \<Rightarrow> Inl e
           | Inr value \<Rightarrow>
               substitute_envs env names (ReplaceAll result (''${env.'' @ varName @ ''}'') value)))"

definition substituteEnvMacrosInString ::
  "(string \<rightharpoonup> string) \<Rightarrow> string \<Rightarrow> string \<Rightarrow> env_error + string" where
  "substituteEnvMacrosInString env target scanStr = substitute_envs env (env_names scanStr) target"

text \<open>\<open>clean\<close> is the YAML package's unmarshal-marshal round trip, \<open>None\<close> when either fails.\<close>

definition substituteEnvMacros ::
  "(string \<Rightarrow> string option) \<Rightarrow> (string \<rightharpoonup> string) \<Rightarrow> string \<Rightarrow> env_error + string" where
  "substituteEnvMacros clean env s =
     (case clean s of
        None \<Rightarrow> substituteEnvMacrosInString env s s
      | Some cleaned \<Rightarrow> substituteEnvMacrosInString env s cleaned)"

subsection \<open>Commands\<close>

definition StripComments :: "string \<Rightarrow> string" where
  "StripComments cmdStr =
     Join (filter (\<lambda>line. \<not> HasPrefix (TrimSpace line) ''#'') (Split cmdStr (CHR 0x0A))) [CHR 0x0A]"

fun clean_line :: "string \<Rightarrow> string list" where
  "clean_line line =
     (let trimmed = TrimSpace line in
      if HasPrefix trimmed ''#'' then []
      else if HasSuffix trimmed [CHR 0x5C] then [TrimSuffix trimmed [CHR 0x5C] @ '' '']
      else [line])"

text \<open>\<open>shlexSplit\<close> is the splitter of the platform; \<open>None\<close> is the error of an empty command.\<close>

definition SanitizeCommand :: "(string \<Rightarrow> string list) \<Rightarrow> string \<Rightarrow> string list option" where
  "SanitizeCommand shlexSplit cmdStr =
     (let args = shlexSplit (Join (concat (map clean_line (Split cmdStr (CHR 0x0A)))) [CHR 0x0A])
      in if args = [] then None else Some args)"

subsection \<open>The scanners find every reference\<close>

lemma match_word_iff:
  assumes "\<not> P (CHR ''}'')"
  shows "match_word opener P Q s \<noteq> None \<longleftrightarrow>
    (\<exists>w b. s = opener @ w @ CHR ''}'' # b \<and> w \<noteq> [] \<and> list_all P w \<and> Q w)"
proof
  assume "match_word opener P Q s \<noteq> None"
  then have m: "HasPrefix s opener" "takeWhile P (drop (length opener) s) \<noteq> []"
    "Q (takeWhile P (drop (length opener) s))" "dropWhile P (drop (length opener) s) \<noteq> []"
    "hd (dropWhile P (drop (length opener) s)) = CHR ''}''"
    by (auto simp: match_word_def Let_def split: if_splits)
  let ?t = "drop (length opener) s"
  have "s = opener @ ?t" using m(1) by (metis HasPrefix_def append_take_drop_id)
  moreover have "?t = takeWhile P ?t @ CHR ''}'' # tl (dropWhile P ?t)"
    using m(4,5) by (metis list.collapse takeWhile_dropWhile_id)
  moreover have "list_all P (takeWhile P ?t)" by (auto simp: list_all_iff dest: set_takeWhileD)
  ultimately show "\<exists>w b. s = opener @ w @ CHR ''}'' # b \<and> w \<noteq> [] \<and> list_all P w \<and> Q w"
    using m(2,3) by metis
next
  assume "\<exists>w b. s = opener @ w @ CHR ''}'' # b \<and> w \<noteq> [] \<and> list_all P w \<and> Q w"
  then obtain w b where s: "s = opener @ w @ CHR ''}'' # b" "w \<noteq> []" "list_all P w" "Q w" by blast
  have "takeWhile P (w @ CHR ''}'' # b) = w" "dropWhile P (w @ CHR ''}'' # b) = CHR ''}'' # b"
    using s(3) assms by (simp_all add: list_all_iff takeWhile_append2 dropWhile_append2)
  then show "match_word opener P Q s \<noteq> None"
    using s assms by (simp add: match_word_def HasPrefix_def Let_def)
qed

lemma find_all_Nil:
  assumes "\<And>s w r. at s = Some (w, r) \<Longrightarrow> s \<noteq> []"
  shows "find_all at s = [] \<longleftrightarrow> (\<forall>a t. s = a @ t \<longrightarrow> at t = None)"
proof (induction s)
  case Nil
  have "at [] = None" using assms [of "[]"] by (cases "at []") auto
  then show ?case by (simp add: find_all.simps)
next
  case (Cons c s)
  show ?case
  proof (cases "at (c # s)")
    case None
    have "(\<forall>a t. c # s = a @ t \<longrightarrow> at t = None) \<longleftrightarrow> (\<forall>a t. s = a @ t \<longrightarrow> at t = None)"
      using None by (metis append_Cons append_Nil append_eq_Cons_conv)
    with Cons None show ?thesis by (subst find_all.simps) simp
  next
    case (Some wr)
    then have "find_all at (c # s) \<noteq> []" by (subst find_all.simps) (auto split: prod.splits)
    moreover have "\<not> (\<forall>a t. c # s = a @ t \<longrightarrow> at t = None)" using Some by (metis append_Nil option.distinct(1))
    ultimately show ?thesis by blast
  qed
qed

lemma word_scan_Nil:
  assumes "\<not> P (CHR ''}'')" "\<And>s. at s = match_word opener P Q s"
  shows "find_all at s = [] \<longleftrightarrow>
    (\<forall>w. w \<noteq> [] \<and> list_all P w \<and> Q w \<longrightarrow> \<not> Contains s (opener @ w @ ''}''))"
proof -
  have ne: "at s = Some (w, r) \<Longrightarrow> s \<noteq> []" for s w r
    using match_word_shorter [of opener P Q s w r] assms(2) by auto
  have "find_all at s = [] \<longleftrightarrow> (\<forall>a t. s = a @ t \<longrightarrow> match_word opener P Q t = None)"
    by (subst find_all_Nil, erule ne) (simp add: assms(2))
  also have "\<dots> \<longleftrightarrow> (\<forall>a w b. s = a @ opener @ w @ CHR ''}'' # b \<longrightarrow> \<not> (w \<noteq> [] \<and> list_all P w \<and> Q w))"
    using match_word_iff [of P opener Q, OF assms(1)] by (metis (no_types))
  also have "\<dots> \<longleftrightarrow> (\<forall>w. w \<noteq> [] \<and> list_all P w \<and> Q w \<longrightarrow> \<not> Contains s (opener @ w @ ''}''))"
    by (auto simp: Contains_iff)
  finally show ?thesis .
qed

lemma not_macro_char: "\<not> macro_char (CHR ''}'')" "\<not> (is_alpha (CHR ''}'') \<or> is_digit (CHR ''}'') \<or> CHR ''}'' = CHR ''_'')"
  by (simp_all add: macro_char_def is_alpha_def is_digit_def)

lemma macro_names_Nil:
  "macro_names s = [] \<longleftrightarrow> (\<forall>name. macroNameRegex name \<longrightarrow> \<not> Contains s (slug name))"
  unfolding macro_names_def
  by (subst word_scan_Nil [where at = macro_at and P = macro_char, OF not_macro_char(1)], rule macro_at_def)
    (auto simp: macroNameRegex_def slug_def)

definition envNameRegex :: "string \<Rightarrow> bool" where
  "envNameRegex w \<longleftrightarrow> w \<noteq> [] \<and> list_all (\<lambda>c. is_alpha c \<or> is_digit c \<or> c = CHR ''_'') w \<and> \<not> is_digit (hd w)"

lemma env_names_Nil:
  "env_names s = [] \<longleftrightarrow> (\<forall>name. envNameRegex name \<longrightarrow> \<not> Contains s (''${env.'' @ name @ ''}''))"
  unfolding env_names_def
  by (subst word_scan_Nil [where at = env_at and P = "\<lambda>c. is_alpha c \<or> is_digit c \<or> c = CHR ''_''",
        OF not_macro_char(2)], rule env_at_def)
    (auto simp: envNameRegex_def)

text \<open>All strings of a nested value.\<close>

fun strings_of :: "any \<Rightarrow> string list" where
  "strings_of (VStr v) = [v]"
| "strings_of (VMap kvs) = concat (map (\<lambda>kv. strings_of (snd kv)) kvs)"
| "strings_of (VList vs) = concat (map strings_of vs)"
| "strings_of _ = []"

lemma first_error_None: "first_error es = None \<longleftrightarrow> set es \<subseteq> {None}"
  by (induction es rule: first_error.induct) auto

lemma validateNested_None:
  "validateNested v = None \<longleftrightarrow> (\<forall>s \<in> set (strings_of v). macro_names s = [] \<and> env_names s = [])"
  by (induction v rule: validateNested.induct)
    (auto simp: first_error_None subset_iff image_iff split: list.splits)

text \<open>
  A nested value (metadata, \<open>setParams\<close>) passes validation exactly when none of its strings, at
  any depth, still holds a macro or environment reference anywhere: no bracketed name of the macro
  alphabet and no bracketed environment variable.
\<close>

theorem validateNested_complete:
  "validateNested v = None \<longleftrightarrow>
     list_all (\<lambda>s. (\<forall>name. macroNameRegex name \<longrightarrow> \<not> Contains s (''${'' @ name @ ''}''))
       \<and> (\<forall>name. envNameRegex name \<longrightarrow> \<not> Contains s (''${env.'' @ name @ ''}''))) (strings_of v)"
  by (simp add: validateNested_None macro_names_Nil env_names_Nil list_all_iff slug_def)

theorem validateNested_complete_witness:
  "validateNested (VMap [(''a'', VList [VStr ''x${b-1}'', VInt 3])]) = Some (UnknownMacro ''b-1'')
   \<and> \<not> list_all (\<lambda>s. (\<forall>name. macroNameRegex name \<longrightarrow> \<not> Contains s (''${'' @ name @ ''}''))
       \<and> (\<forall>name. envNameRegex name \<longrightarrow> \<not> Contains s (''${env.'' @ name @ ''}'')))
       (strings_of (VMap [(''a'', VList [VStr ''x${b-1}'', VInt 3])]))"
proof -
  have "validateNested (VMap [(''a'', VList [VStr ''x${b-1}'', VInt 3])]) = Some (UnknownMacro ''b-1'')"
    by code_simp
  then show ?thesis
    using validateNested_complete [of "VMap [(''a'', VList [VStr ''x${b-1}'', VInt 3])]"]
    by (simp only: option.distinct simp_thms)
qed

subsection \<open>Environment values survive quoting\<close>

lemma ReplaceAll_char: "ReplaceAll s [c] new = concat (map (\<lambda>x. if x = c then new else [x]) s)"
proof (induction s)
  case (Cons x s)
  then show ?case by (subst ReplaceAll.simps) (auto simp: HasPrefix_def)
qed (simp add: ReplaceAll.simps)

text \<open>
  Reading the inside of a double-quoted YAML scalar, as far as the two escapes the code writes: a
  bare quote would end it (\<open>None\<close>), a backslash takes the next character literally.
\<close>

fun dequote :: "string \<Rightarrow> string option" where
  "dequote [] = Some []"
| "dequote (c # s) =
     (if c = CHR 0x22 then None
      else if c = CHR 0x5C
      then (case s of
              [] \<Rightarrow> None
            | d # s' \<Rightarrow> if d = CHR 0x22 \<or> d = CHR 0x5C then map_option (Cons d) (dequote s') else None)
      else map_option (Cons c) (dequote s))"

definition quote_char :: "char \<Rightarrow> string" where
  "quote_char c = (if c = CHR 0x22 \<or> c = CHR 0x5C then [CHR 0x5C, c] else [c])"

lemma sanitize_quotes:
  "ReplaceAll (ReplaceAll v [CHR 0x5C] [CHR 0x5C, CHR 0x5C]) [CHR 0x22] [CHR 0x5C, CHR 0x22]
     = concat (map quote_char v)"
  by (induction v) (simp_all add: ReplaceAll_char quote_char_def)

lemma dequote_quote: "dequote (concat (map quote_char v)) = Some v"
  by (induction v) (simp_all add: quote_char_def)

text \<open>
  An environment value survives substitution: it is refused exactly when it holds a newline, a
  carriage return or a null byte, and otherwise the text put into the YAML source, read inside
  double quotes, gives back exactly the value - no quote in it can end the scalar early.
\<close>

theorem env_value_roundtrip:
  "case sanitizeEnvValueForYAML value varName of
     Inl e \<Rightarrow> e = BadValue varName \<and> (CHR 0x0A \<in> set value \<or> CHR 0x0D \<in> set value \<or> CHR 0x00 \<in> set value)
   | Inr text \<Rightarrow> dequote text = Some value \<and> CHR 0x0A \<notin> set value \<and> CHR 0x0D \<notin> set value \<and> CHR 0x00 \<notin> set value"
  by (auto simp: sanitizeEnvValueForYAML_def Let_def sanitize_quotes dequote_quote list_ex_iff)

subsection \<open>Comments\<close>

lemma Split_Join:
  assumes "ws \<noteq> []" "\<And>w. w \<in> set ws \<Longrightarrow> c \<notin> set w"
  shows "Split (Join ws [c]) c = ws"
  using assms
proof (induction ws "[c]" rule: Join.induct)
  case (3 w v ws)
  then show ?case using Split_append_sep [of c w "Join (v # ws) [c]"] by simp
qed (auto simp: Split_no_occ)

lemma StripComments_lines:
  assumes "filter (\<lambda>line. \<not> HasPrefix (TrimSpace line) ''#'') (Split s (CHR 0x0A)) \<noteq> []"
  shows "Split (StripComments s) (CHR 0x0A) = filter (\<lambda>line. \<not> HasPrefix (TrimSpace line) ''#'') (Split s (CHR 0x0A))"
  unfolding StripComments_def by (rule Split_Join [OF assms]) (auto dest: Split_no_sep)

end
