(* ===== verification/Config_Filters.thy ===== *)
theory Config_Filters
  imports Config_Macros
begin

section \<open>Request filters, peers and model defaults (proxy/config)\<close>

text \<open>
  \<open>filters.go\<close>, \<open>peer.go\<close> and \<open>model_config.go\<close>: what a filter strips and sets, the defaults of a
  decoded model, and the checks of a decoded peer. \<open>UnmarshalYAML\<close> hands the defaults to the YAML
  package, so the decoder is a function from the defaults to the decoded record or an error. The
  \<open>SetParams\<close> map is an association list in the order one \<open>range\<close> loop visits it.
\<close>

definition ProtectedParams :: "string list" where
  "ProtectedParams = [''model'']"

record Filters =
  StripParams :: string
  SetParams :: "(string \<times> any) list"

text \<open>The loop over the split parameters: the names kept so far, in order.\<close>

fun strip_loop :: "string list \<Rightarrow> string list \<Rightarrow> string list" where
  "strip_loop cleaned [] = cleaned"
| "strip_loop cleaned (param # params) =
     (let trimmed = TrimSpace param in
      if trimmed \<in> set ProtectedParams \<or> trimmed = [] \<or> trimmed \<in> set cleaned
      then strip_loop cleaned params
      else strip_loop (cleaned @ [trimmed]) params)"

definition SanitizedStripParams :: "Filters \<Rightarrow> string list" where
  "SanitizedStripParams f =
     (if StripParams f = [] then []
      else sort (strip_loop [] (Split (StripParams f) (CHR '',''))))"

definition SanitizedSetParams :: "Filters \<Rightarrow> (string \<rightharpoonup> any) \<times> string list" where
  "SanitizedSetParams f =
     (if length (SetParams f) = 0 then (Map.empty, [])
      else
        let kept = filter (\<lambda>kv. fst kv \<notin> set ProtectedParams) (SetParams f)
        in (foldl (\<lambda>m kv. m(fst kv \<mapsto> snd kv)) Map.empty kept, sort (map fst kept)))"

subsection \<open>Models\<close>

record ModelConfig =
  Cmd :: string
  CmdStop :: string
  Proxy :: string
  Aliases :: "string list"
  Env :: "string list"
  CheckEndpoint :: string
  UnloadAfter :: int
  Unlisted :: bool
  UseModelName :: string
  Name :: string
  Description :: string
  ConcurrencyLimit :: int
  ModelFilters :: Filters
  ModelMacros :: MacroList
  Metadata :: "(string \<times> any) list"
  SendLoadingState :: "bool option"

definition modelDefaults :: "bool \<Rightarrow> ModelConfig" where
  "modelDefaults windows = \<lparr>Cmd = [], CmdStop = (if windows then ''taskkill /f /t /pid ${PID}'' else []),
     Proxy = ''http://localhost:${PORT}'', Aliases = [], Env = [], CheckEndpoint = ''/health'',
     UnloadAfter = 0, Unlisted = False, UseModelName = [], Name = [], Description = [],
     ConcurrencyLimit = 0, ModelFilters = \<lparr>StripParams = [], SetParams = []\<rparr>, ModelMacros = [],
     Metadata = [], SendLoadingState = None\<rparr>"

definition ModelConfig_UnmarshalYAML :: "bool \<Rightarrow> (ModelConfig \<Rightarrow> ModelConfig option) \<Rightarrow> ModelConfig option" where
  "ModelConfig_UnmarshalYAML windows unmarshal = unmarshal (modelDefaults windows)"

definition ModelConfig_SanitizedCommand :: "(string \<Rightarrow> string list) \<Rightarrow> ModelConfig \<Rightarrow> string list option" where
  "ModelConfig_SanitizedCommand shlexSplit m = SanitizeCommand shlexSplit (Cmd m)"

text \<open>The second argument decodes the legacy field \<open>strip_params\<close>.\<close>

definition ModelFilters_UnmarshalYAML ::
  "(Filters \<Rightarrow> Filters option) \<Rightarrow> string option \<Rightarrow> Filters option" where
  "ModelFilters_UnmarshalYAML unmarshal legacy =
     (case unmarshal \<lparr>StripParams = [], SetParams = []\<rparr> of
        None \<Rightarrow> None
      | Some d \<Rightarrow>
          if StripParams d = [] then map_option (\<lambda>l. d\<lparr>StripParams := l\<rparr>) legacy else Some d)"

subsection \<open>Peers\<close>

record PeerModality =
  mod_Input :: "string list"
  mod_Output :: "string list"

record PeerConfig =
  peer_Proxy :: string
  peer_ApiKey :: string
  peer_Models :: "string list"
  peer_Filters :: Filters
  peer_Modalities :: "(string \<times> PeerModality) list"

datatype peer_error =
    PeerDecode | ProxyRequired | InvalidURL string | NoModels | NotListed string | EmptyModality string

definition peerDefaults :: PeerConfig where
  "peerDefaults = \<lparr>peer_Proxy = [], peer_ApiKey = [], peer_Models = [],
     peer_Filters = \<lparr>StripParams = [], SetParams = []\<rparr>, peer_Modalities = []\<rparr>"

fun checkModalities :: "string list \<Rightarrow> (string \<times> PeerModality) list \<Rightarrow> peer_error option" where
  "checkModalities models [] = None"
| "checkModalities models ((model, md) # rest) =
     (if model \<notin> set models then Some (NotListed model)
      else if mod_Input md = [] \<and> mod_Output md = [] then Some (EmptyModality model)
      else checkModalities models rest)"

text \<open>\<open>urlOK\<close> is \<open>url.Parse\<close> without an error.\<close>

definition PeerConfig_UnmarshalYAML ::
  "(string \<Rightarrow> bool) \<Rightarrow> (PeerConfig \<Rightarrow> PeerConfig option) \<Rightarrow> peer_error + PeerConfig" where
  "PeerConfig_UnmarshalYAML urlOK unmarshal =
     (case unmarshal peerDefaults of
        None \<Rightarrow> Inl PeerDecode
      | Some d \<Rightarrow>
          if peer_Proxy d = [] then Inl ProxyRequired
          else if \<not> urlOK (peer_Proxy d) then Inl (InvalidURL (peer_Proxy d))
          else if length (peer_Models d) = 0 then Inl NoModels
          else (case checkModalities (peer_Models d) (peer_Modalities d) of
                  Some e \<Rightarrow> Inl e | None \<Rightarrow> Inr d))"

subsection \<open>What a filter strips and sets\<close>

lemma strip_loop_spec:
  "distinct cleaned \<Longrightarrow> distinct (strip_loop cleaned ps)
   \<and> set (strip_loop cleaned ps) = set cleaned \<union> {w. w \<in> TrimSpace ` set ps \<and> w \<noteq> [] \<and> w \<notin> set ProtectedParams}"
proof (induction cleaned ps rule: strip_loop.induct)
  case (2 cleaned param params)
  then show ?case by (cases "TrimSpace param \<in> set ProtectedParams \<or> TrimSpace param = [] \<or> TrimSpace param \<in> set cleaned")
      (auto simp: Let_def)
qed simp

text \<open>
  The \<open>model\<close> parameter is out of a filter's reach: the list of stripped parameters is sorted
  and free of duplicates and holds exactly the trimmed non-empty parts of the configured list other
  than \<open>model\<close>; and the parameters that are set are exactly the configured ones other than \<open>model\<close>,
  with their keys sorted, in whatever order the configuration map is visited.
\<close>

theorem filters_protect_model:
  assumes "distinct (map fst (SetParams f))"
  shows "sorted (SanitizedStripParams f) \<and> distinct (SanitizedStripParams f)
    \<and> set (SanitizedStripParams f)
        = {w. w \<in> TrimSpace ` set (Split (StripParams f) (CHR '','')) \<and> w \<noteq> [] \<and> w \<noteq> ''model''}
    \<and> (case SanitizedSetParams f of (result, keys) \<Rightarrow>
         sorted keys \<and> distinct keys \<and> set keys = dom result
       \<and> result = (map_of (SetParams f))(''model'' := None))"
proof -
  have strip: "sorted (SanitizedStripParams f) \<and> distinct (SanitizedStripParams f)
    \<and> set (SanitizedStripParams f)
        = {w. w \<in> TrimSpace ` set (Split (StripParams f) (CHR '','')) \<and> w \<noteq> [] \<and> w \<noteq> ''model''}"
    using strip_loop_spec [of "[]" "Split (StripParams f) (CHR '','')"]
    by (auto simp: SanitizedStripParams_def ProtectedParams_def)
  let ?kept = "filter (\<lambda>kv. fst kv \<notin> set ProtectedParams) (SetParams f)"
  have d: "distinct (akeys ?kept)" using assms akeys_filter_distinct by (simp add: akeys_def)
  have m: "map_of ?kept = (map_of (SetParams f))(''model'' := None)"
    using map_of_filter_key [of "\<lambda>k. k \<noteq> ''model''" "SetParams f"] by (auto simp: ProtectedParams_def)
  then have kept: "foldl (\<lambda>m kv. m(fst kv \<mapsto> snd kv)) Map.empty ?kept = (map_of (SetParams f))(''model'' := None)"
    using map_of_rev_distinct [OF d] by (simp add: foldl_upd_map_of fun_eq_iff)
  have dom: "set (map fst ?kept) = dom ((map_of (SetParams f))(''model'' := None))"
    unfolding m [symmetric] by (simp add: dom_map_of_conv_image_fst)
  show ?thesis
  proof (cases "SetParams f = []")
    case True
    with strip show ?thesis by (simp add: SanitizedSetParams_def)
  next
    case False
    then have e: "SanitizedSetParams f = ((map_of (SetParams f))(''model'' := None), sort (map fst ?kept))"
      by (simp add: SanitizedSetParams_def Let_def kept)
    show ?thesis
      using strip d dom unfolding e by (simp add: akeys_def)
  qed
qed

theorem filters_protect_model_witness:
  "SanitizedStripParams \<lparr>StripParams = '' top_k,model, a,top_k'', SetParams = [(''x'', VInt 1), (''model'', VNil)]\<rparr>
     = [''a'', ''top_k'']
   \<and> ''model'' \<notin> set (snd (SanitizedSetParams
        \<lparr>StripParams = '' top_k,model, a,top_k'', SetParams = [(''x'', VInt 1), (''model'', VNil)]\<rparr>))"
proof -
  let ?f = "\<lparr>StripParams = '' top_k,model, a,top_k'', SetParams = [(''x'', VInt 1), (''model'', VNil)]\<rparr>"
  have "SanitizedStripParams ?f = [''a'', ''top_k'']" by code_simp
  moreover have "distinct (map fst (SetParams ?f))" by simp
  from filters_protect_model [OF this]
  have "''model'' \<notin> set (snd (SanitizedSetParams ?f))" by (auto split: prod.splits)
  ultimately show ?thesis by simp
qed

subsection \<open>Peers\<close>

lemma checkModalities_None:
  "checkModalities models ms = None \<longleftrightarrow>
    (\<forall>(m, md) \<in> set ms. m \<in> set models \<and> (mod_Input md \<noteq> [] \<or> mod_Output md \<noteq> []))"
  by (induction models ms rule: checkModalities.induct) auto

lemma PeerConfig_accepted:
  assumes "PeerConfig_UnmarshalYAML urlOK unmarshal = Inr c"
  shows "peer_Proxy c \<noteq> [] \<and> urlOK (peer_Proxy c) \<and> peer_Models c \<noteq> []
    \<and> (\<forall>(m, md) \<in> set (peer_Modalities c). m \<in> set (peer_Models c) \<and> (mod_Input md \<noteq> [] \<or> mod_Output md \<noteq> []))"
  using assms checkModalities_None [of "peer_Models c" "peer_Modalities c"]
  by (auto simp: PeerConfig_UnmarshalYAML_def split: option.splits if_splits)

end
