(* ===== verification/Config_Load.thy ===== *)
theory Config_Load
  imports Config_Filters Price_Book
begin

section \<open>Loading the configuration (proxy/config/config.go)\<close>

text \<open>
  \<open>LoadConfigFromReader\<close> phase by phase, with every early return as an error value, the default
  group, and the lookup of model names. The maps the code ranges over (models, groups, peers,
  credit rates) are association lists in the order of one such loop; the model loop itself sorts the
  ids first. The YAML decoder is the argument \<open>unmarshal\<close>, from the defaults and the text to the
  decoded record; \<open>urlOK\<close> is \<open>url.Parse\<close> without an error.
\<close>

record GroupConfig =
  Swap :: bool
  Exclusive :: bool
  Persistent :: bool
  Members :: "string list"

definition groupDefaults :: GroupConfig where
  "groupDefaults = \<lparr>Swap = True, Exclusive = True, Persistent = False, Members = []\<rparr>"

definition GroupConfig_UnmarshalYAML :: "(GroupConfig \<Rightarrow> GroupConfig option) \<Rightarrow> GroupConfig option" where
  "GroupConfig_UnmarshalYAML unmarshal = unmarshal groupDefaults"

record PeerAffinityConfig =
  aff_Enabled :: bool
  aff_Bonus :: int
  aff_SessionHeaders :: "string list"
  aff_MinBodyBytes :: int
  aff_KeyCompletions :: bool

record Config =
  HealthCheckTimeout :: int
  LogRequests :: bool
  LogLevel :: string
  LogTimeFormat :: string
  LogToStdout :: string
  MetricsMaxInMemory :: int
  Models :: "(string \<times> ModelConfig) list"
  Profiles :: "(string \<times> string list) list"
  Groups :: "(string \<times> GroupConfig) list"
  Macros :: MacroList
  aliases :: "string \<rightharpoonup> string"
  StartPort :: int
  Preload :: "string list"
  cfg_SendLoadingState :: bool
  IncludeAliasesInList :: bool
  RequiredAPIKeys :: "string list"
  APIKeyLabels :: "string \<rightharpoonup> string"
  UsagePath :: string
  UsageReaders :: "string list"
  RateLimitPerMin :: int
  RateLimitOverrides :: "string \<rightharpoonup> int"
  MaxInflightPerPeer :: int
  MaxFormBodyBytes :: int
  PeerAffinity :: PeerAffinityConfig
  QueueTimeout :: string
  DebitLogPath :: string
  DebitLogBufSize :: int
  CreditRates :: "(string \<times> CreditRate) list"
  CreditGateEnforce :: bool
  CreditGateCanaryFailOpen :: bool
  Peers :: "(string \<times> PeerConfig) list"

datatype load_error =
    EnvError env_error | YamlError | StartPortTooSmall | BadLogToStdout
  | DuplicateAlias string string | MacroError macro_error | ModelMacroError string macro_error
  | PortNotInCmd string | NotSubstituted string string string | UnknownMacroIn string string string
  | MetadataError string unknown_macro | InvalidProxy string
  | DuplicateMember string string | MemberInTwoGroups string string string
  | EmptyAPIKey | SpaceInAPIKey string | BadCreditRate string
  | PeerMacro string string string | PeerSetParams string unknown_macro

subsection \<open>Results with errors\<close>

definition bind_err :: "'e + 'a \<Rightarrow> ('a \<Rightarrow> 'e + 'b) \<Rightarrow> 'e + 'b" where
  "bind_err r f = (case r of Inl e \<Rightarrow> Inl e | Inr x \<Rightarrow> f x)"

fun fold_err :: "('a \<Rightarrow> 's \<Rightarrow> 'e + 's) \<Rightarrow> 'a list \<Rightarrow> 's \<Rightarrow> 'e + 's" where
  "fold_err f [] s = Inr s"
| "fold_err f (x # xs) s = bind_err (f x s) (fold_err f xs)"

lemma bind_err_Inr [simp]: "bind_err r f = Inr y \<longleftrightarrow> (\<exists>x. r = Inr x \<and> f x = Inr y)"
  by (simp add: bind_err_def split: sum.split)

lemma fold_err_inv:
  assumes "fold_err f xs s = Inr s'" "I s" "\<And>x s s'. x \<in> set xs \<Longrightarrow> I s \<Longrightarrow> f x s = Inr s' \<Longrightarrow> I s'"
  shows "I s'"
  using assms
proof (induction xs arbitrary: s)
  case (Cons x xs)
  then obtain s1 where s1: "f x s = Inr s1" "fold_err f xs s1 = Inr s'" by auto
  have "I s1" using Cons.prems(2,3) s1(1) by (meson list.set_intros(1))
  from Cons.IH [OF s1(2) this] Cons.prems(3) show ?case by (meson list.set_intros(2))
qed simp

subsection \<open>Names\<close>

definition RealModelName :: "Config \<Rightarrow> string \<Rightarrow> string option" where
  "RealModelName c search =
     (case map_of (Models c) search of
        Some _ \<Rightarrow> Some search
      | None \<Rightarrow> (case aliases c search of Some name \<Rightarrow> Some name | None \<Rightarrow> None))"

definition FindConfig :: "Config \<Rightarrow> string \<Rightarrow> (ModelConfig option \<times> string) option" where
  "FindConfig c modelName =
     (case RealModelName c modelName of
        None \<Rightarrow> None | Some realName \<Rightarrow> Some (map_of (Models c) realName, realName))"

text \<open>The loop that fills the alias map.\<close>

definition add_alias :: "string \<Rightarrow> string \<Rightarrow> (string \<rightharpoonup> string) \<Rightarrow> load_error + (string \<rightharpoonup> string)" where
  "add_alias modelName alias m =
     (if m alias \<noteq> None then Inl (DuplicateAlias alias modelName) else Inr (m(alias \<mapsto> modelName)))"

definition fill_aliases :: "(string \<times> ModelConfig) list \<Rightarrow> load_error + (string \<rightharpoonup> string)" where
  "fill_aliases models =
     fold_err (\<lambda>(modelName, mc) m. fold_err (add_alias modelName) (Aliases mc) m) models Map.empty"

definition check_macro :: "(macro_error \<Rightarrow> load_error) \<Rightarrow> MacroEntry \<Rightarrow> unit \<Rightarrow> load_error + unit" where
  "check_macro err e u = (case validateMacro (m_Name e) (m_Value e) of Some x \<Rightarrow> Inl (err x) | None \<Rightarrow> Inr ())"

subsection \<open>One model\<close>

text \<open>A model's macro replaces the first entry of the same name, or comes last.\<close>

fun replace_macro :: "MacroEntry \<Rightarrow> MacroList \<Rightarrow> MacroList option" where
  "replace_macro entry [] = None"
| "replace_macro entry (e # es) =
     (if m_Name e = m_Name entry then Some (entry # es) else map_option (Cons e) (replace_macro entry es))"

definition merge_macro :: "MacroList \<Rightarrow> MacroEntry \<Rightarrow> MacroList" where
  "merge_macro merged entry =
     (case replace_macro entry merged of Some merged' \<Rightarrow> merged' | None \<Rightarrow> merged @ [entry])"

definition mergedMacros :: "string \<Rightarrow> MacroList \<Rightarrow> MacroList \<Rightarrow> MacroList" where
  "mergedMacros modelId global own =
     foldl merge_macro (\<lparr>m_Name = ''MODEL_ID'', m_Value = VStr modelId\<rparr> # global) own"

definition subst_params :: "(string \<times> any) list \<Rightarrow> string \<Rightarrow> any \<Rightarrow> (string \<times> any) list" where
  "subst_params kvs name v =
     (case substituteMacroInValue (VMap kvs) name v of VMap kvs' \<Rightarrow> kvs' | _ \<Rightarrow> kvs)"

definition subst_model :: "MacroEntry \<Rightarrow> ModelConfig \<Rightarrow> ModelConfig" where
  "subst_model entry m =
     (let old = slug (m_Name entry); new = print_any (m_Value entry);
          m = m\<lparr>Cmd := ReplaceAll (Cmd m) old new, CmdStop := ReplaceAll (CmdStop m) old new,
                Proxy := ReplaceAll (Proxy m) old new, CheckEndpoint := ReplaceAll (CheckEndpoint m) old new,
                ModelFilters := (ModelFilters m)\<lparr>StripParams := ReplaceAll (StripParams (ModelFilters m)) old new\<rparr>\<rparr>
      in if length (Metadata m) > 0
         then m\<lparr>Metadata := subst_params (Metadata m) (m_Name entry) (m_Value entry)\<rparr> else m)"

text \<open>The port: handed out only when the command uses it.\<close>

definition assign_port :: "string \<Rightarrow> int \<Rightarrow> ModelConfig \<Rightarrow> load_error + ModelConfig \<times> int" where
  "assign_port modelId nextPort m =
     (let cmdHasPort = Contains (Cmd m) ''${PORT}''; proxyHasPort = Contains (Proxy m) ''${PORT}'' in
      if cmdHasPort \<or> proxyHasPort then
        if \<not> cmdHasPort \<and> proxyHasPort then Inl (PortNotInCmd modelId)
        else
          let new = itoa nextPort;
              m = m\<lparr>Cmd := ReplaceAll (Cmd m) ''${PORT}'' new, CmdStop := ReplaceAll (CmdStop m) ''${PORT}'' new,
                    Proxy := ReplaceAll (Proxy m) ''${PORT}'' new\<rparr>;
              m = (if length (Metadata m) > 0
                   then m\<lparr>Metadata := subst_params (Metadata m) ''PORT'' (VInt nextPort)\<rparr> else m)
          in Inr (m, nextPort + 1)
      else Inr (m, nextPort))"

fun check_names :: "string \<Rightarrow> string \<Rightarrow> string list \<Rightarrow> load_error option" where
  "check_names modelId fieldName [] = None"
| "check_names modelId fieldName (n # ns) =
     (if n = ''PID'' \<and> fieldName = ''cmdStop'' then check_names modelId fieldName ns
      else if n = ''PORT'' \<or> n = ''MODEL_ID'' then Some (NotSubstituted n modelId fieldName)
      else Some (UnknownMacroIn n modelId fieldName))"

definition fieldMap :: "ModelConfig \<Rightarrow> (string \<times> string) list" where
  "fieldMap m = [(''cmd'', Cmd m), (''cmdStop'', CmdStop m), (''proxy'', Proxy m),
     (''checkEndpoint'', CheckEndpoint m), (''filters.stripParams'', StripParams (ModelFilters m))]"

definition check_fields :: "string \<Rightarrow> ModelConfig \<Rightarrow> load_error option" where
  "check_fields modelId m = first_error (map (\<lambda>(f, v). check_names modelId f (macro_names v)) (fieldMap m))"

definition load_model :: "(string \<Rightarrow> bool) \<Rightarrow> Config \<Rightarrow> string \<Rightarrow> ModelConfig \<Rightarrow> int
    \<Rightarrow> load_error + ModelConfig \<times> int" where
  "load_model urlOK c modelId m nextPort =
     (let m = m\<lparr>Cmd := StripComments (Cmd m), CmdStop := StripComments (CmdStop m)\<rparr> in
      bind_err (fold_err (check_macro (ModelMacroError modelId)) (ModelMacros m) ()) (\<lambda>_.
      let m = fold subst_model (rev (mergedMacros modelId (Macros c) (ModelMacros m))) m in
      bind_err (assign_port modelId nextPort m) (\<lambda>(m, nextPort).
      case check_fields modelId m of
        Some e \<Rightarrow> Inl e
      | None \<Rightarrow>
          (case (if length (Metadata m) > 0 then validateNested (VMap (Metadata m)) else None) of
             Some e \<Rightarrow> Inl (MetadataError modelId e)
           | None \<Rightarrow>
               if \<not> urlOK (Proxy m) then Inl (InvalidProxy modelId)
               else Inr (m\<lparr>SendLoadingState :=
                            (case SendLoadingState m of None \<Rightarrow> Some (cfg_SendLoadingState c) | s \<Rightarrow> s)\<rparr>,
                         nextPort)))))"

text \<open>The loop over the sorted ids: the models loaded so far and the next port.\<close>

definition model_step :: "(string \<Rightarrow> bool) \<Rightarrow> Config \<Rightarrow> string
    \<Rightarrow> (string \<times> ModelConfig) list \<times> int \<Rightarrow> load_error + (string \<times> ModelConfig) list \<times> int" where
  "model_step urlOK c modelId st =
     (case st of (models, nextPort) \<Rightarrow>
        (case map_of models modelId of
           None \<Rightarrow> Inr (models, nextPort)
         | Some m \<Rightarrow>
             bind_err (load_model urlOK c modelId m nextPort) (\<lambda>(m, nextPort).
               Inr (AList.update modelId m models, nextPort))))"

definition load_models :: "(string \<Rightarrow> bool) \<Rightarrow> Config \<Rightarrow> load_error + (string \<times> ModelConfig) list \<times> int" where
  "load_models urlOK c = fold_err (model_step urlOK c) (sort (map fst (Models c))) (Models c, StartPort c)"

subsection \<open>Groups\<close>

definition DEFAULT_GROUP_ID :: string where
  "DEFAULT_GROUP_ID = ''(default)''"

definition in_a_group :: "(string \<times> GroupConfig) list \<Rightarrow> string \<Rightarrow> bool" where
  "in_a_group groups modelName = list_ex (\<lambda>(_, g). list_ex (\<lambda>member. member = modelName) (Members g)) groups"

definition withDefaultGroup :: "(string \<times> GroupConfig) list \<Rightarrow> string list \<Rightarrow> (string \<times> GroupConfig) list" where
  "withDefaultGroup groups modelNames =
     (let members =
        (if length groups = 0 then modelNames
         else filter (\<lambda>modelName. \<not> in_a_group groups modelName) modelNames)
      in AList.update DEFAULT_GROUP_ID
           \<lparr>Swap = True, Exclusive = True, Persistent = False, Members = sort members\<rparr> groups)"

definition AddDefaultGroupToConfig :: "Config \<Rightarrow> Config" where
  "AddDefaultGroupToConfig c = c\<lparr>Groups := withDefaultGroup (Groups c) (map fst (Models c))\<rparr>"

definition member_step :: "string \<Rightarrow> string \<Rightarrow> string list \<times> (string \<rightharpoonup> string)
    \<Rightarrow> load_error + string list \<times> (string \<rightharpoonup> string)" where
  "member_step groupID member st =
     (case st of (prevSet, memberUsage) \<Rightarrow>
        if member \<in> set prevSet then Inl (DuplicateMember member groupID)
        else (case memberUsage member of
                Some existingGroup \<Rightarrow> Inl (MemberInTwoGroups member existingGroup groupID)
              | None \<Rightarrow> Inr (member # prevSet, memberUsage(member \<mapsto> groupID))))"

definition group_step :: "string \<times> GroupConfig \<Rightarrow> (string \<rightharpoonup> string) \<Rightarrow> load_error + (string \<rightharpoonup> string)" where
  "group_step entry memberUsage =
     (case entry of (groupID, g) \<Rightarrow>
        bind_err (fold_err (member_step groupID) (Members g) ([], memberUsage)) (\<lambda>(_, mu). Inr mu))"

definition check_groups :: "(string \<times> GroupConfig) list \<Rightarrow> load_error + (string \<rightharpoonup> string)" where
  "check_groups groups = fold_err group_step groups Map.empty"

subsection \<open>The rest of the configuration\<close>

definition clean_preload :: "Config \<Rightarrow> string list" where
  "clean_preload c =
     (if length (Preload c) > 0
      then List.map_filter (\<lambda>modelID.
             let modelID = TrimSpace modelID in
             if modelID = [] then None else RealModelName c modelID) (Preload c)
      else Preload c)"

definition check_key :: "string \<Rightarrow> unit \<Rightarrow> load_error + unit" where
  "check_key apikey u =
     (if apikey = [] then Inl EmptyAPIKey
      else if Contains apikey '' '' then Inl (SpaceInAPIKey apikey) else Inr ())"

definition check_rate :: "string \<times> CreditRate \<Rightarrow> unit \<Rightarrow> load_error + unit" where
  "check_rate entry u =
     (case entry of (model, rate) \<Rightarrow> if creditRate_ok model rate then Inr () else Inl (BadCreditRate model))"

definition subst_peer :: "MacroEntry \<Rightarrow> PeerConfig \<Rightarrow> PeerConfig" where
  "subst_peer entry p =
     (let old = slug (m_Name entry); new = print_any (m_Value entry);
          p = p\<lparr>peer_ApiKey := ReplaceAll (peer_ApiKey p) old new,
                peer_Filters := (peer_Filters p)\<lparr>StripParams := ReplaceAll (StripParams (peer_Filters p)) old new\<rparr>\<rparr>
      in if length (SetParams (peer_Filters p)) > 0
         then p\<lparr>peer_Filters := (peer_Filters p)\<lparr>SetParams :=
                 subst_params (SetParams (peer_Filters p)) (m_Name entry) (m_Value entry)\<rparr>\<rparr> else p)"

definition load_peer :: "MacroList \<Rightarrow> string \<Rightarrow> PeerConfig \<Rightarrow> load_error + PeerConfig" where
  "load_peer macros peerName p =
     (let p = fold subst_peer (rev macros) p in
      case macro_names (peer_ApiKey p) of
        n # _ \<Rightarrow> Inl (PeerMacro peerName ''apiKey'' n)
      | [] \<Rightarrow> (case macro_names (StripParams (peer_Filters p)) of
          n # _ \<Rightarrow> Inl (PeerMacro peerName ''filters.stripParams'' n)
        | [] \<Rightarrow>
            (case (if length (SetParams (peer_Filters p)) > 0
                   then validateNested (VMap (SetParams (peer_Filters p))) else None) of
               Some e \<Rightarrow> Inl (PeerSetParams peerName e) | None \<Rightarrow> Inr p)))"

definition load_peers :: "Config \<Rightarrow> load_error + (string \<times> PeerConfig) list" where
  "load_peers c = fold_err (\<lambda>(name, p) ps. bind_err (load_peer (Macros c) name p) (\<lambda>p. Inr (ps @ [(name, p)])))
     (Peers c) []"

definition logTargets :: "string list" where
  "logTargets = [''proxy'', ''upstream'', ''both'', ''none'']"

text \<open>Everything after decoding.\<close>

definition finishConfig :: "(string \<Rightarrow> bool) \<Rightarrow> Config \<Rightarrow> load_error + Config" where
  "finishConfig urlOK c =
     (let c = (if HealthCheckTimeout c < 15 then c\<lparr>HealthCheckTimeout := 15\<rparr> else c) in
      if StartPort c < 1 then Inl StartPortTooSmall
      else if LogToStdout c \<notin> set logTargets then Inl BadLogToStdout
      else
        bind_err (fill_aliases (Models c)) (\<lambda>al.
        let c = c\<lparr>aliases := al\<rparr> in
        bind_err (fold_err (check_macro MacroError) (Macros c) ()) (\<lambda>_.
        bind_err (load_models urlOK c) (\<lambda>(models, _).
        let c = AddDefaultGroupToConfig (c\<lparr>Models := models\<rparr>) in
        bind_err (check_groups (Groups c)) (\<lambda>_.
        let c = c\<lparr>Preload := clean_preload c\<rparr> in
        bind_err (fold_err check_key (RequiredAPIKeys c) ()) (\<lambda>_.
        bind_err (fold_err check_rate (CreditRates c) ()) (\<lambda>_.
        bind_err (load_peers c) (\<lambda>ps. Inr (c\<lparr>Peers := ps\<rparr>)))))))))"

definition LoadConfigFromReader :: "(string \<Rightarrow> string option) \<Rightarrow> (string \<rightharpoonup> string)
    \<Rightarrow> (string \<Rightarrow> Config option) \<Rightarrow> (string \<Rightarrow> bool) \<Rightarrow> string \<Rightarrow> load_error + Config" where
  "LoadConfigFromReader clean env unmarshal urlOK text =
     (case substituteEnvMacros clean env text of
        Inl e \<Rightarrow> Inl (EnvError e)
      | Inr yamlStr \<Rightarrow> (case unmarshal yamlStr of None \<Rightarrow> Inl YamlError | Some c \<Rightarrow> finishConfig urlOK c))"

subsection \<open>Every model is in exactly one group\<close>

lemma member_step_Inr:
  "member_step g m (prev, mu) = Inr s \<longleftrightarrow> m \<notin> set prev \<and> mu m = None \<and> s = (m # prev, mu(m \<mapsto> g))"
  by (auto simp: member_step_def split: option.splits)

lemma group_step_Inr:
  "group_step (groupID, g) mu = Inr mu' \<longleftrightarrow>
    (\<exists>prev. fold_err (member_step groupID) (Members g) ([], mu) = Inr (prev, mu'))"
  by (auto simp: group_step_def)

lemma member_loop:
  assumes "fold_err (member_step g) ms (prev, mu) = Inr (prev', mu')"
  shows "distinct ms \<and> set ms \<inter> dom mu = {} \<and> dom mu' = dom mu \<union> set ms"
  using assms
proof (induction ms arbitrary: prev mu)
  case (Cons m ms)
  then have m: "m \<notin> set prev" "mu m = None"
    and "fold_err (member_step g) ms (m # prev, mu(m \<mapsto> g)) = Inr (prev', mu')"
    by (auto simp: member_step_Inr)
  from Cons.IH [OF this(3)] m show ?case by auto
qed simp

definition all_members :: "(string \<times> GroupConfig) list \<Rightarrow> string list" where
  "all_members groups = concat (map (\<lambda>(_, g). Members g) groups)"

lemma all_members_Cons [simp]: "all_members ((groupID, g) # groups) = Members g @ all_members groups"
  and all_members_Nil [simp]: "all_members [] = []"
  by (simp_all add: all_members_def)

lemma group_loop:
  assumes "fold_err group_step groups mu = Inr mu'"
  shows "distinct (all_members groups) \<and> set (all_members groups) \<inter> dom mu = {}
    \<and> dom mu' = dom mu \<union> set (all_members groups)"
  using assms
proof (induction groups arbitrary: mu)
  case (Cons entry groups)
  obtain groupID g where e: "entry = (groupID, g)" by force
  with Cons.prems obtain prev mu1 where
    1: "fold_err (member_step groupID) (Members g) ([], mu) = Inr (prev, mu1)"
       "fold_err group_step groups mu1 = Inr mu'"
    by (auto simp: group_step_Inr)
  from member_loop [OF 1(1)] Cons.IH [OF 1(2)] show ?case
    by (auto simp: e)
qed simp

lemma in_a_group_iff: "in_a_group groups m \<longleftrightarrow> m \<in> set (all_members groups)"
  by (auto simp: in_a_group_def all_members_def list_ex_iff)

lemma AList_update_new: "k \<notin> set (akeys m) \<Longrightarrow> AList.update k v m = m @ [(k, v)]"
  by (induction m) (auto simp: akeys_def)

lemma default_group_members:
  assumes "DEFAULT_GROUP_ID \<notin> set (map fst groups)"
  shows "set (all_members (withDefaultGroup groups names)) = set (all_members groups) \<union> set names"
proof -
  have "DEFAULT_GROUP_ID \<notin> set (akeys groups)" using assms by (simp add: akeys_def)
  then have "withDefaultGroup groups names = groups @ [(DEFAULT_GROUP_ID,
      \<lparr>Swap = True, Exclusive = True, Persistent = False,
       Members = sort (if groups = [] then names else filter (\<lambda>m. \<not> in_a_group groups m) names)\<rparr>)]"
    by (simp add: withDefaultGroup_def Let_def AList_update_new)
  then show ?thesis
    by (auto simp: all_members_def in_a_group_iff)
qed

lemma clean_preload_cong:
  assumes "Models c = Models c'" "aliases c = aliases c'" "Preload c = Preload c'"
  shows "clean_preload c = clean_preload c'"
proof -
  have r: "RealModelName c = RealModelName c'" unfolding RealModelName_def [abs_def] assms(1,2) by (rule refl)
  show ?thesis unfolding clean_preload_def r assms(3) by (rule refl)
qed

lemma load_models_fields:
  "load_models urlOK (c\<lparr>HealthCheckTimeout := h\<rparr>) = load_models urlOK c"
  "load_models urlOK (c\<lparr>aliases := al\<rparr>) = load_models urlOK c"
proof -
  have fields: "Macros (c\<lparr>HealthCheckTimeout := h\<rparr>) = Macros c" "Macros (c\<lparr>aliases := al\<rparr>) = Macros c"
    "cfg_SendLoadingState (c\<lparr>HealthCheckTimeout := h\<rparr>) = cfg_SendLoadingState c"
    "cfg_SendLoadingState (c\<lparr>aliases := al\<rparr>) = cfg_SendLoadingState c" by simp_all
  have m: "load_model urlOK (c\<lparr>HealthCheckTimeout := h\<rparr>) = load_model urlOK c"
    "load_model urlOK (c\<lparr>aliases := al\<rparr>) = load_model urlOK c"
    unfolding load_model_def [abs_def] fields by (rule refl)+
  have "model_step urlOK (c\<lparr>HealthCheckTimeout := h\<rparr>) = model_step urlOK c"
    "model_step urlOK (c\<lparr>aliases := al\<rparr>) = model_step urlOK c"
    unfolding model_step_def [abs_def] m by (rule refl)+
  then show "load_models urlOK (c\<lparr>HealthCheckTimeout := h\<rparr>) = load_models urlOK c"
    "load_models urlOK (c\<lparr>aliases := al\<rparr>) = load_models urlOK c"
    by (simp_all add: load_models_def)
qed

text \<open>What a successful load has done, phase by phase.\<close>

lemma finishConfig_phases:
  assumes "finishConfig urlOK c = Inr c'"
  obtains al models next1 mu where "fill_aliases (Models c) = Inr al"
    "load_models urlOK c = Inr (models, next1)" "check_groups (Groups c') = Inr mu"
    "Groups c' = Groups (AddDefaultGroupToConfig (c\<lparr>Models := models\<rparr>))" "Models c' = models"
    "aliases c' = al" "StartPort c' = StartPort c" "1 \<le> StartPort c"
    "Preload c' = clean_preload (c\<lparr>Models := models, aliases := al\<rparr>)"
proof -
  define c1 where "c1 = (if HealthCheckTimeout c < 15 then c\<lparr>HealthCheckTimeout := 15\<rparr> else c)"
  have c1: "Models c1 = Models c" "Groups c1 = Groups c" "StartPort c1 = StartPort c" "Preload c1 = Preload c"
    "load_models urlOK (c1\<lparr>aliases := al\<rparr>) = load_models urlOK c" for al
    by (simp_all add: c1_def load_models_fields)
  from assms obtain al models next1 mu ps where
    p: "fill_aliases (Models c) = Inr al" "load_models urlOK c = Inr (models, next1)"
       "\<not> StartPort c < 1"
    and g: "check_groups (Groups (AddDefaultGroupToConfig (c1\<lparr>aliases := al, Models := models\<rparr>))) = Inr mu"
    and c': "c' = (AddDefaultGroupToConfig (c1\<lparr>aliases := al, Models := models\<rparr>))
        \<lparr>Preload := clean_preload (AddDefaultGroupToConfig (c1\<lparr>aliases := al, Models := models\<rparr>)), Peers := ps\<rparr>"
    unfolding finishConfig_def Let_def c1_def [symmetric]
    by (auto simp: c1 split: if_splits)
  have same: "Groups (AddDefaultGroupToConfig (c1\<lparr>aliases := al, Models := models\<rparr>))
      = Groups (AddDefaultGroupToConfig (c\<lparr>Models := models\<rparr>))"
    "clean_preload (AddDefaultGroupToConfig (c1\<lparr>aliases := al, Models := models\<rparr>))
      = clean_preload (c\<lparr>Models := models, aliases := al\<rparr>)"
    by (simp add: AddDefaultGroupToConfig_def c1) (rule clean_preload_cong; simp add: AddDefaultGroupToConfig_def c1)
  show thesis
    by (rule that [OF p(1,2)]) (use p(3) g same in \<open>simp_all add: c' AddDefaultGroupToConfig_def c1\<close>)
qed

text \<open>
  C27. One group per model: when the configuration loads and defines no group named
  \<open>(default)\<close> itself, every model is a member of exactly one group, exactly once, so that the
  routing by group is a function of the model; no name at all is a member twice.
\<close>

theorem load_groups_partition:
  assumes "finishConfig urlOK c = Inr c'" "DEFAULT_GROUP_ID \<notin> set (map fst (Groups c))"
  shows "distinct (concat (map (Members \<circ> snd) (Groups c')))
    \<and> list_all (\<lambda>model. length (filter (\<lambda>m. m = model) (concat (map (Members \<circ> snd) (Groups c')))) = 1)
        (map fst (Models c'))"
proof -
  from assms(1) obtain al models next1 mu where p: "check_groups (Groups c') = Inr mu"
    "Groups c' = Groups (AddDefaultGroupToConfig (c\<lparr>Models := models\<rparr>))" "Models c' = models"
    by (rule finishConfig_phases)
  have all: "concat (map (Members \<circ> snd) (Groups c')) = all_members (Groups c')"
    by (simp add: all_members_def case_prod_unfold comp_def)
  have d: "distinct (all_members (Groups c'))" using group_loop p(1) by (simp add: check_groups_def)
  have "set (map fst models) \<subseteq> set (all_members (Groups c'))"
    using default_group_members [OF assms(2), of "map fst models"] p(2)
    by (simp add: AddDefaultGroupToConfig_def)
  then have "length (filter (\<lambda>m. m = model) (all_members (Groups c'))) = 1"
    if "model \<in> set (map fst models)" for model
    using distinct_filter_eq [OF d, of model] that by auto
  then show ?thesis using d p(3) by (simp only: all list_all_iff) blast
qed

definition sample_model :: "string \<Rightarrow> ModelConfig" where
  "sample_model cmd = (modelDefaults False)\<lparr>Cmd := cmd, Proxy := [], CheckEndpoint := []\<rparr>"

definition sample_config :: "(string \<times> ModelConfig) list \<Rightarrow> (string \<times> GroupConfig) list \<Rightarrow> Config" where
  "sample_config models groups = \<lparr>HealthCheckTimeout = 120, LogRequests = False, LogLevel = ''info'',
     LogTimeFormat = [], LogToStdout = ''proxy'', MetricsMaxInMemory = 1000, Models = models, Profiles = [],
     Groups = groups, Macros = [], aliases = Map.empty, StartPort = 5800, Preload = [],
     cfg_SendLoadingState = False, IncludeAliasesInList = False, RequiredAPIKeys = [],
     APIKeyLabels = Map.empty, UsagePath = [], UsageReaders = [], RateLimitPerMin = 0,
     RateLimitOverrides = Map.empty, MaxInflightPerPeer = 0, MaxFormBodyBytes = 0,
     PeerAffinity = \<lparr>aff_Enabled = False, aff_Bonus = 0, aff_SessionHeaders = [], aff_MinBodyBytes = 0,
       aff_KeyCompletions = False\<rparr>,
     QueueTimeout = [], DebitLogPath = [], DebitLogBufSize = 0, CreditRates = [],
     CreditGateEnforce = False, CreditGateCanaryFailOpen = False, Peers = []\<rparr>"

definition two_models :: Config where
  "two_models = sample_config [(''b'', sample_model ''${PORT}''), (''a'', sample_model ''${PORT}'')]
     [(''g'', \<lparr>Swap = True, Exclusive = True, Persistent = False, Members = [''a'']\<rparr>)]"

definition two_loaded :: Config where
  "two_loaded = (case finishConfig (\<lambda>_. True) two_models of Inr c \<Rightarrow> c | Inl _ \<Rightarrow> two_models)"

lemmas load_eval = finishConfig_def fill_aliases_def two_models_def sample_config_def sample_model_def
  modelDefaults_def bind_err_def load_models_def model_step_def load_model_def assign_port_def
  mergedMacros_def merge_macro_def subst_model_def check_fields_def fieldMap_def macro_names_def
  find_all.simps macro_at_def match_word_def HasPrefix_def ReplaceAll.simps StripComments_def
  TrimSpace_def is_space_def AddDefaultGroupToConfig_def withDefaultGroup_def check_groups_def
  group_step_def member_step_def clean_preload_def load_peers_def logTargets_def slug_def
  in_a_group_def DEFAULT_GROUP_ID_def itoa_def digits.simps macro_char_def is_alpha_def is_digit_def

lemma two_models_load:
  "finishConfig (\<lambda>_. True) two_models = Inr two_loaded" "map fst (Models two_loaded) = [''b'', ''a'']"
proof -
  have "\<exists>c. finishConfig (\<lambda>_. True) two_models = Inr c \<and> map fst (Models c) = [''b'', ''a'']"
    by (simp add: load_eval Let_def)
  then show "finishConfig (\<lambda>_. True) two_models = Inr two_loaded" "map fst (Models two_loaded) = [''b'', ''a'']"
    by (auto simp: two_loaded_def)
qed

theorem load_groups_partition_witness:
  "distinct (concat (map (Members \<circ> snd) (Groups two_loaded))) \<and> map fst (Models two_loaded) = [''b'', ''a'']"
  using load_groups_partition [OF two_models_load(1)] two_models_load(2)
  by (simp add: two_models_def sample_config_def DEFAULT_GROUP_ID_def)

text \<open>
  A configuration that defines the group \<open>(default)\<close> itself loses it: the members listed there count
  as grouped, the group is then replaced, and they are in no group at all.
\<close>

lemma default_group_overwritten:
  "all_members (withDefaultGroup [(DEFAULT_GROUP_ID,
      \<lparr>Swap = False, Exclusive = False, Persistent = True, Members = [''a'']\<rparr>)] [''a'']) = []"
  by (simp add: withDefaultGroup_def in_a_group_def all_members_def)

subsection \<open>Ports\<close>

text \<open>A model after its macros have been substituted, before the port is.\<close>

definition prepared :: "Config \<Rightarrow> string \<Rightarrow> ModelConfig \<Rightarrow> ModelConfig" where
  "prepared c modelId m =
     (let m = m\<lparr>Cmd := StripComments (Cmd m), CmdStop := StripComments (CmdStop m)\<rparr>
      in fold subst_model (rev (mergedMacros modelId (Macros c) (ModelMacros m))) m)"

lemma load_model_Inr:
  assumes "load_model urlOK c modelId m p = Inr (m', p')"
  obtains m1 where "assign_port modelId p (prepared c modelId m) = Inr (m1, p')"
    "check_fields modelId m1 = None" "urlOK (Proxy m1)"
    "Metadata m1 = [] \<or> validateNested (VMap (Metadata m1)) = None"
    "m' = m1\<lparr>SendLoadingState := (case SendLoadingState m1 of None \<Rightarrow> Some (cfg_SendLoadingState c) | s \<Rightarrow> s)\<rparr>"
  using assms unfolding load_model_def Let_def prepared_def
  by (auto split: option.splits if_splits)

lemma assign_port_Inr:
  assumes "assign_port modelId p m = Inr (m', p')"
  shows "if Contains (Cmd m) ''${PORT}''
    then p' = p + 1 \<and> Cmd m' = ReplaceAll (Cmd m) ''${PORT}'' (itoa p) \<and> Proxy m' = ReplaceAll (Proxy m) ''${PORT}'' (itoa p)
    else p' = p \<and> m' = m \<and> \<not> Contains (Proxy m) ''${PORT}''"
  using assms by (auto simp: assign_port_def Let_def split: if_splits)

definition uses_port :: "Config \<Rightarrow> string \<Rightarrow> bool" where
  "uses_port c modelId = (case map_of (Models c) modelId of
     None \<Rightarrow> False | Some m \<Rightarrow> Contains (Cmd (prepared c modelId m)) ''${PORT}'')"

text \<open>The port the \<open>modelId\<close> is offered: the start port plus the users before it in sorted order.\<close>

definition port_of :: "Config \<Rightarrow> string \<Rightarrow> int" where
  "port_of c modelId = StartPort c + int (length (filter (uses_port c) (takeWhile (\<lambda>k. k \<noteq> modelId) (sort (map fst (Models c))))))"

lemma model_step_None: "map_of ms i = None \<Longrightarrow> model_step urlOK c i (ms, p) = Inr (ms, p)"
  and model_step_Some: "map_of ms i = Some m \<Longrightarrow> model_step urlOK c i (ms, p) =
    bind_err (load_model urlOK c i m p) (\<lambda>(m, p). Inr (AList.update i m ms, p))"
  by (simp_all add: model_step_def)

lemma position_inj:
  "distinct xs \<Longrightarrow> j \<in> set xs \<Longrightarrow> k \<in> set xs \<Longrightarrow> u j \<Longrightarrow> u k \<Longrightarrow>
   length (filter u (takeWhile (\<lambda>x. x \<noteq> j) xs)) = length (filter u (takeWhile (\<lambda>x. x \<noteq> k) xs)) \<Longrightarrow> j = k"
  by (induction xs) (auto split: if_splits)

lemma model_loop:
  assumes "fold_err (model_step urlOK c) ids (ms, p) = Inr (ms', p')" "distinct ids"
    and "\<forall>k \<in> set ids. map_of ms k = map_of (Models c) k"
  shows "map fst ms' = map fst ms \<and> (\<forall>k. k \<notin> set ids \<longrightarrow> map_of ms' k = map_of ms k)
    \<and> p' = p + int (length (filter (uses_port c) ids))
    \<and> (\<forall>k \<in> set ids. \<forall>m. map_of (Models c) k = Some m \<longrightarrow>
         (\<exists>m' q. map_of ms' k = Some m'
           \<and> load_model urlOK c k m (p + int (length (filter (uses_port c) (takeWhile (\<lambda>j. j \<noteq> k) ids)))) = Inr (m', q)))"
  using assms
proof (induction ids arbitrary: ms p)
  case (Cons i ids)
  show ?case
  proof (cases "map_of ms i")
    case None
    then have none: "map_of (Models c) i = None" "\<not> uses_port c i" using Cons.prems(3) by (auto simp: uses_port_def)
    have "fold_err (model_step urlOK c) ids (ms, p) = Inr (ms', p')"
      using Cons.prems(1) by (simp add: model_step_None [OF None])
    from Cons.IH [OF this] Cons.prems(2,3) none None show ?thesis by auto
  next
    case (Some m)
    then have m: "map_of (Models c) i = Some m" using Cons.prems(3) by simp
    obtain m1 p1 where 1: "load_model urlOK c i m p = Inr (m1, p1)"
      "fold_err (model_step urlOK c) ids (AList.update i m1 ms, p1) = Inr (ms', p')"
      using Cons.prems(1) by (auto simp: model_step_Some [OF Some])
    obtain m2 where "assign_port i p (prepared c i m) = Inr (m2, p1)"
      using 1(1) by (rule load_model_Inr)
    from assign_port_Inr [OF this] have p1: "p1 = (if uses_port c i then p + 1 else p)"
      using m by (auto simp: uses_port_def split: if_splits)
    have i: "i \<in> set (map fst ms)" using Some by (metis map_of_SomeD fst_conv image_eqI set_map)
    have all: "\<forall>k \<in> set ids. map_of (AList.update i m1 ms) k = map_of (Models c) k"
      using Cons.prems(2,3) by (auto simp: update_conv)
    have "distinct ids" using Cons.prems(2) by simp
    note IH = Cons.IH [OF 1(2) this all]
    have keys: "map fst (AList.update i m1 ms) = map fst ms" using i
      by (induction ms) auto
    have i': "i \<notin> set ids" using Cons.prems(2) by simp
    have other: "map_of ms' k = map_of ms k" if "k \<notin> set (i # ids)" for k
      using IH Cons.prems(2) that by (auto simp: update_conv)
    have at_i: "map_of ms' i = Some m1" using IH Cons.prems(2) i' by (auto simp: update_conv)
    have each: "\<exists>m' q. map_of ms' k = Some m' \<and> load_model urlOK c k n
        (p + int (length (filter (uses_port c) (takeWhile (\<lambda>j. j \<noteq> k) (i # ids))))) = Inr (m', q)"
      if k1: "k \<in> set (i # ids)" and k2: "map_of (Models c) k = Some n" for k n
    proof (cases "k = i")
      case True
      then show ?thesis using 1(1) at_i k2 m by auto
    next
      case False
      then have "k \<in> set ids" using k1 by simp
      then obtain m' q where "map_of ms' k = Some m'"
        "load_model urlOK c k n (p1 + int (length (filter (uses_port c) (takeWhile (\<lambda>j. j \<noteq> k) ids)))) = Inr (m', q)"
        using IH k2 by blast
      moreover have "p1 + int (length (filter (uses_port c) (takeWhile (\<lambda>j. j \<noteq> k) ids)))
          = p + int (length (filter (uses_port c) (takeWhile (\<lambda>j. j \<noteq> k) (i # ids))))"
        using False p1 by auto
      ultimately show ?thesis by auto
    qed
    have "map fst ms' = map fst ms" "p' = p + int (length (filter (uses_port c) (i # ids)))"
      using IH Cons.prems(2) keys p1 by auto
    with other each show ?thesis by blast
  qed
qed simp

text \<open>
  Ports: in a loaded configuration every model whose command uses the port macro has been
  given the start port plus the number of such models before it in the order of the sorted model
  ids - so no two of them share a port, whatever order the models map is visited in - put into its
  command and its proxy address; a model that does not use it has kept its command, and no proxy
  address is left waiting for a port.
\<close>

theorem load_assigns_ports:
  assumes "finishConfig urlOK c = Inr c'" "distinct (map fst (Models c))"
  shows "map fst (Models c') = map fst (Models c)
    \<and> list_all (\<lambda>(modelId, m). case map_of (Models c') modelId of
          None \<Rightarrow> False
        | Some m' \<Rightarrow>
            if uses_port c modelId
            then Cmd m' = ReplaceAll (Cmd (prepared c modelId m)) ''${PORT}'' (itoa (port_of c modelId))
               \<and> Proxy m' = ReplaceAll (Proxy (prepared c modelId m)) ''${PORT}'' (itoa (port_of c modelId))
            else Cmd m' = Cmd (prepared c modelId m) \<and> \<not> Contains (Proxy m') ''${PORT}'') (Models c)
    \<and> inj_on (port_of c) {modelId. uses_port c modelId}"
proof -
  let ?ids = "sort (map fst (Models c))"
  from assms(1) obtain al models next1 mu where p: "load_models urlOK c = Inr (models, next1)" "Models c' = models"
    by (rule finishConfig_phases)
  have d: "distinct ?ids" using assms(2) by simp
  have "\<forall>k \<in> set ?ids. map_of (Models c) k = map_of (Models c) k" by simp
  note loop = model_loop [OF p(1) [unfolded load_models_def] d this]
  have keys: "map fst models = map fst (Models c)" using loop by blast
  have each: "\<exists>m' q. map_of models k = Some m' \<and> load_model urlOK c k m (port_of c k) = Inr (m', q)"
    if "map_of (Models c) k = Some m" for k m
  proof -
    have "k \<in> set ?ids" using map_of_SomeD [OF that] by force
    with loop that show ?thesis unfolding port_of_def by blast
  qed
  have one: "case map_of models k of None \<Rightarrow> False | Some m' \<Rightarrow>
      if uses_port c k
      then Cmd m' = ReplaceAll (Cmd (prepared c k m)) ''${PORT}'' (itoa (port_of c k))
         \<and> Proxy m' = ReplaceAll (Proxy (prepared c k m)) ''${PORT}'' (itoa (port_of c k))
      else Cmd m' = Cmd (prepared c k m) \<and> \<not> Contains (Proxy m') ''${PORT}''"
    if "(k, m) \<in> set (Models c)" for k m
  proof -
    have m: "map_of (Models c) k = Some m" using that assms(2) by (simp add: map_of_eq_Some_iff)
    from each [OF this] obtain m' q where l: "map_of models k = Some m'"
      "load_model urlOK c k m (port_of c k) = Inr (m', q)" by blast
    from l(2) obtain m1 where a: "assign_port k (port_of c k) (prepared c k m) = Inr (m1, q)"
      and m': "m' = m1\<lparr>SendLoadingState := (case SendLoadingState m1 of None \<Rightarrow> Some (cfg_SendLoadingState c) | s \<Rightarrow> s)\<rparr>"
      by (rule load_model_Inr)
    from assign_port_Inr [OF a] show ?thesis
      using m by (auto simp: l(1) m' uses_port_def)
  qed
  have "inj_on (port_of c) {k. uses_port c k}"
  proof (rule inj_onI)
    fix j k assume jk: "j \<in> {k. uses_port c k}" "k \<in> {k. uses_port c k}" "port_of c j = port_of c k"
    have mem: "k \<in> set ?ids" if "uses_port c k" for k
      using that by (auto simp: uses_port_def split: option.splits dest!: map_of_SomeD intro: rev_image_eqI)
    show "j = k"
      using position_inj [OF d mem mem, of j k "uses_port c"] jk by (simp add: port_of_def)
  qed
  then show ?thesis using keys one unfolding p(2) list_all_iff by blast
qed

theorem load_assigns_ports_witness:
  "port_of two_models ''a'' = 5800 \<and> port_of two_models ''b'' = 5801
   \<and> inj_on (port_of two_models) {modelId. uses_port two_models modelId}"
proof -
  have "distinct (map fst (Models two_models))" by (simp add: two_models_def sample_config_def)
  from load_assigns_ports [OF two_models_load(1) this]
  have "inj_on (port_of two_models) {modelId. uses_port two_models modelId}" by blast
  moreover have "uses_port two_models ''a''"
    by (simp add: uses_port_def prepared_def load_eval Let_def)
  then have "port_of two_models ''a'' = 5800" "port_of two_models ''b'' = 5801"
    by (simp_all add: port_of_def) (simp_all add: two_models_def sample_config_def)
  ultimately show ?thesis by blast
qed

subsection \<open>Nothing is left unsubstituted, names resolve\<close>

lemma check_names_None:
  "check_names modelId f ns = None \<longleftrightarrow> set ns \<subseteq> (if f = ''cmdStop'' then {''PID''} else {})"
  by (induction modelId f ns rule: check_names.induct) auto

lemma check_fields_None:
  "check_fields modelId m = None \<longleftrightarrow> macro_names (Cmd m) = [] \<and> set (macro_names (CmdStop m)) \<subseteq> {''PID''}
     \<and> macro_names (Proxy m) = [] \<and> macro_names (CheckEndpoint m) = []
     \<and> macro_names (StripParams (ModelFilters m)) = []"
  by (simp add: check_fields_def fieldMap_def first_error_None check_names_None)

text \<open>An alias leads to a configured model.\<close>

lemma fill_aliases_ran:
  assumes "fill_aliases ms = Inr al"
  shows "ran al \<subseteq> set (map fst ms)"
proof -
  have one: "ran s' \<subseteq> insert name (ran s)" if "add_alias name a s = Inr s'" for name a s s'
    using that by (auto simp: add_alias_def ran_def split: if_splits)
  have inner: "ran m' \<subseteq> insert name (ran m)" if "fold_err (add_alias name) as m = Inr m'" for name as m m'
  proof (rule fold_err_inv [OF that])
    show "ran s' \<subseteq> insert name (ran m)" if "ran s \<subseteq> insert name (ran m)" "add_alias name a s = Inr s'" for a s s'
      using one [OF that(2)] that(1) by blast
  qed auto
  show ?thesis
    by (rule fold_err_inv [OF assms [unfolded fill_aliases_def]]) (force dest!: inner)+
qed

text \<open>A model that loads has passed the field checks.\<close>

lemma load_model_checked:
  assumes "load_model urlOK c k m0 q = Inr (m, r)"
  shows "list_all (\<lambda>field. \<forall>name. macroNameRegex name \<longrightarrow> \<not> Contains field (slug name))
          [Cmd m, Proxy m, CheckEndpoint m, StripParams (ModelFilters m)]
      \<and> set (macro_names (CmdStop m)) \<subseteq> {''PID''} \<and> urlOK (Proxy m)
      \<and> (Metadata m = [] \<or> validateNested (VMap (Metadata m)) = None)"
proof -
  from assms obtain m1 where m1: "check_fields k m1 = None" "urlOK (Proxy m1)"
    "Metadata m1 = [] \<or> validateNested (VMap (Metadata m1)) = None"
    "m = m1\<lparr>SendLoadingState := (case SendLoadingState m1 of None \<Rightarrow> Some (cfg_SendLoadingState c) | s \<Rightarrow> s)\<rparr>"
    by (rule load_model_Inr)
  then show ?thesis by (simp add: check_fields_None macro_names_Nil [symmetric])
qed

text \<open>
  C29. A loaded configuration is fully substituted and its names resolve: no model's command, proxy
  address, check endpoint or strip list holds a macro reference any more and its stop command at most
  \<open>${PID}\<close>; its metadata passes the nested check and its proxy address parses; every name that
  resolves, an id or an alias, resolves to a configured model that resolves to itself; and every
  model to preload is a configured one.
\<close>

theorem load_resolves:
  assumes "finishConfig urlOK c = Inr c'" "distinct (map fst (Models c))"
  shows "list_all (\<lambda>(modelId, m).
        list_all (\<lambda>field. \<forall>name. macroNameRegex name \<longrightarrow> \<not> Contains field (slug name))
          [Cmd m, Proxy m, CheckEndpoint m, StripParams (ModelFilters m)]
      \<and> set (macro_names (CmdStop m)) \<subseteq> {''PID''} \<and> urlOK (Proxy m)
      \<and> (Metadata m = [] \<or> validateNested (VMap (Metadata m)) = None)) (Models c')
    \<and> (\<forall>search name. RealModelName c' search = Some name \<longrightarrow>
          name \<in> set (map fst (Models c')) \<and> RealModelName c' name = Some name)
    \<and> (Preload c = [] \<or> set (Preload c') \<subseteq> set (map fst (Models c')))"
proof -
  let ?ids = "sort (map fst (Models c))"
  from assms(1) obtain al models next1 mu where p: "fill_aliases (Models c) = Inr al"
    "load_models urlOK c = Inr (models, next1)" "Models c' = models" "aliases c' = al"
    "Preload c' = clean_preload (c\<lparr>Models := models, aliases := al\<rparr>)"
    by (rule finishConfig_phases)
  have d: "distinct ?ids" using assms(2) by simp
  have "\<forall>k \<in> set ?ids. map_of (Models c) k = map_of (Models c) k" by simp
  note loop = model_loop [OF p(2) [unfolded load_models_def] d this]
  have keys: "map fst models = map fst (Models c)" using loop by blast
  have fields: "list_all (\<lambda>field. \<forall>name. macroNameRegex name \<longrightarrow> \<not> Contains field (slug name))
          [Cmd m, Proxy m, CheckEndpoint m, StripParams (ModelFilters m)]
      \<and> set (macro_names (CmdStop m)) \<subseteq> {''PID''} \<and> urlOK (Proxy m)
      \<and> (Metadata m = [] \<or> validateNested (VMap (Metadata m)) = None)" if km: "(k, m) \<in> set models" for k m
  proof -
    have m: "map_of models k = Some m" using km assms(2) keys by (simp add: map_of_eq_Some_iff)
    have k: "k \<in> set ?ids" using km keys by (metis fst_conv image_eqI set_map set_sort)
    then obtain m0 where "map_of (Models c) k = Some m0"
      by (cases "map_of (Models c) k") (simp_all add: map_of_eq_None_iff)
    with loop k m obtain q r where "load_model urlOK c k m0 q = Inr (m, r)" by fastforce
    then show ?thesis by (rule load_model_checked)
  qed
  note al = fill_aliases_ran [OF p(1)]
  have names: "name \<in> set (map fst models) \<and> RealModelName c' name = Some name"
    if "RealModelName c' search = Some name" for search name
  proof -
    have "name \<in> ran al \<or> map_of models name \<noteq> None"
      using that by (auto simp: RealModelName_def p(3,4) ran_def split: option.splits)
    then have "name \<in> set (map fst models)"
      using al keys map_of_eq_None_iff [of models name] by (metis set_map subsetD)
    then show ?thesis by (auto simp: RealModelName_def p(3) map_of_eq_None_iff split: option.splits)
  qed
  have real: "RealModelName (c\<lparr>Models := models, aliases := al\<rparr>) = RealModelName c'"
    by (intro ext) (simp add: RealModelName_def p(3,4) split: option.split)
  have member: "name \<in> set (map fst models)" if "RealModelName c' search = Some name" for search name
    using names [OF that] by blast
  have "set (List.map_filter (\<lambda>x. let x = TrimSpace x in if x = [] then None else RealModelName c' x) xs)
      \<subseteq> set (map fst models)" for xs
    by (induction xs) (auto simp: Let_def simp del: set_map split: option.split dest!: member)
  then have "set (Preload c') \<subseteq> set (map fst models)" if "Preload c \<noteq> []"
    unfolding p(5) clean_preload_def real using that by (simp del: set_map)
  then have pre: "Preload c = [] \<or> set (Preload c') \<subseteq> set (map fst models)" by blast
  show ?thesis unfolding p(3)
  proof (intro conjI)
    show "list_all (\<lambda>(modelId, m).
        list_all (\<lambda>field. \<forall>name. macroNameRegex name \<longrightarrow> \<not> Contains field (slug name))
          [Cmd m, Proxy m, CheckEndpoint m, StripParams (ModelFilters m)]
      \<and> set (macro_names (CmdStop m)) \<subseteq> {''PID''} \<and> urlOK (Proxy m)
      \<and> (Metadata m = [] \<or> validateNested (VMap (Metadata m)) = None)) models"
      unfolding list_all_iff [of _ models]
      apply (rule ballI)
      subgoal for p using fields [of "fst p" "snd p"] by (simp add: split_beta)
      done
  qed (use names pre in blast)+
qed

theorem load_resolves_witness:
  "RealModelName two_loaded ''b'' = Some ''b'' \<and> ''b'' \<in> set (map fst (Models two_loaded))"
proof -
  have "distinct (map fst (Models two_models))" by (simp add: two_models_def sample_config_def)
  from load_resolves [OF two_models_load(1) this]
  have "\<forall>search name. RealModelName two_loaded search = Some name \<longrightarrow>
      name \<in> set (map fst (Models two_loaded)) \<and> RealModelName two_loaded name = Some name" by blast
  moreover have "RealModelName two_loaded ''b'' = Some ''b''"
    using two_models_load(2) by (auto simp: RealModelName_def map_of_eq_None_iff split: option.splits)
  ultimately show ?thesis by blast
qed

end
