(* ===== verification/Process_Lifecycle.thy ===== *)
theory Process_Lifecycle
  imports Peer_Admission Log_Monitor Config_Filters
begin

section \<open>The life of one upstream process (proxy/process.go)\<close>

text \<open>
  A \<open>Process\<close> is shared by the goroutines that run its methods: requests (\<open>ProxyRequest\<close>, which calls
  \<open>start\<close>), stoppers (\<open>Stop\<close>, \<open>StopImmediately\<close>, \<open>Shutdown\<close>), one \<open>waitForCmd\<close> per started command and
  one TTL watcher per start. A goroutine is a program counter whose step is one atomic action of the
  code: one critical section, one channel or WaitGroup operation. \<open>thread_step\<close> is that action, and
  \<open>None\<close> means blocked; \<open>act_do\<close> lets the scheduler pick any goroutine, start a new one, or let the
  operating system end a running command, and \<open>proc_run\<close> is a whole schedule. What the code waits for
  (the clock, the outcome of starting the command, the health check) is in the input \<open>env\<close> of a step.
\<close>

subsection \<open>States\<close>

datatype ProcessState = StateStopped | StateStarting | StateReady | StateStopping | StateShutdown

fun isValidTransition :: "ProcessState \<Rightarrow> ProcessState \<Rightarrow> bool" where
  "isValidTransition StateStopped to = (to = StateStarting)"
| "isValidTransition StateStarting to = (to = StateReady \<or> to = StateStopping \<or> to = StateStopped)"
| "isValidTransition StateReady to = (to = StateStopping)"
| "isValidTransition StateStopping to = (to = StateStopped \<or> to = StateShutdown)"
| "isValidTransition StateShutdown to = False"

text \<open>A started command, as the operating system sees it.\<close>

datatype command = Created | Running | Exited

text \<open>
  The struct; contexts, commands and wait channels are numbered by the start that made them, wait
  channel 0 being the one \<open>NewProcess\<close> makes. \<open>cancelUpstream\<close> is the start whose context it cancels.
  The last fields are what the methods leave outside the struct: the commands, the wait channels (true
  once closed), the cancelled contexts, the emitted state changes, and whether a goroutine panicked.
\<close>

record Process =
  p_ID :: string
  p_config :: ModelConfig
  reverseProxy :: bool
  cancelUpstream :: "nat option"
  cmd :: "nat option"
  cmdWaitChan :: nat
  processLogger :: LogMonitor
  healthCheckTimeout :: int
  lastRequestHandled :: int
  pstate :: ProcessState
  inFlightRequests :: nat
  inFlightRequestsCount :: int
  waitStarting :: nat
  concurrencyLimitSemaphore :: slotChan
  failedStartCount :: int
  commands :: "command list"
  chans :: "bool list"
  cancelled :: "nat list"
  changes :: "(ProcessState \<times> ProcessState) list"
  panicked :: bool

text \<open>\<open>urlOK\<close> is \<open>url.Parse\<close> without an error.\<close>

definition NewProcess :: "(string \<Rightarrow> bool) \<Rightarrow> string \<Rightarrow> int \<Rightarrow> ModelConfig \<Rightarrow> Process" where
  "NewProcess urlOK ID timeout mc =
     \<lparr>p_ID = ID, p_config = mc, reverseProxy = urlOK (Proxy mc), cancelUpstream = None, cmd = None,
      cmdWaitChan = 0, processLogger = NewLogMonitorWriter, healthCheckTimeout = timeout,
      lastRequestHandled = 0, pstate = StateStopped, inFlightRequests = 0, inFlightRequestsCount = 0,
      waitStarting = 0,
      concurrencyLimitSemaphore =
        \<lparr>tokens = 0, capacity = (if ConcurrencyLimit mc > 0 then nat (ConcurrencyLimit mc) else 10)\<rparr>,
      failedStartCount = 0, commands = [], chans = [False], cancelled = [], changes = [], panicked = False\<rparr>"

datatype swap_error = ErrExpectedStateMismatch | ErrInvalidStateTransition

definition swapState :: "ProcessState \<Rightarrow> ProcessState \<Rightarrow> Process \<Rightarrow> Process \<times> ProcessState \<times> swap_error option" where
  "swapState expectedState newState p =
     (if pstate p \<noteq> expectedState then (p, pstate p, Some ErrExpectedStateMismatch)
      else if \<not> isValidTransition (pstate p) newState then (p, pstate p, Some ErrInvalidStateTransition)
      else
        let p = p\<lparr>pstate := newState\<rparr>;
            p = (if newState = StateStarting then p\<lparr>waitStarting := waitStarting p + 1\<rparr> else p);
            p = p\<lparr>changes := changes p @ [(expectedState, newState)]\<rparr>
        in (p, newState, None))"

definition forceState :: "ProcessState \<Rightarrow> Process \<Rightarrow> Process" where
  "forceState newState p = p\<lparr>pstate := newState\<rparr>"

subsection \<open>Goroutines\<close>

text \<open>Who called \<open>stopCommand\<close>, and what a request was answered with.\<close>

datatype after = AfterStop | AfterTimeout | AfterShutdown

datatype response = Status int | LoadingError | Served

datatype pc =
    ReqBegin | ReqAcquire | ReqAdd | ReqCheck
  | StartCheck | StartSwap | StartWait | StartWaited | StartPrepare | StartCmd | StartFailed
  | StartHealth int | StartTTL | StartReady | StartOk | StartErr
  | ReqServe | ReqFail | ReqFinish response | ReqRelease response | ReqEnd response
  | StopBegin | StopDrain | StopNow | StopSwap
  | StopCmd after | StopCmdWait after nat
  | ShutBegin | ShutForce
  | WaitCmd | WaitState | WaitClose
  | TTLTick | Gone

record env =
  e_now :: int
  cmdStarts :: bool
  urlJoins :: bool
  healthy :: bool

definition second :: int where
  "second = 1000000000"

text \<open>The end of \<open>stopCommand\<close>, its deferred function included.\<close>

definition stopCommand_return :: "after \<Rightarrow> Process \<Rightarrow> Process \<times> pc" where
  "stopCommand_return a p =
     (p\<lparr>processLogger := lm_Clear (processLogger p)\<rparr>,
      case a of AfterStop \<Rightarrow> Gone | AfterTimeout \<Rightarrow> StartErr | AfterShutdown \<Rightarrow> ShutForce)"

text \<open>\<open>stopCommand\<close> up to its receive from the wait channel.\<close>

definition stopCommand :: "after \<Rightarrow> Process \<Rightarrow> Process \<times> pc" where
  "stopCommand a p =
     (case cancelUpstream p of
        None \<Rightarrow> stopCommand_return a p
      | Some n \<Rightarrow> (p\<lparr>cancelled := n # cancelled p\<rparr>, StopCmdWait a (cmdWaitChan p)))"

definition running :: "Process \<Rightarrow> nat \<Rightarrow> bool" where
  "running p n \<longleftrightarrow> n < length (commands p) \<and> commands p ! n = Running"

definition chan_closed :: "Process \<Rightarrow> nat \<Rightarrow> bool" where
  "chan_closed p ch \<longleftrightarrow> ch < length (chans p) \<and> chans p ! ch"

text \<open>
  The first part of \<open>start\<close>: the checks before the swap, then the swap to \<open>StateStarting\<close>, with the
  caller that finds another start under way waiting for it.
\<close>

definition start_check :: "(string \<Rightarrow> string list) \<Rightarrow> Process \<Rightarrow> pc" where
  "start_check shlexSplit p =
     (if Proxy (p_config p) = [] then ReqFail
      else if ModelConfig_SanitizedCommand shlexSplit (p_config p) = None then ReqFail
      else StartSwap)"

definition start_swap :: "Process \<Rightarrow> Process \<times> pc" where
  "start_swap p =
     (case swapState StateStopped StateStarting p of
        (p, curState, None) \<Rightarrow> (p, StartPrepare)
      | (p, curState, Some ErrExpectedStateMismatch) \<Rightarrow>
          (p, if curState = StateStarting then StartWait else ReqFail)
      | (p, curState, Some ErrInvalidStateTransition) \<Rightarrow> (p, ReqFail))"

text \<open>The command, its context and its wait channel.\<close>

definition start_prepare :: "Process \<Rightarrow> Process" where
  "start_prepare p = p\<lparr>cmd := Some (length (commands p)), commands := commands p @ [Created],
     cancelUpstream := Some (length (commands p)), cmdWaitChan := length (chans p),
     chans := chans p @ [False], failedStartCount := failedStartCount p + 1\<rparr>"

definition cmd_started :: "Process \<Rightarrow> Process" where
  "cmd_started p = (case cmd p of None \<Rightarrow> p | Some n \<Rightarrow> p\<lparr>commands := (commands p)[n := Running]\<rparr>)"

definition start_failed :: "Process \<Rightarrow> Process" where
  "start_failed p =
     (case swapState StateStarting StateStopped p of
        (p, _, None) \<Rightarrow> p | (p, _, Some _) \<Rightarrow> forceState StateStopped p)"

text \<open>One round of the ready check loop, which began at \<open>checkStartTime\<close>.\<close>

definition health_round :: "env \<Rightarrow> int \<Rightarrow> Process \<Rightarrow> pc" where
  "health_round e checkStartTime p =
     (if \<not> urlJoins e then StartErr
      else if pstate p \<noteq> StateStarting then StartErr
      else if e_now e - checkStartTime > second * healthCheckTimeout p then StopCmd AfterTimeout
      else if healthy e then StartTTL
      else StartHealth checkStartTime)"

definition start_ready :: "Process \<Rightarrow> Process \<times> pc" where
  "start_ready p =
     (case swapState StateStarting StateReady p of
        (p, _, None) \<Rightarrow> (p\<lparr>failedStartCount := 0\<rparr>, StartOk)
      | (p, _, Some _) \<Rightarrow> (p, StartErr))"

text \<open>\<open>waitForCmd\<close>: the state change once the command has exited, and the close of the channel.\<close>

definition wait_state :: "Process \<Rightarrow> Process" where
  "wait_state p =
     (if pstate p = StateStopping
      then (case swapState StateStopping StateStopped p of
              (p, _, None) \<Rightarrow> p | (p, _, Some _) \<Rightarrow> forceState StateStopped p)
      else forceState StateStopped p)"

definition wait_close :: "Process \<Rightarrow> Process" where
  "wait_close p =
     (if chan_closed p (cmdWaitChan p) then p\<lparr>panicked := True\<rparr>
      else p\<lparr>chans := (chans p)[cmdWaitChan p := True]\<rparr>)"

text \<open>One tick of the TTL watcher.\<close>

definition ttl_tick :: "env \<Rightarrow> Process \<Rightarrow> pc" where
  "ttl_tick e p =
     (if pstate p \<noteq> StateReady then Gone
      else if inFlightRequestsCount p \<noteq> 0 then TTLTick
      else if e_now e - lastRequestHandled p > second * UnloadAfter (p_config p) then StopBegin
      else TTLTick)"

text \<open>
  The atomic action at each program counter: the new process, the next program counter and the
  goroutines started. \<open>streams\<close> says the request is a streaming chat completion.
\<close>

fun thread_step :: "(string \<Rightarrow> string list) \<Rightarrow> env \<Rightarrow> bool \<Rightarrow> Process \<Rightarrow> pc \<Rightarrow> (Process \<times> pc \<times> pc list) option" where
  "thread_step sh e streams p ReqBegin =
     Some (p, if \<not> reverseProxy p then ReqEnd (Status 500)
              else if pstate p = StateShutdown \<or> pstate p = StateStopping then ReqEnd (Status 503)
              else ReqAcquire, [])"
| "thread_step sh e streams p ReqAcquire =
     (case chan_send (concurrencyLimitSemaphore p) of
        Some c \<Rightarrow> Some (p\<lparr>concurrencyLimitSemaphore := c\<rparr>, ReqAdd, [])
      | None \<Rightarrow> Some (p, ReqEnd (Status 429), []))"
| "thread_step sh e streams p ReqAdd =
     Some (p\<lparr>inFlightRequests := inFlightRequests p + 1,
             inFlightRequestsCount := inFlightRequestsCount p + 1\<rparr>, ReqCheck, [])"
| "thread_step sh e streams p ReqCheck =
     Some (p, if pstate p \<noteq> StateReady then StartCheck else ReqServe, [])"
| "thread_step sh e streams p StartCheck = Some (p, start_check sh p, [])"
| "thread_step sh e streams p StartSwap = (case start_swap p of (p, k) \<Rightarrow> Some (p, k, []))"
| "thread_step sh e streams p StartWait = (if waitStarting p = 0 then Some (p, StartWaited, []) else None)"
| "thread_step sh e streams p StartWaited = Some (p, if pstate p = StateReady then ReqServe else ReqFail, [])"
| "thread_step sh e streams p StartPrepare = Some (start_prepare p, StartCmd, [])"
| "thread_step sh e streams p StartCmd =
     (if cmdStarts e
      then Some (cmd_started p,
             if TrimSpace (CheckEndpoint (p_config p)) \<noteq> ''none'' then StartHealth (e_now e) else StartTTL,
             [WaitCmd])
      else Some (p, StartFailed, []))"
| "thread_step sh e streams p StartFailed = Some (start_failed p, StartErr, [])"
| "thread_step sh e streams p (StartHealth t) = Some (p, health_round e t p, [])"
| "thread_step sh e streams p StartTTL = Some (p, StartReady, if UnloadAfter (p_config p) > 0 then [TTLTick] else [])"
| "thread_step sh e streams p StartReady = (case start_ready p of (p, k) \<Rightarrow> Some (p, k, []))"
| "thread_step sh e streams p StartOk = Some (p\<lparr>waitStarting := waitStarting p - 1\<rparr>, ReqServe, [])"
| "thread_step sh e streams p StartErr = Some (p\<lparr>waitStarting := waitStarting p - 1\<rparr>, ReqFail, [])"
| "thread_step sh e streams p ReqServe = Some (p, ReqFinish Served, [])"
| "thread_step sh e streams p ReqFail =
     Some (p, ReqFinish (if SendLoadingState (p_config p) = Some True \<and> streams then LoadingError
                         else Status 502), [])"
| "thread_step sh e streams p (ReqFinish r) =
     Some (p\<lparr>lastRequestHandled := e_now e, inFlightRequestsCount := inFlightRequestsCount p - 1,
             inFlightRequests := inFlightRequests p - 1\<rparr>, ReqRelease r, [])"
| "thread_step sh e streams p (ReqRelease r) =
     Some (p\<lparr>concurrencyLimitSemaphore := chan_recv (concurrencyLimitSemaphore p)\<rparr>, ReqEnd r, [])"
| "thread_step sh e streams p (ReqEnd r) = None"
| "thread_step sh e streams p StopBegin =
     Some (p, if isValidTransition (pstate p) StateStopping then StopDrain else Gone, [])"
| "thread_step sh e streams p StopDrain = (if inFlightRequests p = 0 then Some (p, StopNow, []) else None)"
| "thread_step sh e streams p StopNow =
     Some (p, if isValidTransition (pstate p) StateStopping then StopSwap else Gone, [])"
| "thread_step sh e streams p StopSwap =
     (case swapState StateReady StateStopping p of
        (p, _, None) \<Rightarrow> Some (p, StopCmd AfterStop, []) | (p, _, Some _) \<Rightarrow> Some (p, Gone, []))"
| "thread_step sh e streams p (StopCmd a) = (case stopCommand a p of (p, k) \<Rightarrow> Some (p, k, []))"
| "thread_step sh e streams p (StopCmdWait a ch) =
     (if chan_closed p ch then case stopCommand_return a p of (p, k) \<Rightarrow> Some (p, k, []) else None)"
| "thread_step sh e streams p ShutBegin =
     Some (p, if isValidTransition (pstate p) StateStopping then StopCmd AfterShutdown else Gone, [])"
| "thread_step sh e streams p ShutForce = Some (forceState StateShutdown p, Gone, [])"
| "thread_step sh e streams p WaitCmd =
     (case cmd p of None \<Rightarrow> None
      | Some n \<Rightarrow> if n < length (commands p) \<and> commands p ! n = Exited then Some (p, WaitState, []) else None)"
| "thread_step sh e streams p WaitState = Some (wait_state p, WaitClose, [])"
| "thread_step sh e streams p WaitClose = Some (wait_close p, Gone, [])"
| "thread_step sh e streams p TTLTick = Some (p, ttl_tick e p, [])"
| "thread_step sh e streams p Gone = None"

subsection \<open>Schedules\<close>

type_synonym proc_state = "Process \<times> (bool \<times> pc) list"

text \<open>What is called from outside, any number of times.\<close>

datatype proc_call = CallProxyRequest bool | CallStop | CallStopImmediately | CallShutdown

fun call_pc :: "proc_call \<Rightarrow> bool \<times> pc" where
  "call_pc (CallProxyRequest streams) = (streams, ReqBegin)"
| "call_pc CallStop = (False, StopBegin)"
| "call_pc CallStopImmediately = (False, StopNow)"
| "call_pc CallShutdown = (False, ShutBegin)"

datatype proc_act = Call proc_call | Run nat env | CommandExits nat

text \<open>An action that is not enabled does nothing; a panic ends the program.\<close>

fun act_do :: "(string \<Rightarrow> string list) \<Rightarrow> proc_act \<Rightarrow> proc_state \<Rightarrow> proc_state" where
  "act_do sh (Call c) (p, ts) = (p, ts @ [call_pc c])"
| "act_do sh (Run i e) (p, ts) =
     (if i < length ts \<and> \<not> panicked p
      then (case ts ! i of (streams, k) \<Rightarrow>
              (case thread_step sh e streams p k of
                 None \<Rightarrow> (p, ts)
               | Some (p', k', new) \<Rightarrow> (p', ts[i := (streams, k')] @ map (Pair False) new)))
      else (p, ts))"
| "act_do sh (CommandExits n) (p, ts) =
     (if running p n then (p\<lparr>commands := (commands p)[n := Exited]\<rparr>, ts) else (p, ts))"

definition proc_run :: "(string \<Rightarrow> string list) \<Rightarrow> proc_act list \<Rightarrow> Process \<Rightarrow> proc_state" where
  "proc_run sh acts p = fold (act_do sh) acts (p, [])"

subsection \<open>Who holds what\<close>

text \<open>
  Where a request holds a slot of the semaphore, is counted as in flight, and is inside a start it
  has begun itself; and where a goroutine owns the process: it is about to run the command, or waits
  for it as \<open>waitForCmd\<close>.
\<close>

fun starter :: "pc \<Rightarrow> bool" where
  "starter StartPrepare = True"
| "starter StartCmd = True"
| "starter StartFailed = True"
| "starter (StartHealth t) = True"
| "starter StartTTL = True"
| "starter StartReady = True"
| "starter StartOk = True"
| "starter StartErr = True"
| "starter (StopCmd a) = (a = AfterTimeout)"
| "starter (StopCmdWait a ch) = (a = AfterTimeout)"
| "starter k = False"

fun counted :: "pc \<Rightarrow> bool" where
  "counted ReqCheck = True"
| "counted StartCheck = True"
| "counted StartSwap = True"
| "counted StartWait = True"
| "counted StartWaited = True"
| "counted ReqServe = True"
| "counted ReqFail = True"
| "counted (ReqFinish r) = True"
| "counted k = starter k"

fun slotted :: "pc \<Rightarrow> bool" where
  "slotted ReqAdd = True"
| "slotted (ReqRelease r) = True"
| "slotted k = counted k"

fun owner :: "pc \<Rightarrow> bool" where
  "owner StartPrepare = True"
| "owner StartCmd = True"
| "owner StartFailed = True"
| "owner WaitCmd = True"
| "owner WaitState = True"
| "owner k = False"

definition number :: "(pc \<Rightarrow> bool) \<Rightarrow> (bool \<times> pc) list \<Rightarrow> nat" where
  "number P ts = length (filter (\<lambda>t. P (snd t)) ts)"

lemma number_Nil [simp]: "number P [] = 0"
  by (simp add: number_def)

lemma number_append [simp]: "number P (ts @ us) = number P ts + number P us"
  by (simp add: number_def)

lemma number_Cons [simp]: "number P (t # ts) = of_bool (P (snd t)) + number P ts"
  by (simp add: number_def)

lemma number_spawned [simp]: "number P (map (Pair b) ks) = length (filter P ks)"
  by (induction ks) (simp_all add: number_def)

lemma number_update:
  assumes "i < length ts" "ts ! i = (b, k)"
  shows "number P (ts[i := (b, k')]) + of_bool (P k) = number P ts + of_bool (P k')"
proof -
  have "number P ts = number P (take i ts @ (b, k) # drop (Suc i) ts)"
    using id_take_nth_drop [OF assms(1)] assms(2) by metis
  then show ?thesis by (simp add: upd_conv_take_nth_drop [OF assms(1)])
qed

lemma number_pos: "i < length ts \<Longrightarrow> ts ! i = (b, k) \<Longrightarrow> P k \<Longrightarrow> 0 < number P ts"
  using nth_mem [of i ts] by (force simp: number_def length_greater_0_conv filter_empty_conv)

lemma number_mono: "(\<And>k. P k \<Longrightarrow> Q k) \<Longrightarrow> number P ts \<le> number Q ts"
  by (induction ts) auto

lemma swapState_cases:
  "swapState a b p = (p', cur, r) \<Longrightarrow>
    (if pstate p = a \<and> isValidTransition a b
     then r = None \<and> p' = p\<lparr>pstate := b, waitStarting := (if b = StateStarting then waitStarting p + 1 else waitStarting p),
            changes := changes p @ [(a, b)]\<rparr>
     else r \<noteq> None \<and> p' = p \<and> cur = pstate p)"
  by (auto simp: swapState_def Let_def split: if_splits)

lemmas thread_defs = start_check_def start_swap_def start_prepare_def cmd_started_def start_failed_def
  health_round_def start_ready_def wait_state_def wait_close_def ttl_tick_def stopCommand_def
  stopCommand_return_def forceState_def swapState_def Let_def

subsection \<open>Accounting\<close>

definition acc_ok :: "nat \<Rightarrow> proc_state \<Rightarrow> bool" where
  "acc_ok limit s \<longleftrightarrow> (case s of (p, ts) \<Rightarrow>
     inFlightRequests p = number counted ts \<and> inFlightRequestsCount p = int (number counted ts)
   \<and> waitStarting p = number starter ts
   \<and> slots_chan.balanced (concurrencyLimitSemaphore p) (number slotted ts)
   \<and> capacity (concurrencyLimitSemaphore p) = limit)"

text \<open>What one action adds to and takes from the four counters.\<close>

lemma thread_delta:
  assumes "thread_step sh e b p k = Some (p', k', new)"
    and "of_bool (counted k) \<le> inFlightRequests p" "of_bool (starter k) \<le> waitStarting p"
    and "of_bool (slotted k) \<le> tokens (concurrencyLimitSemaphore p)"
  shows "inFlightRequests p' + of_bool (counted k) = inFlightRequests p + of_bool (counted k')
    \<and> inFlightRequestsCount p' + of_bool (counted k) = inFlightRequestsCount p + of_bool (counted k')
    \<and> waitStarting p' + of_bool (starter k) = waitStarting p + of_bool (starter k')
    \<and> tokens (concurrencyLimitSemaphore p') + of_bool (slotted k)
        = tokens (concurrencyLimitSemaphore p) + of_bool (slotted k')
    \<and> capacity (concurrencyLimitSemaphore p') = capacity (concurrencyLimitSemaphore p)
    \<and> (tokens (concurrencyLimitSemaphore p) \<le> capacity (concurrencyLimitSemaphore p)
        \<longrightarrow> tokens (concurrencyLimitSemaphore p') \<le> capacity (concurrencyLimitSemaphore p'))
    \<and> filter counted new = [] \<and> filter starter new = [] \<and> filter slotted new = []"
  using assms
  by (cases k) (auto simp: thread_defs chan_send_def chan_recv_def split: if_splits option.splits after.splits)

lemma acc_ok_step:
  assumes "acc_ok limit s" shows "acc_ok limit (act_do sh a s)"
proof (cases s)
  case (Pair p ts)
  show ?thesis
  proof (cases a)
    case (Call c)
    then show ?thesis using assms Pair by (cases c) (simp_all add: acc_ok_def)
  next
    case (CommandExits n)
    then show ?thesis using assms Pair by (simp add: acc_ok_def)
  next
    case (Run i e)
    obtain b k where k: "ts ! i = (b, k)" by fastforce
    show ?thesis
    proof (cases "i < length ts \<and> \<not> panicked p \<and> thread_step sh e b p k \<noteq> None")
      case False
      then show ?thesis using assms Pair Run k by (auto split: option.split)
    next
      case True
      then obtain p' k' new where st: "thread_step sh e b p k = Some (p', k', new)" by auto
      have n: "number P (ts[i := (b, k')]) + of_bool (P k) = number P ts + of_bool (P k')"
        "of_bool (P k) \<le> number P ts" for P
        using number_update [of i ts b k P k'] number_pos [of i ts b k P] True k by auto
      have "acc_ok limit (p', ts[i := (b, k')] @ map (Pair False) new)"
        using thread_delta [OF st] n [of counted] n [of starter] n [of slotted] assms Pair
        by (cases "counted k"; cases "counted k'") (auto simp: acc_ok_def slots_chan.balanced_def)
      then show ?thesis using True Pair Run k st by simp
    qed
  qed
qed

lemma acc_ok_run: "acc_ok limit s \<Longrightarrow> acc_ok limit (fold (act_do sh) acts s)"
  by (induction acts arbitrary: s) (simp_all only: fold_Nil fold_Cons comp_apply id_apply acc_ok_step)


text \<open>
  C30. Accounting: in every state any interleaving of requests, stops, shutdowns, command exits and
  watchers can reach, the in-flight counters are the number of requests being handled, the
  \<open>waitStarting\<close> group counts exactly the starts under way, and the semaphore holds one token for each
  request that has passed it, never more than the configured limit (10 when there is none); so no slot
  and no in-flight count is lost or returned twice, whatever errors the requests end with.
\<close>

theorem process_accounting:
  "let (p, ts) = proc_run sh acts (NewProcess urlOK ID timeout mc) in
     inFlightRequests p = number counted ts \<and> inFlightRequestsCount p = int (number counted ts)
   \<and> waitStarting p = number starter ts
   \<and> tokens (concurrencyLimitSemaphore p) = number slotted ts
   \<and> number slotted ts \<le> (if ConcurrencyLimit mc > 0 then nat (ConcurrencyLimit mc) else 10)"
proof -
  have "acc_ok (if ConcurrencyLimit mc > 0 then nat (ConcurrencyLimit mc) else 10) (NewProcess urlOK ID timeout mc, [])"
    by (simp add: acc_ok_def NewProcess_def slots_chan.balanced_def)
  from acc_ok_run [OF this, of sh acts] show ?thesis
    by (simp only: proc_run_def) (auto simp: acc_ok_def slots_chan.balanced_def split: prod.splits if_splits)
qed

subsection \<open>One command at a time\<close>

fun waiter :: "pc \<Rightarrow> bool" where
  "waiter WaitCmd = True"
| "waiter k = False"

definition own_ok :: "proc_state \<Rightarrow> bool" where
  "own_ok s \<longleftrightarrow> (case s of (p, ts) \<Rightarrow>
     number owner ts \<le> (if pstate p = StateStopped then 0 else 1)
   \<and> (\<forall>n. running p n \<longrightarrow> cmd p = Some n \<and> 0 < number waiter ts))"

lemma own_okD: "own_ok (p, ts) \<Longrightarrow> running p n \<Longrightarrow> cmd p = Some n \<and> 0 < number waiter ts"
  by (simp add: own_ok_def)

lemma running_unique: "own_ok (p, ts) \<Longrightarrow> running p m \<Longrightarrow> running p n \<Longrightarrow> m = n"
  using own_okD [of p ts m] own_okD [of p ts n] by simp

lemma running_exit:
  "running (p\<lparr>commands := (commands p)[n := Exited]\<rparr>) m \<longleftrightarrow> running p m \<and> m \<noteq> n"
  by (cases "m = n") (auto simp: running_def)

lemma waiter_owner: "number waiter ts \<le> number owner ts"
proof (rule number_mono)
  show "owner k" if "waiter k" for k using that by (cases k) simp_all
qed

text \<open>
  An action keeps the ownership: it is a step from a state with at most one owner, and an owner that is
  not waiting for a command excludes a running one.
\<close>

lemma owner_delta:
  assumes "thread_step sh e b p k = Some (p', k', new)"
  shows "(if pstate p = StateStopped then k = StartSwap \<or> of_bool (owner k') + length (filter owner new) \<le> of_bool (owner k)
          else of_bool (owner k') + length (filter owner new) \<le> of_bool (owner k))
    \<and> (pstate p' = StateStopped \<longrightarrow> pstate p = StateStopped \<or> owner k \<and> \<not> owner k' \<and> new = [])
    \<and> (k = StartSwap \<longrightarrow> new = [] \<and> (owner k' \<longrightarrow> pstate p' \<noteq> StateStopped))"
  using assms
  by (cases k) (auto simp: thread_defs split: if_splits option.splits after.splits)

lemma running_delta:
  assumes "thread_step sh e b p k = Some (p', k', new)"
  shows "(running p' n \<longrightarrow> running p n \<and> cmd p' = cmd p \<and> (waiter k \<longrightarrow> cmd p \<noteq> Some n)
           \<or> running p n \<and> k = StartPrepare
           \<or> k = StartCmd \<and> (running p n \<or> cmd p' = Some n \<and> WaitCmd \<in> set new))"
  using assms
  by (cases k) (auto simp: thread_defs running_def nth_append nth_list_update split: if_splits option.splits after.splits)


lemma waiter_and_owner:
  assumes "i < length ts" "ts ! i = (b, k)" "owner k" "\<not> waiter k"
  shows "number waiter ts < number owner ts"
proof -
  have "number waiter ts + number (\<lambda>k. owner k \<and> \<not> waiter k) ts \<le> number owner ts"
  proof (induction ts)
    case (Cons t ts)
    then show ?case by (cases "snd t") simp_all
  qed simp
  moreover have "0 < number (\<lambda>k. owner k \<and> \<not> waiter k) ts"
    using number_pos [of i ts b k "\<lambda>k. owner k \<and> \<not> waiter k"] assms by simp
  ultimately show ?thesis by linarith
qed

lemma own_ok_run1:
  assumes ok: "own_ok (p, ts)" and i: "i < length ts" "ts ! i = (b, k)"
    and st: "thread_step sh e b p k = Some (p', k', new)"
  shows "own_ok (p', ts[i := (b, k')] @ map (Pair False) new)"
proof -
  let ?ts = "ts[i := (b, k')] @ map (Pair False) new"
  have n: "number P ?ts + of_bool (P k) = number P ts + of_bool (P k') + length (filter P new)" for P
    using number_update [OF i, of P k'] by simp
  have le1: "number owner ts \<le> 1" using ok by (auto simp: own_ok_def split: if_splits)
  have "owner k \<Longrightarrow> 0 < number owner ts" using number_pos [OF i] by blast
  then have "number owner ?ts \<le> (if pstate p' = StateStopped then 0 else 1)"
    using n [of owner] owner_delta [OF st] ok
    by (cases "owner k"; cases "pstate p = StateStopped"; cases "pstate p' = StateStopped")
      (auto simp: own_ok_def split: if_splits)
  moreover have "cmd p' = Some m \<and> 0 < number waiter ?ts" if m: "running p' m" for m
  proof -
    have no: "\<not> running p m" if "owner k" "\<not> waiter k"
      using waiter_and_owner [OF i that] le1 ok by (auto simp: own_ok_def)
    from running_delta [OF st, of m] m consider
      "running p m" "cmd p' = cmd p" "waiter k \<longrightarrow> cmd p \<noteq> Some m"
      | "cmd p' = Some m" "WaitCmd \<in> set new" "k = StartCmd"
      using no by auto
    then show ?thesis
    proof cases
      case 1
      then have "cmd p = Some m" "0 < number waiter ts" using ok by (auto simp: own_ok_def)
      with 1 n [of waiter] show ?thesis by auto
    next
      case 2
      then have "0 < length (filter waiter new)"
        by (auto simp: length_greater_0_conv filter_empty_conv intro: bexI [of _ WaitCmd])
      with 2 n [of waiter] show ?thesis by simp
    qed
  qed
  ultimately show ?thesis unfolding own_ok_def by blast
qed

lemma own_ok_exit:
  assumes "own_ok (p, ts)"
  shows "own_ok (p\<lparr>commands := (commands p)[n := Exited]\<rparr>, ts)" (is "own_ok (?p, ts)")
  unfolding own_ok_def prod.case
proof (intro conjI allI impI)
  show "number owner ts \<le> (if pstate ?p = StateStopped then 0 else 1)"
    using assms by (simp add: own_ok_def)
  fix m assume "running ?p m"
  then have "running p m" by (simp only: running_exit)
  from own_okD [OF assms this] show "cmd ?p = Some m" "0 < number waiter ts" by simp_all
qed

lemma own_ok_step:
  assumes "own_ok s" shows "own_ok (act_do sh a s)"
proof (cases s)
  case (Pair p ts)
  show ?thesis
  proof (cases a)
    case (Call c)
    then show ?thesis using assms Pair by (cases c) (auto simp: own_ok_def)
  next
    case (CommandExits n)
    then show ?thesis using assms Pair own_ok_exit by simp
  next
    case (Run i e)
    then show ?thesis using assms Pair
      by (auto split: option.split prod.split intro: own_ok_run1)
  qed
qed

lemma own_ok_run: "own_ok s \<Longrightarrow> own_ok (fold (act_do sh) acts s)"
  by (induction acts arbitrary: s) (simp_all only: fold_Nil fold_Cons comp_apply id_apply own_ok_step)

text \<open>
  C31. One command at a time: whatever requests, stops, shutdowns and watchers run concurrently, and
  however starts fail or overlap, at most one upstream command of the process is running, and none is
  running while the process is in the stopped state.
\<close>

theorem process_single_command:
  "let (p, ts) = proc_run sh acts (NewProcess urlOK ID timeout mc) in
     length (filter (\<lambda>c. c = Running) (commands p)) \<le> (if pstate p = StateStopped then 0 else 1)"
proof -
  obtain p ts where r: "proc_run sh acts (NewProcess urlOK ID timeout mc) = (p, ts)" by fastforce
  have "own_ok (NewProcess urlOK ID timeout mc, [])"
    by (simp add: own_ok_def NewProcess_def running_def)
  from own_ok_run [OF this, of sh acts] have ok: "own_ok (p, ts)" using r by (simp add: proc_run_def)
  have one: "j = k" if "running p j" "running p k" for j k
    using running_unique [OF ok] that .
  have none: "\<not> running p j" if "pstate p = StateStopped" for j
    using ok that waiter_owner [of ts] by (auto simp: own_ok_def)
  have "length (filter (\<lambda>c. c = Running) (commands p)) = card {j. running p j}"
    by (simp add: length_filter_conv_card running_def)
  moreover have "card {j. running p j} \<le> 1"
    using one by (metis (no_types, lifting) card_le_Suc0_iff_eq card.infinite le_zero_eq mem_Collect_eq nat_le_linear One_nat_def)
  moreover have "pstate p = StateStopped \<longrightarrow> card {j. running p j} = 0" using none by simp
  ultimately show ?thesis unfolding r prod.case Let_def by simp
qed


subsection \<open>Two races\<close>

definition race_model :: ModelConfig where
  "race_model = (modelDefaults False)\<lparr>Proxy := ''http://localhost:5800'', CheckEndpoint := ''none''\<rparr>"

definition race_env :: env where
  "race_env = \<lparr>e_now = 0, cmdStarts = True, urlJoins = True, healthy = True\<rparr>"

text \<open>\<open>runs i n\<close> lets goroutine \<open>i\<close> take \<open>n\<close> steps.\<close>

definition runs :: "nat \<Rightarrow> nat \<Rightarrow> proc_act list" where
  "runs i n = replicate n (Run i race_env)"

text \<open>
  A first request starts the command (goroutine 0, with goroutine 1 waiting for it); the command exits, and
  between the two last actions of \<open>waitForCmd\<close> a second request starts the next one.
\<close>

definition first_exits :: "proc_act list" where
  "first_exits = Call (CallProxyRequest False) # runs 0 14 @ CommandExits 0 # runs 1 2"

definition double_close :: "proc_act list" where
  "double_close = first_exits @ Call (CallProxyRequest False) # runs 2 7 @ runs 1 1 @ runs 2 1
     @ CommandExits 1 # runs 3 3"

text \<open>
  A shutdown of a ready process waits for the command to exit; before it forces the shutdown state, a
  request starts the command again.
\<close>

definition late_shutdown :: "proc_act list" where
  "late_shutdown = Call (CallProxyRequest False) # runs 0 14 @ Call CallShutdown # runs 2 2
     @ CommandExits 0 # runs 1 3 @ runs 2 1 @ Call (CallProxyRequest False) # runs 3 8 @ runs 2 1"

lemmas race_simps = proc_run_def first_exits_def double_close_def late_shutdown_def runs_def race_env_def
  race_model_def modelDefaults_def NewProcess_def thread_defs chan_send_def chan_recv_def chan_closed_def
  running_def ModelConfig_SanitizedCommand_def SanitizeCommand_def numeral_eq_Suc

lemma race_none: "TrimSpace ''none'' = ''none''"
  by code_simp

text \<open>
  Two races of the code. When a request restarts the process between the state change and the close
  in \<open>waitForCmd\<close>, the close hits the new start's channel, which the second \<open>waitForCmd\<close> then closes again:
  a panic. And \<open>Shutdown\<close> is not final: a process can be in the shutdown state with its command running,
  and return to the stopped state, from which a request starts it again.
\<close>

theorem process_races:
  "(let p0 = NewProcess (\<lambda>_. True) ''m'' 120 race_model; sh = (\<lambda>_. [''serve'']) in
     panicked (fst (proc_run sh double_close p0))
   \<and> pstate (fst (proc_run sh late_shutdown p0)) = StateShutdown
   \<and> Running \<in> set (commands (fst (proc_run sh late_shutdown p0)))
   \<and> pstate (fst (proc_run sh (late_shutdown @ CommandExits 1 # runs 4 3) p0)) = StateStopped
   \<and> pstate (fst (proc_run sh (late_shutdown @ CommandExits 1 # runs 4 3
        @ Call (CallProxyRequest False) # runs 5 11) p0)) = StateReady)"
  unfolding Let_def by (intro conjI; simp add: race_simps race_none)

subsection \<open>The ready check loop ends\<close>

text \<open>The rounds of the loop: what each round reads, the process being changed by others in between.\<close>

fun health_loop :: "int \<Rightarrow> (env \<times> Process) list \<Rightarrow> pc" where
  "health_loop checkStartTime [] = StartHealth checkStartTime"
| "health_loop checkStartTime ((e, p) # rounds) =
     (case health_round e checkStartTime p of
        StartHealth t \<Rightarrow> health_loop t rounds | k \<Rightarrow> k)"

definition healthCheckLoopInterval :: int where
  "healthCheckLoopInterval = 5 * second"


lemma health_round_cases:
  "health_round e t p \<in> {StartErr, StopCmd AfterTimeout, StartTTL, StartHealth t}"
  by (simp add: health_round_def)

lemma health_loop_cases:
  "health_loop t rounds \<in> {StartErr, StopCmd AfterTimeout, StartTTL}
   \<or> list_all (\<lambda>(e, p). health_round e t p = StartHealth t) rounds"
proof (induction rounds)
  case (Cons r rounds)
  then show ?case using health_round_cases [of "fst r" t "snd r"] by (cases r) auto
qed simp

lemma health_loop_passed:
  "health_loop t rounds = StartTTL \<Longrightarrow> list_ex (\<lambda>(e, p). health_round e t p = StartTTL) rounds"
proof (induction rounds)
  case (Cons r rounds)
  then show ?case using health_round_cases [of "fst r" t "snd r"] by (cases r) auto
qed simp

text \<open>
  C33. Waiting for readiness ends: with the rounds of the ready check loop at least five seconds apart, as
  the loop sleeps, once there have been more rounds than the health check timeout has room for the loop
  has been left - ready, interrupted, or timed out with the command being stopped - whatever the
  endpoint answers and others do to the process; and it is left as ready only after a health check that
  passed in time while the process was still starting.
\<close>

theorem health_loop_ends:
  assumes "\<forall>k < length rounds. checkStartTime + int k * healthCheckLoopInterval \<le> e_now (fst (rounds ! k))"
    and "list_all (\<lambda>(e, p). healthCheckTimeout p = timeout) rounds"
    and "timeout < 5 * (int (length rounds) - 1)" "rounds \<noteq> []"
  shows "health_loop checkStartTime rounds \<in> {StartErr, StopCmd AfterTimeout, StartTTL}
    \<and> (health_loop checkStartTime rounds = StartTTL \<longrightarrow>
        list_ex (\<lambda>(e, p). healthy e \<and> pstate p = StateStarting
          \<and> e_now e - checkStartTime \<le> second * timeout) rounds)"
proof
  obtain e p where r: "last rounds = (e, p)" by fastforce
  then have mem: "(e, p) \<in> set rounds" using assms(4) last_in_set [of rounds] by simp
  have "checkStartTime + (int (length rounds) - 1) * healthCheckLoopInterval \<le> e_now e"
    using assms(1) [rule_format, of "length rounds - 1"] assms(4) r last_conv_nth [of rounds]
    by (simp add: of_nat_diff Suc_leI)
  then have "e_now e - checkStartTime > second * timeout"
    using assms(3) by (simp add: healthCheckLoopInterval_def second_def algebra_simps)
  then have "health_round e checkStartTime p \<noteq> StartHealth checkStartTime"
    using assms(2) mem by (auto simp: health_round_def list_all_iff)
  then show "health_loop checkStartTime rounds \<in> {StartErr, StopCmd AfterTimeout, StartTTL}"
    using health_loop_cases [of checkStartTime rounds] mem by (auto simp: list_all_iff)
  show "health_loop checkStartTime rounds = StartTTL \<longrightarrow>
      list_ex (\<lambda>(e, p). healthy e \<and> pstate p = StateStarting
        \<and> e_now e - checkStartTime \<le> second * timeout) rounds"
    using health_loop_passed [of checkStartTime rounds] assms(2)
    by (fastforce simp: list_ex_iff list_all_iff health_round_def split: if_splits)
qed

theorem health_loop_ends_witness:
  "let p = (NewProcess (\<lambda>_. True) ''m'' 15 race_model)\<lparr>pstate := StateStarting\<rparr>;
       refused = (\<lambda>t. (\<lparr>e_now = t, cmdStarts = True, urlJoins = True, healthy = False\<rparr>, p)) in
     health_loop 0 (map refused [0, 5 * second, 10 * second, 15 * second, 21 * second]) = StopCmd AfterTimeout
   \<and> health_loop 0 (map refused [0, 5 * second, 10 * second, 15 * second, 21 * second])
        \<in> {StartErr, StopCmd AfterTimeout, StartTTL}"
proof -
  let ?p = "(NewProcess (\<lambda>_. True) ''m'' 15 race_model)\<lparr>pstate := StateStarting\<rparr>"
  let ?r = "map (\<lambda>t. (\<lparr>e_now = t, cmdStarts = True, urlJoins = True, healthy = False\<rparr>, ?p))
     [0, 5 * second, 10 * second, 15 * second, 21 * second]"
  have at: "\<forall>k < length ?r. 0 + int k * healthCheckLoopInterval \<le> e_now (fst (?r ! k))"
    by (auto simp: healthCheckLoopInterval_def second_def less_Suc_eq)
  have "list_all (\<lambda>(e, p). healthCheckTimeout p = 15) ?r" by (simp add: NewProcess_def)
  then have "health_loop 0 ?r \<in> {StartErr, StopCmd AfterTimeout, StartTTL}"
    by (rule health_loop_ends [OF at, THEN conjunct1]) simp_all
  then show ?thesis by (simp add: Let_def health_round_def NewProcess_def second_def)
qed

end
