(* ===== verification/Process_Groups.thy ===== *)
theory Process_Groups
  imports Process_Lifecycle Config_Load
begin

section \<open>Groups of processes (proxy/processgroup.go, swapProcessGroup in proxy/proxymanager.go)\<close>

text \<open>
  A group owns the processes of its members; a swapping group stops the last used process before it
  serves another model, and a request to an exclusive group first stops the other groups. What a group
  relies on is the locale \<open>member_process\<close>: the calls it makes on a process when nothing else runs.
  These calls are the methods of \<open>Process_Lifecycle\<close> run to their end without interleaving, composed
  from the same atomic actions; how a start ends is an argument.
\<close>

subsection \<open>A process method run alone\<close>

datatype start_outcome = CommandFails | CommandEnds | NeverHealthy | BecomesReady

text \<open>The running command ends and \<open>waitForCmd\<close> handles it.\<close>

definition command_ends :: "Process \<Rightarrow> Process" where
  "command_ends p =
     (let p = (case cmd p of None \<Rightarrow> p | Some n \<Rightarrow> p\<lparr>commands := (commands p)[n := Exited]\<rparr>)
      in wait_close (wait_state p))"

definition starting_done :: "Process \<Rightarrow> Process" where
  "starting_done p = p\<lparr>waitStarting := waitStarting p - 1\<rparr>"

definition stop_and_wait :: "after \<Rightarrow> Process \<Rightarrow> Process" where
  "stop_and_wait a p =
     (case cancelUpstream p of
        None \<Rightarrow> fst (stopCommand a p)
      | Some n \<Rightarrow> fst (stopCommand_return a (command_ends (fst (stopCommand a p)))))"

definition start_alone :: "(string \<Rightarrow> string list) \<Rightarrow> start_outcome \<Rightarrow> Process \<Rightarrow> Process \<times> bool" where
  "start_alone sh out p =
     (if start_check sh p \<noteq> StartSwap then (p, False)
      else case start_swap p of (p, k) \<Rightarrow>
        if k \<noteq> StartPrepare then (p, False)
        else (let p = start_prepare p in
          case out of
            CommandFails \<Rightarrow> (starting_done (start_failed p), False)
          | CommandEnds \<Rightarrow> (starting_done (command_ends (cmd_started p)), False)
          | NeverHealthy \<Rightarrow> (starting_done (stop_and_wait AfterTimeout (cmd_started p)), False)
          | BecomesReady \<Rightarrow>
              (case start_ready (cmd_started p) of (p, k) \<Rightarrow> (starting_done p, k = StartOk))))"

definition ProxyRequest_alone ::
  "(string \<Rightarrow> string list) \<Rightarrow> start_outcome \<Rightarrow> bool \<Rightarrow> int \<Rightarrow> Process \<Rightarrow> Process \<times> response" where
  "ProxyRequest_alone sh out streams now p =
     (if \<not> reverseProxy p then (p, Status 500)
      else if pstate p = StateShutdown \<or> pstate p = StateStopping then (p, Status 503)
      else case chan_send (concurrencyLimitSemaphore p) of
        None \<Rightarrow> (p, Status 429)
      | Some c \<Rightarrow>
          (let p = p\<lparr>concurrencyLimitSemaphore := c, inFlightRequests := inFlightRequests p + 1,
                     inFlightRequestsCount := inFlightRequestsCount p + 1\<rparr>;
               (p, ok) = (if pstate p \<noteq> StateReady then start_alone sh out p else (p, True));
               p = p\<lparr>lastRequestHandled := now, inFlightRequestsCount := inFlightRequestsCount p - 1,
                     inFlightRequests := inFlightRequests p - 1,
                     concurrencyLimitSemaphore := chan_recv (concurrencyLimitSemaphore p)\<rparr>
           in (p, if ok then Served
                  else if SendLoadingState (p_config p) = Some True \<and> streams then LoadingError
                  else Status 502)))"

definition StopImmediately_alone :: "Process \<Rightarrow> Process" where
  "StopImmediately_alone p =
     (if \<not> isValidTransition (pstate p) StateStopping then p
      else case swapState StateReady StateStopping p of
        (p, _, None) \<Rightarrow> stop_and_wait AfterStop p
      | (p, _, Some _) \<Rightarrow> p)"

text \<open>\<open>Stop\<close> with no request in flight, so that its wait returns at once.\<close>

definition Stop_alone :: "Process \<Rightarrow> Process" where
  "Stop_alone p = (if \<not> isValidTransition (pstate p) StateStopping then p else StopImmediately_alone p)"

definition Shutdown_alone :: "Process \<Rightarrow> Process" where
  "Shutdown_alone p =
     (if \<not> isValidTransition (pstate p) StateStopping then p
      else forceState StateShutdown (stop_and_wait AfterShutdown p))"

subsection \<open>The group\<close>

datatype StopStrategy = StopImmediately | StopWaitForInflightRequest

record ProcessGroup =
  pg_id :: string
  pg_swap :: bool
  pg_exclusive :: bool
  pg_persistent :: bool
  pg_members :: "string list"
  processes :: "(string \<times> Process) list"
  lastUsedProcess :: string

text \<open>What \<open>FindConfig\<close> returns for an unknown name: the zero values.\<close>

definition zeroModel :: ModelConfig where
  "zeroModel = (modelDefaults False)\<lparr>Proxy := [], CheckEndpoint := []\<rparr>"

definition member_config :: "Config \<Rightarrow> string \<Rightarrow> ModelConfig \<times> string" where
  "member_config c member =
     (case FindConfig c member of Some (Some mc, name) \<Rightarrow> (mc, name) | _ \<Rightarrow> (zeroModel, []))"

text \<open>The loop over the members; \<open>None\<close> is the panic for an unknown group id.\<close>

definition NewProcessGroup :: "(string \<Rightarrow> bool) \<Rightarrow> string \<Rightarrow> Config \<Rightarrow> ProcessGroup option" where
  "NewProcessGroup urlOK ID c =
     (case map_of (Groups c) ID of
        None \<Rightarrow> None
      | Some g \<Rightarrow> Some \<lparr>pg_id = ID, pg_swap = Swap g, pg_exclusive = Exclusive g, pg_persistent = Persistent g,
          pg_members = Members g,
          processes = foldl (\<lambda>ps member. case member_config c member of (mc, modelID) \<Rightarrow>
             AList.update modelID (NewProcess urlOK modelID (HealthCheckTimeout c) mc) ps) [] (Members g),
          lastUsedProcess = []\<rparr>)"

definition HasMember :: "ProcessGroup \<Rightarrow> string \<Rightarrow> bool" where
  "HasMember pg modelName = (modelName \<in> set (pg_members pg))"

definition GetMember :: "ProcessGroup \<Rightarrow> string \<Rightarrow> Process option \<times> bool" where
  "GetMember pg modelName =
     (if HasMember pg modelName then (map_of (processes pg) modelName, True) else (None, False))"

datatype group_error = NotPartOfGroup | NilProcess | ProcessNotFound

text \<open>A method called on one process of the group.\<close>

definition on_process :: "string \<Rightarrow> (Process \<Rightarrow> Process) \<Rightarrow> ProcessGroup \<Rightarrow> ProcessGroup" where
  "on_process modelID f pg =
     (case map_of (processes pg) modelID of
        None \<Rightarrow> pg | Some p \<Rightarrow> pg\<lparr>processes := AList.update modelID (f p) (processes pg)\<rparr>)"

text \<open>
  \<open>ProxyRequest\<close>; \<open>serve\<close> is the request run on its process. The error \<open>NilProcess\<close> is the panic of a
  method called on a missing map entry.
\<close>

definition group_ProxyRequest ::
  "(Process \<Rightarrow> Process \<times> response) \<Rightarrow> string \<Rightarrow> ProcessGroup \<Rightarrow> ProcessGroup \<times> (group_error + response)" where
  "group_ProxyRequest serve modelID pg =
     (if \<not> HasMember pg modelID then (pg, Inl NotPartOfGroup)
      else
        let swapping = (pg_swap pg \<and> lastUsedProcess pg \<noteq> modelID);
            pg = (if swapping \<and> lastUsedProcess pg \<noteq> [] then on_process (lastUsedProcess pg) Stop_alone pg else pg)
        in case map_of (processes pg) modelID of
             None \<Rightarrow> (pg, Inl NilProcess)
           | Some p \<Rightarrow>
               (let pg = on_process modelID (fst \<circ> serve) pg;
                    pg = (if swapping then pg\<lparr>lastUsedProcess := modelID\<rparr> else pg)
                in (pg, Inr (snd (serve p)))))"

definition stop_with :: "StopStrategy \<Rightarrow> Process \<Rightarrow> Process" where
  "stop_with strategy = (case strategy of StopImmediately \<Rightarrow> StopImmediately_alone | _ \<Rightarrow> Stop_alone)"

definition StopProcess :: "string \<Rightarrow> StopStrategy \<Rightarrow> ProcessGroup \<Rightarrow> ProcessGroup \<times> group_error option" where
  "StopProcess modelID strategy pg =
     (case map_of (processes pg) modelID of
        None \<Rightarrow> (pg, Some ProcessNotFound)
      | Some p \<Rightarrow>
          (let pg = (if lastUsedProcess pg = modelID then pg\<lparr>lastUsedProcess := []\<rparr> else pg)
           in (on_process modelID (stop_with strategy) pg, None)))"

definition StopProcesses :: "StopStrategy \<Rightarrow> ProcessGroup \<Rightarrow> ProcessGroup" where
  "StopProcesses strategy pg =
     (if length (processes pg) = 0 then pg
      else pg\<lparr>processes := map (apsnd (stop_with strategy)) (processes pg)\<rparr>)"

definition group_Shutdown :: "ProcessGroup \<Rightarrow> ProcessGroup" where
  "group_Shutdown pg = pg\<lparr>processes := map (apsnd Shutdown_alone) (processes pg)\<rparr>"

subsection \<open>All groups\<close>

type_synonym groups = "(string \<times> ProcessGroup) list"

definition newGroups :: "(string \<Rightarrow> bool) \<Rightarrow> Config \<Rightarrow> groups" where
  "newGroups urlOK c = List.map_filter (\<lambda>(ID, g). map_option (Pair ID) (NewProcessGroup urlOK ID c)) (Groups c)"

definition findGroupByModelName :: "groups \<Rightarrow> string \<Rightarrow> ProcessGroup option" where
  "findGroupByModelName gs modelName = map_option snd (find (\<lambda>(_, g). HasMember g modelName) gs)"

definition swapProcessGroup :: "string \<Rightarrow> groups \<Rightarrow> groups \<times> ProcessGroup option" where
  "swapProcessGroup realModelName gs =
     (case findGroupByModelName gs realModelName of
        None \<Rightarrow> (gs, None)
      | Some pg \<Rightarrow>
          (if pg_exclusive pg
           then map (\<lambda>(groupId, g). (groupId,
                  if groupId \<noteq> pg_id pg \<and> \<not> pg_persistent g then StopProcesses StopWaitForInflightRequest g else g)) gs
           else gs, Some pg))"

definition pm_StopProcesses :: "StopStrategy \<Rightarrow> groups \<Rightarrow> groups" where
  "pm_StopProcesses strategy = map (apsnd (StopProcesses strategy))"

definition pm_Shutdown :: "groups \<Rightarrow> groups" where
  "pm_Shutdown = map (apsnd group_Shutdown)"

text \<open>A request for a local model: swap, then the group's \<open>ProxyRequest\<close>.\<close>

definition local_request ::
  "(Process \<Rightarrow> Process \<times> response) \<Rightarrow> string \<Rightarrow> groups \<Rightarrow> groups \<times> (group_error + response) option" where
  "local_request serve modelID gs =
     (case swapProcessGroup modelID gs of
        (gs, None) \<Rightarrow> (gs, None)
      | (gs, Some pg) \<Rightarrow>
          (case map_of gs (pg_id pg) of
             None \<Rightarrow> (gs, None)
           | Some pg' \<Rightarrow>
               (case group_ProxyRequest serve modelID pg' of
                  (pg'', r) \<Rightarrow> (AList.update (pg_id pg) pg'' gs, Some r))))"

text \<open>What \<open>listRunningProcessesHandler\<close> reports.\<close>

definition runningProcesses :: "groups \<Rightarrow> string list" where
  "runningProcesses gs = concat (map (\<lambda>(_, g).
     map (p_ID \<circ> snd) (filter (\<lambda>(_, p). pstate p = StateReady) (processes g))) gs)"


subsection \<open>What a group relies on\<close>

locale member_process =
  fixes serve :: "'o \<Rightarrow> 'p \<Rightarrow> 'p \<times> 'r"
    and stop :: "'s \<Rightarrow> 'p \<Rightarrow> 'p"
    and quiet :: "'p \<Rightarrow> bool"
    and up :: "'p \<Rightarrow> bool"
  assumes serve_quiet: "quiet p \<Longrightarrow> quiet (fst (serve out p))"
    and stop_quiet: "quiet p \<Longrightarrow> quiet (stop st p)"
    and stop_down: "quiet p \<Longrightarrow> \<not> up (stop st p)"
begin

text \<open>All members are quiet, and at most the named one is up.\<close>

definition only_up :: "'k \<Rightarrow> ('k \<times> 'p) list \<Rightarrow> bool" where
  "only_up m ps \<longleftrightarrow> distinct (map fst ps) \<and> (\<forall>(k, p) \<in> set ps. quiet p \<and> (up p \<longrightarrow> k = m))"

definition all_quiet :: "('k \<times> 'p) list \<Rightarrow> bool" where
  "all_quiet ps \<longleftrightarrow> distinct (map fst ps) \<and> (\<forall>(k, p) \<in> set ps. quiet p)"

definition all_down :: "('k \<times> 'p) list \<Rightarrow> bool" where
  "all_down ps \<longleftrightarrow> all_quiet ps \<and> (\<forall>(k, p) \<in> set ps. \<not> up p)"

lemma only_up_quiet: "only_up m ps \<Longrightarrow> all_quiet ps"
  by (auto simp: only_up_def all_quiet_def)

lemma all_down_only: "all_down ps \<Longrightarrow> only_up m ps"
  by (auto simp: only_up_def all_quiet_def all_down_def)

lemma all_down_quiet: "all_down ps \<Longrightarrow> all_quiet ps"
  by (simp add: all_down_def)

lemma quiet_update:
  "all_quiet ps \<Longrightarrow> map_of ps m = Some p \<Longrightarrow> quiet p' \<Longrightarrow> all_quiet (AList.update m p' ps)"
  by (auto simp: all_quiet_def set_alist_update distinct_update)

lemma quiet_member: "all_quiet ps \<Longrightarrow> map_of ps m = Some p \<Longrightarrow> quiet p"
  by (auto simp: all_quiet_def dest: map_of_SomeD)

lemma serve_all_quiet:
  "all_quiet ps \<Longrightarrow> map_of ps m = Some p \<Longrightarrow> all_quiet (AList.update m (fst (serve out p)) ps)"
  using quiet_update quiet_member serve_quiet by metis

lemma stop_all_quiet:
  "all_quiet ps \<Longrightarrow> map_of ps m = Some p \<Longrightarrow> all_quiet (AList.update m (stop st p) ps)"
  using quiet_update quiet_member stop_quiet by metis

text \<open>Stopping the member that may be up leaves nothing up; serving one member puts only that one up.\<close>

lemma stop_the_one:
  assumes "only_up m ps" "map_of ps m = Some p"
  shows "all_down (AList.update m (stop st p) ps)"
proof -
  have q: "all_quiet ps" by (rule only_up_quiet [OF assms(1)])
  have "\<not> up (stop st p)" by (rule stop_down [OF quiet_member [OF q assms(2)]])
  then show ?thesis
    using stop_all_quiet [OF q assms(2)] assms
    by (auto simp: all_down_def only_up_def set_alist_update)
qed

lemma nothing_up: "only_up m ps \<Longrightarrow> map_of ps m = None \<Longrightarrow> all_down ps"
  by (auto simp: only_up_def all_down_def all_quiet_def map_of_eq_None_iff image_iff)

lemma serve_the_one:
  assumes "only_up m ps" "map_of ps m = Some p"
  shows "only_up m (AList.update m (fst (serve out p)) ps)"
  using assms serve_all_quiet [OF only_up_quiet [OF assms(1)] assms(2), of out]
  by (auto simp: all_quiet_def only_up_def set_alist_update)

lemma stop_other:
  assumes "only_up m ps" "map_of ps k = Some p"
  shows "only_up m (AList.update k (stop st p) ps)"
  using assms stop_all_quiet [OF only_up_quiet [OF assms(1)] assms(2), of st]
    stop_down [OF quiet_member [OF only_up_quiet [OF assms(1)] assms(2)]]
  by (auto simp: all_quiet_def only_up_def set_alist_update)

lemma stop_every: "all_quiet ps \<Longrightarrow> all_down (map (apsnd (stop st)) ps)"
  by (auto simp: all_quiet_def all_down_def stop_quiet stop_down comp_def)

lemma only_up_number: "only_up m ps \<Longrightarrow> length (filter (\<lambda>(_, p). up p) ps) \<le> 1"
proof (induction ps)
  case (Cons a ps)
  obtain k p where a: "a = (k, p)" by fastforce
  have "only_up m ps" using Cons.prems by (auto simp: only_up_def)
  moreover have "filter (\<lambda>(_, p). up p) ps = []" if "up p"
    using Cons.prems that a by (fastforce simp: only_up_def filter_empty_conv)
  ultimately show ?case using Cons.IH a by auto
qed simp

end

subsection \<open>A process run alone is such a member\<close>

definition quiet_process :: "Process \<Rightarrow> bool" where
  "quiet_process p \<longleftrightarrow> pstate p \<in> {StateStopped, StateReady, StateShutdown} \<and> \<not> panicked p
     \<and> inFlightRequests p = 0 \<and> waitStarting p = 0
     \<and> (pstate p = StateReady \<longrightarrow> cancelUpstream p \<noteq> None \<and> \<not> chan_closed p (cmdWaitChan p))"

definition proc_up :: "Process \<Rightarrow> bool" where
  "proc_up p = (pstate p \<noteq> StateStopped \<and> pstate p \<noteq> StateShutdown)"

type_synonym call = "(string \<Rightarrow> string list) \<times> start_outcome \<times> bool \<times> int"

definition serve_call :: "call \<Rightarrow> Process \<Rightarrow> Process \<times> response" where
  "serve_call call p = (case call of (sh, out, streams, now) \<Rightarrow> ProxyRequest_alone sh out streams now p)"

lemmas alone_defs = ProxyRequest_alone_def start_alone_def command_ends_def starting_done_def
  stop_and_wait_def StopImmediately_alone_def Stop_alone_def thread_defs chan_closed_def

lemma stop_alone_quiet:
  assumes "quiet_process p"
  shows "quiet_process (StopImmediately_alone p) \<and> \<not> proc_up (StopImmediately_alone p)"
  using assms by (cases "pstate p") (auto simp: alone_defs quiet_process_def proc_up_def split: option.splits)

lemma start_alone_quiet:
  assumes "quiet_process (p\<lparr>inFlightRequests := 0\<rparr>)" "pstate p \<noteq> StateShutdown"
  shows "quiet_process ((fst (start_alone sh out p))\<lparr>inFlightRequests := 0\<rparr>)
    \<and> inFlightRequests (fst (start_alone sh out p)) = inFlightRequests p"
  using assms
  by (cases "pstate p"; cases out)
    (auto simp: alone_defs quiet_process_def split: option.splits)


lemma serve_call_quiet:
  assumes "quiet_process p" shows "quiet_process (fst (serve_call call p))"
proof -
  obtain sh out streams now where c: "call = (sh, out, streams, now)" by (metis prod_cases4)
  show ?thesis
  proof (cases "reverseProxy p \<and> pstate p \<noteq> StateShutdown \<and> chan_send (concurrencyLimitSemaphore p) \<noteq> None")
    case False
    then show ?thesis using assms by (auto simp: c serve_call_def ProxyRequest_alone_def quiet_process_def)
  next
    case True
    then obtain ch where ch: "chan_send (concurrencyLimitSemaphore p) = Some ch" by auto
    let ?p = "p\<lparr>concurrencyLimitSemaphore := ch, inFlightRequests := inFlightRequests p + 1,
                     inFlightRequestsCount := inFlightRequestsCount p + 1\<rparr>"
    have "quiet_process (?p\<lparr>inFlightRequests := 0\<rparr>)" "pstate ?p \<noteq> StateShutdown"
      using assms True by (auto simp: quiet_process_def chan_closed_def)
    from start_alone_quiet [OF this, of sh out] show ?thesis
      using assms True ch
      by (auto simp: c serve_call_def ProxyRequest_alone_def quiet_process_def chan_closed_def Let_def
          split: prod.splits)
  qed
qed

interpretation member: member_process serve_call stop_with quiet_process proc_up
proof unfold_locales
  fix p call assume "quiet_process p"
  then show "quiet_process (fst (serve_call call p))" by (rule serve_call_quiet)
next
  fix p :: Process and st assume q: "quiet_process p"
  have "Stop_alone p = StopImmediately_alone p"
    by (simp add: Stop_alone_def StopImmediately_alone_def)
  then show "quiet_process (stop_with st p)" "\<not> proc_up (stop_with st p)"
    using stop_alone_quiet [OF q] by (cases st; simp add: stop_with_def)+
qed

subsection \<open>Runs of calls\<close>

text \<open>Calls made one after the other: a request, \<open>StopProcess\<close> of one group, and the manager's \<open>StopProcesses\<close>.\<close>

datatype group_op = GRequest call string | GStop string string StopStrategy | GStopAll StopStrategy

fun group_do :: "group_op \<Rightarrow> groups \<Rightarrow> groups" where
  "group_do (GRequest call modelID) gs = fst (local_request (serve_call call) modelID gs)"
| "group_do (GStop groupID modelID st) gs =
     (case map_of gs groupID of
        None \<Rightarrow> gs | Some g \<Rightarrow> AList.update groupID (fst (StopProcess modelID st g)) gs)"
| "group_do (GStopAll st) gs = pm_StopProcesses st gs"

fun named :: "group_op \<Rightarrow> bool" where
  "named (GRequest call modelID) = (modelID \<noteq> [])"
| "named op = True"

definition group_ok :: "ProcessGroup \<Rightarrow> bool" where
  "group_ok g \<longleftrightarrow> member.all_quiet (processes g)
     \<and> (pg_swap g \<longrightarrow> member.only_up (lastUsedProcess g) (processes g)
          \<and> (lastUsedProcess g = [] \<longrightarrow> member.all_down (processes g)))"

lemma all_down_ok: "member.all_down (processes g) \<Longrightarrow> group_ok g"
  by (simp add: group_ok_def member.all_down_only member.all_down_quiet)

lemma on_process_processes [simp]:
  "map_of (processes g) m = Some p \<Longrightarrow>
     on_process m f g = g\<lparr>processes := AList.update m (f p) (processes g)\<rparr>"
  by (simp add: on_process_def)

lemma on_process_missing [simp]: "map_of (processes g) m = None \<Longrightarrow> on_process m f g = g"
  by (simp add: on_process_def)

lemma Stop_alone_with: "Stop_alone = stop_with StopWaitForInflightRequest"
  by (simp add: stop_with_def)

text \<open>Stopping the last used process of a swapping group leaves nothing up.\<close>

lemma stop_last_down:
  assumes "group_ok g" "pg_swap g"
  shows "member.all_down (processes
    (if lastUsedProcess g \<noteq> [] then on_process (lastUsedProcess g) Stop_alone g else g))"
  using assms member.stop_the_one member.nothing_up unfolding Stop_alone_with group_ok_def
  by (cases "map_of (processes g) (lastUsedProcess g)") auto

lemma group_ok_request:
  assumes "group_ok g" "m \<noteq> []"
  shows "group_ok (fst (group_ProxyRequest (serve_call call) m g))"
proof (cases "HasMember g m \<and> pg_swap g \<and> lastUsedProcess g \<noteq> m")
  case True
  let ?g = "if lastUsedProcess g \<noteq> [] then on_process (lastUsedProcess g) Stop_alone g else g"
  have d: "member.all_down (processes ?g)" using stop_last_down assms True by blast
  have same: "pg_swap ?g = pg_swap g" "lastUsedProcess ?g = lastUsedProcess g"
    by (auto simp: on_process_def split: option.split)
  show ?thesis
  proof (cases "map_of (processes ?g) m")
    case None
    then have "fst (group_ProxyRequest (serve_call call) m g) = ?g"
      using True by (simp add: group_ProxyRequest_def Let_def)
    then show ?thesis using all_down_ok [OF d] by simp
  next
    case (Some p)
    then have "fst (group_ProxyRequest (serve_call call) m g)
        = ?g\<lparr>processes := AList.update m (fst (serve_call call p)) (processes ?g), lastUsedProcess := m\<rparr>"
      using True by (simp add: group_ProxyRequest_def Let_def)
    then show ?thesis
      using member.serve_the_one [OF member.all_down_only [OF d] Some, of call] assms(2)
      by (simp add: group_ok_def member.only_up_quiet)
  qed
next
  case False
  then show ?thesis
    using assms
    by (cases "map_of (processes g) m")
      (auto simp: group_ProxyRequest_def group_ok_def Let_def member.serve_all_quiet member.serve_the_one)
qed

lemma group_ok_StopProcess:
  assumes "group_ok g" shows "group_ok (fst (StopProcess m st g))"
proof (cases "map_of (processes g) m")
  case None
  then show ?thesis using assms by (simp add: StopProcess_def)
next
  case (Some p)
  have q: "member.all_quiet (processes g)" using assms by (simp add: group_ok_def)
  show ?thesis
  proof (cases "lastUsedProcess g = m")
    case True
    have "member.all_down (AList.update m (stop_with st p) (processes g))" if "pg_swap g"
      using that assms member.stop_the_one [OF _ Some] True by (simp add: group_ok_def)
    then show ?thesis
      using Some member.stop_all_quiet [OF q Some, of st] True
      by (simp add: StopProcess_def group_ok_def member.all_down_only)
  next
    case False
    have "member.only_up (lastUsedProcess g) (AList.update m (stop_with st p) (processes g))"
      "lastUsedProcess g = [] \<Longrightarrow> member.all_down (AList.update m (stop_with st p) (processes g))" if "pg_swap g"
      using that assms member.stop_other [OF _ Some] member.stop_the_one [OF member.all_down_only Some]
      by (auto simp: group_ok_def)
    then show ?thesis
      using Some member.stop_all_quiet [OF q Some] False by (simp add: StopProcess_def group_ok_def)
  qed
qed

lemma StopProcesses_down:
  assumes "group_ok g"
  shows "group_ok (StopProcesses st g) \<and> member.all_down (processes (StopProcesses st g))"
proof -
  have "member.all_down (map (apsnd (stop_with st)) (processes g))"
    using assms by (simp add: group_ok_def member.stop_every)
  then have "member.all_down (processes (StopProcesses st g))"
    by (cases "processes g = []") (simp_all add: StopProcesses_def)
  then show ?thesis by (simp add: all_down_ok)
qed


definition groups_ok :: "groups \<Rightarrow> bool" where
  "groups_ok gs \<longleftrightarrow> distinct (map fst gs) \<and> (\<forall>(ID, g) \<in> set gs. pg_id g = ID \<and> group_ok g)"

lemma groups_ok_member: "groups_ok gs \<Longrightarrow> (ID, g) \<in> set gs \<Longrightarrow> pg_id g = ID \<and> group_ok g"
  by (auto simp: groups_ok_def)

lemma groups_ok_map:
  assumes "groups_ok gs" "\<And>ID g. (ID, g) \<in> set gs \<Longrightarrow> pg_id (f ID g) = ID \<and> group_ok (f ID g)"
  shows "groups_ok (map (\<lambda>(ID, g). (ID, f ID g)) gs)"
  using assms by (auto simp: groups_ok_def split_beta comp_def)

lemma groups_ok_update:
  assumes "groups_ok gs" "pg_id g' = ID" "group_ok g'"
  shows "groups_ok (AList.update ID g' gs)"
  using assms by (auto simp: groups_ok_def distinct_update set_alist_update)

lemma StopProcesses_id [simp]: "pg_id (StopProcesses st g) = pg_id g"
  by (simp add: StopProcesses_def)

lemma groups_ok_stop_all: "groups_ok gs \<Longrightarrow> groups_ok (pm_StopProcesses st gs)"
  using groups_ok_map [of gs "\<lambda>ID g. StopProcesses st g"] groups_ok_member [of gs] StopProcesses_down
  by (simp add: pm_StopProcesses_def apsnd_def map_prod_def)

text \<open>The group found for a model, and what the swap does to the others.\<close>

lemma findGroup_Some:
  assumes "findGroupByModelName gs m = Some pg" "groups_ok gs"
  shows "(pg_id pg, pg) \<in> set gs \<and> HasMember pg m \<and> map_of gs (pg_id pg) = Some pg"
proof -
  obtain ID where "find (\<lambda>(_, g). HasMember g m) gs = Some (ID, pg)"
    using assms(1) by (auto simp: findGroupByModelName_def)
  then have "(ID, pg) \<in> set gs" "HasMember pg m" by (auto simp: find_Some_iff in_set_conv_nth)
  with assms(2) show ?thesis by (auto simp: groups_ok_def)
qed

lemma swap_others:
  assumes "groups_ok gs" "findGroupByModelName gs m = Some pg"
  shows "groups_ok (fst (swapProcessGroup m gs))"
    and "snd (swapProcessGroup m gs) = Some pg"
    and "map_of (fst (swapProcessGroup m gs)) (pg_id pg) = Some pg"
    and "pg_exclusive pg \<Longrightarrow> (ID, g) \<in> set (fst (swapProcessGroup m gs)) \<Longrightarrow> ID \<noteq> pg_id pg \<Longrightarrow>
      pg_persistent g \<or> member.all_down (processes g)"
proof -
  let ?f = "\<lambda>ID g. if ID \<noteq> pg_id pg \<and> \<not> pg_persistent g then StopProcesses StopWaitForInflightRequest g else g"
  have e: "fst (swapProcessGroup m gs) = (if pg_exclusive pg then map (\<lambda>(ID, g). (ID, ?f ID g)) gs else gs)"
    using assms(2) by (simp add: swapProcessGroup_def)
  have ok: "pg_id (?f ID g) = ID \<and> group_ok (?f ID g)" if "(ID, g) \<in> set gs" for ID g
    using groups_ok_member [OF assms(1) that] StopProcesses_down by auto
  show 1: "groups_ok (fst (swapProcessGroup m gs))"
    using groups_ok_map [of gs ?f, OF assms(1) ok] assms(1) by (simp add: e)
  show "snd (swapProcessGroup m gs) = Some pg" using assms(2) by (simp add: swapProcessGroup_def)
  have "(pg_id pg, pg) \<in> set gs" using findGroup_Some [OF assms(2,1)] by blast
  then have "(pg_id pg, pg) \<in> set (fst (swapProcessGroup m gs))" by (force simp: e)
  then show "map_of (fst (swapProcessGroup m gs)) (pg_id pg) = Some pg"
    using 1 by (simp add: groups_ok_def)
  show "pg_persistent g \<or> member.all_down (processes g)"
    if "pg_exclusive pg" "(ID, g) \<in> set (fst (swapProcessGroup m gs))" "ID \<noteq> pg_id pg"
    using that groups_ok_member [OF assms(1)] StopProcesses_down by (auto simp: e split: if_splits)
qed

lemma group_ProxyRequest_id [simp]: "pg_id (fst (group_ProxyRequest serve m g)) = pg_id g"
  by (simp add: group_ProxyRequest_def on_process_def Let_def split: option.split)

lemma groups_ok_request:
  assumes "groups_ok gs" "m \<noteq> []"
  shows "groups_ok (fst (local_request (serve_call call) m gs))"
proof (cases "findGroupByModelName gs m")
  case None
  then show ?thesis using assms by (simp add: local_request_def swapProcessGroup_def)
next
  case (Some pg)
  note sw = swap_others [OF assms(1) Some]
  have "group_ok pg" using findGroup_Some [OF Some assms(1)] groups_ok_member [OF assms(1)] by blast
  from group_ok_request [OF this assms(2), of call]
  have "groups_ok (AList.update (pg_id pg) (fst (group_ProxyRequest (serve_call call) m pg)) (fst (swapProcessGroup m gs)))"
    by (intro groups_ok_update sw(1)) simp_all
  then show ?thesis
    using sw(2,3) by (simp add: local_request_def split_beta)
qed


subsection \<open>New groups\<close>

lemma NewProcess_quiet: "quiet_process (NewProcess urlOK ID t mc) \<and> \<not> proc_up (NewProcess urlOK ID t mc)"
  by (simp add: NewProcess_def quiet_process_def proc_up_def)

lemma new_members_down:
  "member.all_down ps \<Longrightarrow> member.all_down (foldl (\<lambda>ps member. case member_config c member of (mc, modelID) \<Rightarrow>
     AList.update modelID (NewProcess urlOK modelID t mc) ps) ps ms)"
proof (induction ms arbitrary: ps)
  case (Cons m ms)
  obtain mc ID where m: "member_config c m = (mc, ID)" by fastforce
  have "member.all_down (AList.update ID (NewProcess urlOK ID t mc) ps)"
    using Cons.prems NewProcess_quiet [of urlOK ID t mc]
    by (auto simp: member.all_down_def member.all_quiet_def distinct_update set_alist_update)
  from Cons.IH [OF this] show ?case by (simp add: m)
qed simp

lemma newGroup_ok: "NewProcessGroup urlOK ID c = Some g \<Longrightarrow> pg_id g = ID \<and> group_ok g"
  using new_members_down [of "[]"] all_down_ok [of g]
  by (auto simp: NewProcessGroup_def member.all_down_def member.all_quiet_def split: option.splits)

lemma newGroups_ok:
  assumes "distinct (map fst (Groups c))" shows "groups_ok (newGroups urlOK c)"
proof -
  have keys: "set (map fst (List.map_filter (\<lambda>(ID, g). map_option (Pair ID) (NewProcessGroup urlOK ID c)) gs))
      \<subseteq> set (map fst gs)" for gs
    by (induction gs) (auto split: option.splits)
  have "groups_ok (List.map_filter (\<lambda>(ID, g). map_option (Pair ID) (NewProcessGroup urlOK ID c)) gs)"
    if "distinct (map fst gs)" for gs
    using that
  proof (induction gs)
    case (Cons a gs)
    then show ?case using keys [of gs] newGroup_ok
      by (cases a) (auto simp: groups_ok_def split: option.splits)
  qed (simp add: groups_ok_def)
  then show ?thesis using assms by (simp add: newGroups_def)
qed

lemma groups_ok_do: "groups_ok gs \<Longrightarrow> named op \<Longrightarrow> groups_ok (group_do op gs)"
proof (cases op)
  case (GStop ID m st)
  moreover assume "groups_ok gs"
  moreover have "pg_id (fst (StopProcess m st g)) = pg_id g" for g
    by (simp add: StopProcess_def on_process_def Let_def split: option.split)
  ultimately show ?thesis
    by (auto split: option.split dest!: map_of_SomeD intro!: groups_ok_update group_ok_StopProcess dest: groups_ok_member)
qed (simp_all add: groups_ok_request groups_ok_stop_all)

lemma groups_ok_run: "groups_ok gs \<Longrightarrow> list_all named ops \<Longrightarrow> groups_ok (fold group_do ops gs)"
  by (induction ops arbitrary: gs) (simp_all add: groups_ok_do)

text \<open>
  C34. Swapping: however calls follow each other - requests for any models, stops, and however each start
  ends - at most one process of a swapping group is up; and once a request for a model of an exclusive
  group has been served, no process of any other group is up, but those of persistent groups.
\<close>

theorem swap_one_running:
  assumes "distinct (map fst (Groups c))" "list_all named ops"
  shows "let gs = fold group_do ops (newGroups urlOK c) in
     list_all (\<lambda>(_, g). length (filter (\<lambda>(_, p). proc_up p) (processes g))
         \<le> (if pg_swap g then 1 else length (processes g))) gs
   \<and> (case findGroupByModelName gs modelID of
        None \<Rightarrow> local_request (serve_call call) modelID gs = (gs, None)
      | Some pg \<Rightarrow> \<not> pg_exclusive pg \<or>
          list_all (\<lambda>(ID, g). ID = pg_id pg \<or> pg_persistent g \<or> list_all (\<lambda>(_, p). \<not> proc_up p) (processes g))
            (fst (local_request (serve_call call) modelID gs)))"
proof -
  define gs where "gs = fold group_do ops (newGroups urlOK c)"
  have ok: "groups_ok gs" unfolding gs_def by (rule groups_ok_run [OF newGroups_ok assms(2)]) (rule assms(1))
  have one: "length (filter (\<lambda>(_, p). proc_up p) (processes g)) \<le> (if pg_swap g then 1 else length (processes g))"
    if "(ID, g) \<in> set gs" for ID g
    using groups_ok_member [OF ok that] member.only_up_number by (auto simp: group_ok_def)
  have others: "ID = pg_id pg \<or> pg_persistent g \<or> list_all (\<lambda>(_, p). \<not> proc_up p) (processes g)"
    if f: "findGroupByModelName gs modelID = Some pg" and x: "pg_exclusive pg"
      and g: "(ID, g) \<in> set (fst (local_request (serve_call call) modelID gs))" for pg ID g
  proof -
    note sw = swap_others [OF ok f]
    have "fst (local_request (serve_call call) modelID gs) = AList.update (pg_id pg)
        (fst (group_ProxyRequest (serve_call call) modelID pg)) (fst (swapProcessGroup modelID gs))"
      using sw(2,3) by (simp add: local_request_def split_beta)
    with g have "ID = pg_id pg \<or> (ID, g) \<in> set (fst (swapProcessGroup modelID gs))"
      using sw(1) by (auto simp: set_alist_update groups_ok_def)
    with sw(4) [OF x] show ?thesis unfolding member.all_down_def list_all_iff by blast
  qed
  show ?thesis
    unfolding Let_def gs_def [symmetric]
  proof
    show "list_all (\<lambda>(_, g). length (filter (\<lambda>(_, p). proc_up p) (processes g))
         \<le> (if pg_swap g then 1 else length (processes g))) gs"
      unfolding list_all_iff using one by fast
    show "case findGroupByModelName gs modelID of
        None \<Rightarrow> local_request (serve_call call) modelID gs = (gs, None)
      | Some pg \<Rightarrow> \<not> pg_exclusive pg \<or>
          list_all (\<lambda>(ID, g). ID = pg_id pg \<or> pg_persistent g \<or> list_all (\<lambda>(_, p). \<not> proc_up p) (processes g))
            (fst (local_request (serve_call call) modelID gs))"
    proof (cases "findGroupByModelName gs modelID")
      case None
      then show ?thesis by (simp add: local_request_def swapProcessGroup_def)
    next
      case (Some pg)
      show ?thesis unfolding Some option.case list_all_iff [of _ "fst _"] using others [OF Some] by fast
    qed
  qed
qed


definition swap_config :: Config where
  "swap_config = sample_config [(''a'', race_model), (''b'', race_model)]
     [(''g'', \<lparr>Swap = True, Exclusive = True, Persistent = False, Members = [''a'', ''b'']\<rparr>)]"

definition sample_call :: call where
  "sample_call = (\<lambda>_. [''serve''], BecomesReady, False, 0)"

lemmas group_eval = newGroups_def NewProcessGroup_def member_config_def FindConfig_def RealModelName_def
  swap_config_def sample_config_def local_request_def swapProcessGroup_def findGroupByModelName_def
  HasMember_def group_ProxyRequest_def on_process_def serve_call_def sample_call_def alone_defs
  NewProcess_def race_model_def modelDefaults_def chan_send_def chan_recv_def
  ModelConfig_SanitizedCommand_def SanitizeCommand_def runningProcesses_def proc_up_def

theorem swap_one_running_witness:
  "let ops = [GRequest sample_call ''a'', GRequest sample_call ''b''];
       gs = fold group_do ops (newGroups (\<lambda>_. True) swap_config) in
     runningProcesses gs = [''b'']
   \<and> list_all (\<lambda>(_, g). length (filter (\<lambda>(_, p). proc_up p) (processes g))
         \<le> (if pg_swap g then 1 else length (processes g))) gs"
proof -
  let ?ops = "[GRequest sample_call ''a'', GRequest sample_call ''b'']"
  let ?gs = "fold group_do ?ops (newGroups (\<lambda>_. True) swap_config)"
  have "distinct (map fst (Groups swap_config))" "list_all named ?ops"
    by (simp_all add: swap_config_def sample_config_def)
  from swap_one_running [OF this, where urlOK = "\<lambda>_. True" and modelID = "''a''" and call = sample_call]
  have "list_all (\<lambda>(_, g). length (filter (\<lambda>(_, p). proc_up p) (processes g))
         \<le> (if pg_swap g then 1 else length (processes g))) ?gs"
    unfolding Let_def by blast
  moreover have "runningProcesses ?gs = [''b'']"
    by (simp add: group_eval)
  ultimately show ?thesis unfolding Let_def by blast
qed

end
