(* ===== verification/Peer_Loaded.thy ===== *)
theory Peer_Loaded
  imports Peer_Admission Config_Filters
begin

section \<open>What each peer serves and has loaded (proxy/peeraddress.go)\<close>

text \<open>
  The proxy learns what a peer has loaded from the peer's \<open>/v1/models\<close> answer and keeps the answer in a
  cache with a short time to live. The answer of the network to one poll, the JSON decoder and the
  printing of the peer's URL are arguments; what is read at one instant (the clock and the answers the
  peers would give) is the record \<open>poll\<close>.
\<close>

subsection \<open>A peer's answer\<close>

record modelModality =
  mod_In :: "string list"
  mod_Out :: "string list"

record modelDims =
  NCtx :: int
  NCtxTrain :: int
  WeightBytes :: int
  NParams :: int
  NEmbd :: int
  NLayer :: int
  NHeadKV :: int
  NEmbdKGqa :: int
  NEmbdVGqa :: int
  CacheTypeK :: string
  CacheTypeV :: string

text \<open>The loaded ids in the peer's order, then the names of each kind; \<open>modalities\<close> is iterated over.\<close>

record peerLoadedSet =
  order :: "string list"
  all_loaded :: "string set"
  served_names :: "string set"
  modalities :: "(string \<times> modelModality) list"
  dims :: "string \<rightharpoonup> modelDims"
  fetchedAt :: int

text \<open>One entry of the decoded payload.\<close>

record modelEntry =
  me_ID :: string
  me_Aliases :: "string list"
  me_Status :: "string option"
  me_Architecture :: "(string list \<times> string list) option"
  me_Meta :: "modelDims option"

definition emptySet :: "int \<Rightarrow> peerLoadedSet" where
  "emptySet at = \<lparr>order = [], all_loaded = {}, served_names = {}, modalities = [], dims = Map.empty, fetchedAt = at\<rparr>"

definition entry_names :: "modelEntry \<Rightarrow> string list" where
  "entry_names m = me_ID m # filter (\<lambda>a. a \<noteq> []) (me_Aliases m)"

text \<open>One round of the loop over the entries.\<close>

definition add_entry :: "modelEntry \<Rightarrow> peerLoadedSet \<Rightarrow> peerLoadedSet" where
  "add_entry m s =
     (if me_ID m = [] then s
      else
        let names = entry_names m;
            s = s\<lparr>served_names := served_names s \<union> set names\<rparr>;
            s = (case me_Architecture m of
                     None \<Rightarrow> s
                   | Some (ins, outs) \<Rightarrow>
                       if length ins > 0 \<or> length outs > 0
                       then s\<lparr>modalities := foldl (\<lambda>ms a. AList.update a \<lparr>mod_In = ins, mod_Out = outs\<rparr> ms)
                                  (modalities s) names\<rparr>
                       else s);
            s = (case me_Meta m of
                     None \<Rightarrow> s
                   | Some d \<Rightarrow>
                       if NCtxTrain d > 0 \<or> WeightBytes d > 0
                       then s\<lparr>dims := foldl (\<lambda>ds a. ds(a \<mapsto> d)) (dims s) names\<rparr>
                       else s)
        in case me_Status m of
             Some v \<Rightarrow>
               if \<not> EqualFold v ''loaded'' then s
               else s\<lparr>order := order s @ [me_ID m], all_loaded := all_loaded s \<union> set names\<rparr>
           | None \<Rightarrow> s\<lparr>order := order s @ [me_ID m], all_loaded := all_loaded s \<union> set names\<rparr>)"

definition parseLoadedModels :: "(string \<Rightarrow> modelEntry list option) \<Rightarrow> string \<Rightarrow> int \<Rightarrow> peerLoadedSet" where
  "parseLoadedModels decode body at =
     (case decode body of
        None \<Rightarrow> emptySet at
      | Some entries \<Rightarrow> fold add_entry entries (emptySet at))"

text \<open>\<open>urlString\<close> prints the parsed URL (\<open>None\<close> for a nil URL); \<open>respond\<close> is the peer's answer to the request.\<close>

definition fetchPeerLoaded :: "(string \<Rightarrow> modelEntry list option) \<Rightarrow> (string \<Rightarrow> string option)
    \<Rightarrow> (string \<Rightarrow> (string \<times> string) list \<Rightarrow> (int \<times> string) option) \<Rightarrow> int \<Rightarrow> PeerConfig \<Rightarrow> peerLoadedSet option" where
  "fetchPeerLoaded decode urlString respond now peer =
     (case urlString (peer_Proxy peer) of
        None \<Rightarrow> None
      | Some u \<Rightarrow>
          (let url = rev (dropWhile (\<lambda>c. c = CHR ''/'') (rev u)) @ ''/v1/models'';
               headers = (if peer_ApiKey peer \<noteq> [] then [(''Authorization'', ''Bearer '' @ peer_ApiKey peer)] else [])
           in case respond url headers of
                None \<Rightarrow> None
              | Some (status, body) \<Rightarrow>
                  if status \<noteq> 200 then None
                  else Some (parseLoadedModels decode (take 4194304 body) now)))"

definition declare_modality :: "string \<times> PeerModality \<Rightarrow> peerLoadedSet \<Rightarrow> peerLoadedSet" where
  "declare_modality entry s =
     (case entry of (ID, d) \<Rightarrow>
        if map_of (modalities s) ID = None
        then s\<lparr>modalities := AList.update ID \<lparr>mod_In = mod_Input d, mod_Out = mod_Output d\<rparr> (modalities s)\<rparr>
        else s)"

definition withDeclaredModalities :: "peerLoadedSet \<Rightarrow> PeerConfig \<Rightarrow> peerLoadedSet" where
  "withDeclaredModalities s peer = fold declare_modality (peer_Modalities peer) s"

subsection \<open>The cache\<close>

type_synonym loadedCache = "string \<rightharpoonup> peerLoadedSet"

record poll =
  p_now :: int
  p_answer :: "string \<Rightarrow> peerLoadedSet option"

text \<open>\<open>answer\<close> is the outcome of \<open>fetchPeerLoaded\<close>, which is called only when the entry is missing or old.\<close>

definition fresh_entry :: "int \<Rightarrow> int \<Rightarrow> peerLoadedSet option \<Rightarrow> bool" where
  "fresh_entry ttl now entry = (case entry of None \<Rightarrow> False | Some c \<Rightarrow> now - fetchedAt c < ttl)"

definition peerLoaded :: "int \<Rightarrow> int \<Rightarrow> peerLoadedSet option \<Rightarrow> string \<Rightarrow> PeerConfig \<Rightarrow> loadedCache
    \<Rightarrow> loadedCache \<times> peerLoadedSet" where
  "peerLoaded ttl now answer peerID peer cache =
     (if fresh_entry ttl now (cache peerID) then (cache, the (cache peerID))
      else case answer of
        None \<Rightarrow>
          (case cache peerID of
             Some cached \<Rightarrow> (cache, cached)
           | None \<Rightarrow>
               (let e = withDeclaredModalities (emptySet now) peer in (cache(peerID \<mapsto> e), e)))
      | Some snap \<Rightarrow>
          (let s = withDeclaredModalities snap peer in (cache(peerID \<mapsto> s), s)))"


subsection \<open>What a snapshot holds\<close>

lemma add_entry_served:
  "served_names (add_entry m s) = served_names s \<union> (if me_ID m = [] then {} else set (entry_names m))"
  by (auto simp: add_entry_def Let_def split: option.split)

definition resident :: "modelEntry \<Rightarrow> bool" where
  "resident m \<longleftrightarrow> me_ID m \<noteq> [] \<and> (case me_Status m of None \<Rightarrow> True | Some v \<Rightarrow> EqualFold v ''loaded'')"

lemma add_entry_loaded:
  "order (add_entry m s) = order s @ (if resident m then [me_ID m] else [])"
  "all_loaded (add_entry m s) = all_loaded s \<union> (if resident m then set (entry_names m) else {})"
  "fetchedAt (add_entry m s) = fetchedAt s"
  by (auto simp: add_entry_def resident_def Let_def split: option.split)

lemma fold_entries:
  "served_names (fold add_entry ms s) = served_names s \<union> (\<Union>m \<in> {m \<in> set ms. me_ID m \<noteq> []}. set (entry_names m))"
  "order (fold add_entry ms s) = order s @ map me_ID (filter resident ms)"
  "all_loaded (fold add_entry ms s) = all_loaded s \<union> (\<Union>m \<in> {m \<in> set ms. resident m}. set (entry_names m))"
  "fetchedAt (fold add_entry ms s) = fetchedAt s"
  by (induction ms arbitrary: s) (auto simp: add_entry_served add_entry_loaded split: if_splits)

text \<open>The snapshots the code makes: what is listed as loaded is loaded under that name, and all loaded names are served.\<close>

definition snapshot_ok :: "peerLoadedSet \<Rightarrow> bool" where
  "snapshot_ok s \<longleftrightarrow> set (order s) \<subseteq> all_loaded s \<and> all_loaded s \<subseteq> served_names s \<and> [] \<notin> served_names s"

lemma snapshot_ok_empty: "snapshot_ok (emptySet at)"
  by (simp add: snapshot_ok_def emptySet_def)

lemma snapshot_ok_parse: "snapshot_ok (parseLoadedModels decode body at)"
  unfolding snapshot_ok_def parseLoadedModels_def
  by (auto simp: fold_entries emptySet_def entry_names_def resident_def split: option.split)

lemma declare_modality_fields [simp]:
  "order (declare_modality d s) = order s"
  "all_loaded (declare_modality d s) = all_loaded s"
  "served_names (declare_modality d s) = served_names s"
  "fetchedAt (declare_modality d s) = fetchedAt s"
  by (simp_all add: declare_modality_def split: prod.split)

lemma declare_modality_map:
  "map_of (modalities (declare_modality (a, d) s)) k =
     (if k = a \<and> map_of (modalities s) a = None
      then Some \<lparr>mod_In = mod_Input d, mod_Out = mod_Output d\<rparr> else map_of (modalities s) k)"
  by (simp add: declare_modality_def)

lemma declared_only [simp]:
  "order (withDeclaredModalities s peer) = order s"
  "all_loaded (withDeclaredModalities s peer) = all_loaded s"
  "served_names (withDeclaredModalities s peer) = served_names s"
  "fetchedAt (withDeclaredModalities s peer) = fetchedAt s"
proof -
  have "order (fold declare_modality ds s) = order s \<and> all_loaded (fold declare_modality ds s) = all_loaded s
      \<and> served_names (fold declare_modality ds s) = served_names s \<and> fetchedAt (fold declare_modality ds s) = fetchedAt s" for ds
    by (induction ds arbitrary: s) simp_all
  then show "order (withDeclaredModalities s peer) = order s"
    "all_loaded (withDeclaredModalities s peer) = all_loaded s"
    "served_names (withDeclaredModalities s peer) = served_names s"
    "fetchedAt (withDeclaredModalities s peer) = fetchedAt s"
    by (simp_all add: withDeclaredModalities_def)
qed

text \<open>A declared signature fills a gap and never overrides what the peer advertises.\<close>

lemma declared_modalities:
  "map_of (modalities (withDeclaredModalities s peer)) ID =
     (case map_of (modalities s) ID of
        Some md \<Rightarrow> Some md
      | None \<Rightarrow> map_option (\<lambda>d. \<lparr>mod_In = mod_Input d, mod_Out = mod_Output d\<rparr>) (map_of (peer_Modalities peer) ID))"
proof -
  have "map_of (modalities (fold declare_modality ds s)) ID =
     (case map_of (modalities s) ID of
        Some md \<Rightarrow> Some md
      | None \<Rightarrow> map_option (\<lambda>d. \<lparr>mod_In = mod_Input d, mod_Out = mod_Output d\<rparr>) (map_of ds ID))" for ds
    by (induction ds arbitrary: s) (auto simp: declare_modality_map split: option.split)
  then show ?thesis by (simp add: withDeclaredModalities_def)
qed


subsection \<open>Calls over time\<close>

text \<open>The calls for one peer in order: the time, and what the peer would answer to a poll made then.\<close>

fun load_calls :: "int \<Rightarrow> string \<Rightarrow> PeerConfig \<Rightarrow> (int \<times> peerLoadedSet option) list \<Rightarrow> loadedCache
    \<Rightarrow> loadedCache \<times> peerLoadedSet list" where
  "load_calls ttl peerID peer [] cache = (cache, [])"
| "load_calls ttl peerID peer ((now, answer) # calls) cache =
     (case peerLoaded ttl now answer peerID peer cache of
        (cache, s) \<Rightarrow> (case load_calls ttl peerID peer calls cache of (cache, ss) \<Rightarrow> (cache, s # ss)))"

lemma load_calls_append:
  "load_calls ttl peerID peer (xs @ ys) cache =
     (case load_calls ttl peerID peer xs cache of (c1, ss) \<Rightarrow>
        (case load_calls ttl peerID peer ys c1 of (c2, ts) \<Rightarrow> (c2, ss @ ts)))"
  by (induction xs arbitrary: cache) (auto split: prod.split)

text \<open>An entry is as old as it is because every poll since it expired has failed.\<close>

definition entry_current :: "int \<Rightarrow> (int \<times> peerLoadedSet option) list \<Rightarrow> peerLoadedSet \<Rightarrow> bool" where
  "entry_current ttl calls s \<longleftrightarrow> fetchedAt s \<in> fst ` set calls
     \<and> (\<forall>(t, a) \<in> set calls. fetchedAt s + ttl \<le> t \<longrightarrow> a = None)"

definition stamped :: "(int \<times> peerLoadedSet option) list \<Rightarrow> bool" where
  "stamped calls \<longleftrightarrow> list_all (\<lambda>(t, a). case a of None \<Rightarrow> True | Some s \<Rightarrow> fetchedAt s = t \<and> snapshot_ok s) calls"

lemma peerLoaded_step:
  assumes "0 < ttl" "\<forall>(t', a') \<in> set calls. t' \<le> t" "stamped [(t, a)]"
    and "case cache ID of None \<Rightarrow> True | Some s \<Rightarrow> entry_current ttl calls s \<and> snapshot_ok s"
    and "peerLoaded ttl t a ID peer cache = (cache', s)"
  shows "cache' ID = Some s \<and> entry_current ttl (calls @ [(t, a)]) s \<and> snapshot_ok s"
proof (cases "fresh_entry ttl t (cache ID)")
  case True
  then obtain c where c: "cache ID = Some c" "t < fetchedAt c + ttl"
    by (auto simp: fresh_entry_def split: option.splits)
  then show ?thesis using assms True by (auto simp: peerLoaded_def entry_current_def)
next
  case False
  have ok: "snapshot_ok (withDeclaredModalities s peer) = snapshot_ok s" for s
    by (simp add: snapshot_ok_def)
  show ?thesis
  proof (cases a)
    case None
    then show ?thesis
      using assms False snapshot_ok_empty [of t]
      by (cases "cache ID") (auto simp: peerLoaded_def entry_current_def Let_def ok emptySet_def)
  next
    case (Some snap)
    then show ?thesis
      using assms False by (auto simp: peerLoaded_def entry_current_def Let_def ok stamped_def)
  qed
qed

lemma load_calls_entry:
  assumes "0 < ttl" "sorted (map fst calls)" "stamped calls" "calls \<noteq> []"
    and "load_calls ttl ID peer calls Map.empty = (cache, ss)"
  shows "cache ID = Some (last ss) \<and> entry_current ttl calls (last ss) \<and> snapshot_ok (last ss) \<and> ss \<noteq> []"
  using assms(2-)
proof (induction calls arbitrary: cache ss rule: rev_induct)
  case (snoc c calls)
  obtain t a where c: "c = (t, a)" by fastforce
  obtain c1 ss1 where l: "load_calls ttl ID peer calls Map.empty = (c1, ss1)" by fastforce
  obtain c2 s where p: "peerLoaded ttl t a ID peer c1 = (c2, s)" by fastforce
  have e: "cache = c2" "ss = ss1 @ [s]" using snoc.prems(4) by (simp_all add: load_calls_append l c p)
  have before: "case c1 ID of None \<Rightarrow> True | Some s \<Rightarrow> entry_current ttl calls s \<and> snapshot_ok s"
  proof (cases "calls = []")
    case True
    then show ?thesis using l by auto
  next
    case False
    then show ?thesis using snoc.IH [OF _ _ False l] snoc.prems(1,2) by (simp add: sorted_append stamped_def)
  qed
  have "\<forall>(t', a') \<in> set calls. t' \<le> t" "stamped [(t, a)]"
    using snoc.prems(1,2) by (auto simp: sorted_append c stamped_def)
  from peerLoaded_step [OF assms(1) this before p] show ?case by (simp add: e c)
qed simp

lemma failing_polls:
  "cache ID = Some s \<Longrightarrow> list_all (\<lambda>(t, a). a = None) later \<Longrightarrow>
     load_calls ttl ID peer later cache = (cache, replicate (length later) s)"
  by (induction later) (auto simp: peerLoaded_def)



end
