(* ===== verification/Peer_Proxy.thy ===== *)
theory Peer_Proxy
  imports Peer_Loaded Config_Load
begin

section \<open>The peer proxy's state (proxy/peerproxy.go)\<close>

text \<open>
  The peers, which of them serve each model, their in-flight counts, and the cache of what they have
  loaded. A \<open>peerProxyMember\<close> is a pointer the code compares and counts on; it is made once per peer, so
  it is represented by its peer id, with \<open>memberByPeer\<close> giving its API key and \<open>inFlight\<close> its counter.
\<close>

record affinityConfig =
  aff_enabled :: bool
  bonus :: int
  headers :: "string list"
  minBodyBytes :: int
  keyCompletions :: bool

record affinityStats =
  hits :: nat
  spillsCold :: nat
  spillsCapped :: nat
  spillsBusy :: nat
  noKey :: nat

record PeerProxy =
  peers :: "(string \<times> PeerConfig) list"
  modelPeers :: "string \<Rightarrow> string list"
  memberByPeer :: "string \<rightharpoonup> string"
  peerOrder :: "string list"
  inFlight :: "string \<Rightarrow> int"
  loaded_cache :: loadedCache
  loadedTTL :: int
  admission :: peerAdmission
  affinity :: affinityConfig
  stats :: affinityStats

text \<open>The zero value of the peer configuration, which a missing map entry reads as.\<close>

definition peer_of :: "PeerProxy \<Rightarrow> string \<Rightarrow> PeerConfig" where
  "peer_of p peerID = (case map_of (peers p) peerID of Some peer \<Rightarrow> peer | None \<Rightarrow> peerDefaults)"

text \<open>The registration loop: each peer, in the sorted order, is appended for every model it lists.\<close>

definition register_model :: "string \<Rightarrow> string \<Rightarrow> (string \<Rightarrow> string list) \<Rightarrow> string \<Rightarrow> string list" where
  "register_model peerID modelID mp = mp(modelID := mp modelID @ [peerID])"

definition NewPeerProxy :: "(string \<times> PeerConfig) list \<Rightarrow> PeerProxy" where
  "NewPeerProxy ps =
     (let peerIDs = sort (map fst ps); peer = (\<lambda>ID. case map_of ps ID of Some c \<Rightarrow> c | None \<Rightarrow> peerDefaults) in
      \<lparr>peers = ps,
       modelPeers = fold (\<lambda>ID mp. fold (register_model ID) (peer_Models (peer ID)) mp) peerIDs (\<lambda>_. []),
       memberByPeer = (\<lambda>ID. if ID \<in> set peerIDs then Some (peer_ApiKey (peer ID)) else None),
       peerOrder = peerIDs, inFlight = (\<lambda>_. 0), loaded_cache = Map.empty, loadedTTL = 5000000000,
       admission = newPeerAdmission 0 0 peerIDs,
       affinity = \<lparr>aff_enabled = False, bonus = 0, headers = [], minBodyBytes = 0, keyCompletions = False\<rparr>,
       stats = \<lparr>hits = 0, spillsCold = 0, spillsCapped = 0, spillsBusy = 0, noKey = 0\<rparr>\<rparr>)"

definition defaultAffinityBonus :: int where "defaultAffinityBonus = 4"

definition defaultAffinityMinBodyBytes :: int where "defaultAffinityMinBodyBytes = 2048"

definition setAffinity :: "PeerAffinityConfig \<Rightarrow> PeerProxy \<Rightarrow> PeerProxy" where
  "setAffinity cfg p =
     (let b = (if aff_Bonus cfg \<le> 0 then defaultAffinityBonus else aff_Bonus cfg);
          minBody = (if aff_MinBodyBytes cfg < 0 then 0
                     else if aff_MinBodyBytes cfg = 0 then defaultAffinityMinBodyBytes else aff_MinBodyBytes cfg)
      in p\<lparr>affinity := \<lparr>aff_enabled = aff_Enabled cfg, bonus = b, headers = aff_SessionHeaders cfg,
             minBodyBytes = minBody, keyCompletions = aff_KeyCompletions cfg\<rparr>\<rparr>)"

definition setAdmission :: "int \<Rightarrow> int \<Rightarrow> PeerProxy \<Rightarrow> PeerProxy" where
  "setAdmission limit timeout p = p\<lparr>admission := newPeerAdmission limit timeout (peerOrder p)\<rparr>"

definition HasPeerModel :: "PeerProxy \<Rightarrow> string \<Rightarrow> bool" where
  "HasPeerModel p modelID = (length (modelPeers p modelID) > 0)"

definition zeroFilters :: Filters where
  "zeroFilters = \<lparr>StripParams = [], SetParams = []\<rparr>"

definition GetPeerFilters :: "PeerProxy \<Rightarrow> string \<Rightarrow> Filters" where
  "GetPeerFilters p modelID =
     (case modelPeers p modelID of
        [] \<Rightarrow> zeroFilters
      | m # _ \<Rightarrow> (case map_of (peers p) m of None \<Rightarrow> zeroFilters | Some peer \<Rightarrow> peer_Filters peer))"

definition PeerFilters :: "PeerProxy \<Rightarrow> string \<Rightarrow> Filters" where
  "PeerFilters p peerID = (case map_of (peers p) peerID of None \<Rightarrow> zeroFilters | Some peer \<Rightarrow> peer_Filters peer)"

subsection \<open>Reading the loaded state\<close>

text \<open>\<open>peerLoaded\<close> for one peer at one instant: the cache afterwards and the snapshot.\<close>

definition peer_load :: "poll \<Rightarrow> string \<Rightarrow> PeerProxy \<Rightarrow> PeerProxy \<times> peerLoadedSet" where
  "peer_load w peerID p =
     (case peerLoaded (loadedTTL p) (p_now w) (p_answer w peerID) peerID (peer_of p peerID) (loaded_cache p) of
        (cache, s) \<Rightarrow> (p\<lparr>loaded_cache := cache\<rparr>, s))"

definition WarmLoaded :: "poll \<Rightarrow> PeerProxy \<Rightarrow> PeerProxy" where
  "WarmLoaded w p = fold (\<lambda>ID p. fst (peer_load w ID p)) (peerOrder p) p"

definition LoadedModels :: "poll \<Rightarrow> string \<Rightarrow> PeerProxy \<Rightarrow> PeerProxy \<times> string list" where
  "LoadedModels w peerID p =
     (case map_of (peers p) peerID of
        None \<Rightarrow> (p, []) | Some _ \<Rightarrow> (case peer_load w peerID p of (p, s) \<Rightarrow> (p, order s)))"

definition IsPeerModelLoaded :: "poll \<Rightarrow> string \<Rightarrow> string \<Rightarrow> PeerProxy \<Rightarrow> PeerProxy \<times> bool" where
  "IsPeerModelLoaded w peerID modelID p =
     (case map_of (peers p) peerID of
        None \<Rightarrow> (p, False) | Some _ \<Rightarrow> (case peer_load w peerID p of (p, s) \<Rightarrow> (p, modelID \<in> all_loaded s)))"

definition PeerModelModality :: "poll \<Rightarrow> string \<Rightarrow> string \<Rightarrow> PeerProxy \<Rightarrow> PeerProxy \<times> modelModality option" where
  "PeerModelModality w peerID modelID p =
     (case map_of (peers p) peerID of
        None \<Rightarrow> (p, None) | Some _ \<Rightarrow> (case peer_load w peerID p of (p, s) \<Rightarrow> (p, map_of (modalities s) modelID)))"

definition PeerModelDims :: "poll \<Rightarrow> string \<Rightarrow> string \<Rightarrow> PeerProxy \<Rightarrow> PeerProxy \<times> modelDims option" where
  "PeerModelDims w peerID modelID p =
     (case map_of (peers p) peerID of
        None \<Rightarrow> (p, None) | Some _ \<Rightarrow> (case peer_load w peerID p of (p, s) \<Rightarrow> (p, dims s modelID)))"

text \<open>
  The snapshot a read gives, and that reads at one instant do not disturb each other: a second read
  of any peer gives what the first would have given.
\<close>

definition snap :: "poll \<Rightarrow> PeerProxy \<Rightarrow> string \<Rightarrow> peerLoadedSet" where
  "snap w p peerID = snd (peer_load w peerID p)"

text \<open>A read changes the cache alone.\<close>

definition with_cache :: "loadedCache \<Rightarrow> PeerProxy \<Rightarrow> PeerProxy" where
  "with_cache c p = p\<lparr>loaded_cache := c\<rparr>"

definition same_state :: "PeerProxy \<Rightarrow> PeerProxy \<Rightarrow> bool" where
  "same_state p q \<longleftrightarrow> (\<exists>c. q = with_cache c p)"

lemma same_state_refl [simp]: "same_state p p"
  by (auto simp: same_state_def with_cache_def intro: exI [of _ "loaded_cache p"])

lemma same_state_trans: "same_state p q \<Longrightarrow> same_state q r \<Longrightarrow> same_state p r"
  by (auto simp: same_state_def with_cache_def)

lemma same_stateD:
  assumes "same_state p q"
  shows "peers q = peers p" "modelPeers q = modelPeers p" "memberByPeer q = memberByPeer p" "peerOrder q = peerOrder p"
    "inFlight q = inFlight p" "loadedTTL q = loadedTTL p" "admission q = admission p" "affinity q = affinity p"
    "stats q = stats p" "peer_of q = peer_of p"
  using assms by (auto simp: same_state_def with_cache_def peer_of_def fun_eq_iff)

lemma peer_of_cache [simp]: "peer_of (p\<lparr>loaded_cache := c\<rparr>) = peer_of p"
  by (simp add: peer_of_def fun_eq_iff)

lemma peer_load_same: "same_state p (fst (peer_load w ID p))"
  by (auto simp: peer_load_def same_state_def with_cache_def split: prod.split)

lemma peerLoaded_twice:
  assumes "peerLoaded ttl now a ID peer cache = (c1, s)"
  shows "snd (peerLoaded ttl now a ID peer c1) = s"
    and "ID' \<noteq> ID \<Longrightarrow> snd (peerLoaded ttl now a' ID' peer' c1) = snd (peerLoaded ttl now a' ID' peer' cache)"
  using assms
  by (auto simp: peerLoaded_def Let_def split: if_splits option.splits)

lemma snap_stable: "snap w (fst (peer_load w j p)) k = snap w p k"
proof -
  obtain c s where c: "peerLoaded (loadedTTL p) (p_now w) (p_answer w j) j (peer_of p j) (loaded_cache p) = (c, s)"
    by fastforce
  have "snd (peerLoaded (loadedTTL p) (p_now w) (p_answer w k) k (peer_of p k) c)
      = snd (peerLoaded (loadedTTL p) (p_now w) (p_answer w k) k (peer_of p k) (loaded_cache p))"
    using peerLoaded_twice [OF c] c by (cases "k = j") auto
  then show ?thesis
    by (simp add: snap_def peer_load_def c split_beta)
qed

lemma peer_load_eq: "peer_load w k p = (fst (peer_load w k p), snap w p k)"
  by (simp add: snap_def)

end
