(* ===== verification/Peer_Selection.thy ===== *)
theory Peer_Selection
  imports Peer_Proxy
begin

section \<open>Choosing the peer for a model (proxy/peerproxy.go, peer_affinity.go, scheduler.go)\<close>

text \<open>
  When several peers serve a model, the pick ranks them by twice their in-flight count plus a bias from
  their loaded state, the lower the better and the first on a tie, discounts the peer a conversation's
  key hashes to, and reserves the winner. The bias is read before the lock is taken, the rank and the
  reservation are one critical section; so the pick is the function \<open>select_peer\<close> of the biases and the state in
  the lock. SHA-256 is the argument \<open>sha\<close>; what the JSON library reads from a body is \<open>bodyView\<close>.
\<close>

subsection \<open>Conversation keys\<close>

text \<open>
  The roles and raw contents of the messages, when the body has an array of them, and the raw prompt
  (empty when absent).
\<close>

record bodyView =
  bv_messages :: "(string \<times> string) list option"
  bv_prompt :: string

definition bigEndian8 :: "nat \<Rightarrow> string" where
  "bigEndian8 n = map (\<lambda>i. char_of (n div 256 ^ (7 - i) mod 256 :: nat)) [0..<8]"

definition affinityKeyFromBody :: "(string \<Rightarrow> string) \<Rightarrow> (string \<Rightarrow> bodyView) \<Rightarrow> string \<Rightarrow> bool \<Rightarrow> string" where
  "affinityKeyFromBody sha view body keyComp =
     (if length body = 0 then []
      else
        let (seed, tag) = (case bv_messages (view body) of
              None \<Rightarrow> ([], [])
            | Some msgs \<Rightarrow> (case find (\<lambda>(role, _). role = ''user'') msgs of
                  None \<Rightarrow> ([], []) | Some (_, content) \<Rightarrow> (content, ''u:'')));
            (seed, tag) = (if seed = [] \<and> keyComp then (bv_prompt (view body), ''p:'') else (seed, tag))
        in if seed = [] then [] else sha (tag @ bigEndian8 (length seed) @ seed))"

text \<open>\<open>header\<close> is \<open>http.Header.Get\<close>: empty when absent.\<close>

definition affinityKeyFromRequest :: "(string \<Rightarrow> string) \<Rightarrow> (string \<Rightarrow> bodyView) \<Rightarrow> affinityConfig
    \<Rightarrow> (string \<Rightarrow> string) \<Rightarrow> string \<Rightarrow> string" where
  "affinityKeyFromRequest sha view a header body =
     (case find (\<lambda>h. TrimSpace (header h) \<noteq> []) (headers a) of
        Some h \<Rightarrow> sha (''h:'' @ TrimSpace (header h))
      | None \<Rightarrow>
          if int (length body) < minBodyBytes a then []
          else affinityKeyFromBody sha view body (keyCompletions a))"

definition uint64_of :: "string \<Rightarrow> nat" where
  "uint64_of bytes = foldl (\<lambda>n c. 256 * n + of_char c) 0 bytes"

definition affinityScore :: "(string \<Rightarrow> string) \<Rightarrow> string \<Rightarrow> string \<Rightarrow> nat" where
  "affinityScore sha key peerID = uint64_of (take 8 (sha (key @ [CHR 0x00] @ peerID)))"

text \<open>The rendezvous loop: the running best and its score.\<close>

fun affine_loop :: "(string \<Rightarrow> nat) \<Rightarrow> string option \<Rightarrow> string list \<Rightarrow> string option" where
  "affine_loop score best [] = best"
| "affine_loop score best (pp # pps) =
     affine_loop score
       (case best of
          None \<Rightarrow> Some pp
        | Some b \<Rightarrow> if score pp > score b \<or> (score pp = score b \<and> pp < b) then Some pp else best) pps"

definition affinePeer :: "(string \<Rightarrow> string) \<Rightarrow> string \<Rightarrow> string list \<Rightarrow> string option" where
  "affinePeer sha key candidates =
     (if key = [] \<or> length candidates = 0 then None
      else affine_loop (affinityScore sha key) None candidates)"

lemma affine_loop_member: "affine_loop score best cs = Some a \<Longrightarrow> a \<in> set cs \<or> best = Some a"
  by (induction cs arbitrary: best) (force split: option.splits if_splits)+

lemma affinePeer_member: "affinePeer sha key cs = Some a \<Longrightarrow> a \<in> set cs"
  using affine_loop_member [of _ None cs a] by (auto simp: affinePeer_def split: if_splits)

subsection \<open>The load-aware rank\<close>

definition peer_bias :: "poll \<Rightarrow> PeerProxy \<Rightarrow> string \<Rightarrow> peerLoadedSet \<Rightarrow> int" where
  "peer_bias w p modelID loaded =
     (if served_names loaded = {} \<or> p_now w - fetchedAt loaded > 2 * loadedTTL p then 6
      else if modelID \<in> all_loaded loaded then 0
      else if length (order loaded) = 0 then 1
      else 3)"

definition peerModelBias :: "poll \<Rightarrow> string \<Rightarrow> string \<Rightarrow> PeerProxy \<Rightarrow> PeerProxy \<times> int" where
  "peerModelBias w modelID peerID p =
     (case peer_load w peerID p of (p, loaded) \<Rightarrow> (p, peer_bias w p modelID loaded))"

fun biases :: "poll \<Rightarrow> string \<Rightarrow> string list \<Rightarrow> PeerProxy \<Rightarrow> PeerProxy \<times> int list" where
  "biases w modelID [] p = (p, [])"
| "biases w modelID (c # cs) p =
     (case peerModelBias w modelID c p of (p, b) \<Rightarrow>
        (case biases w modelID cs p of (p, bs) \<Rightarrow> (p, b # bs)))"

text \<open>The ranking loop over the candidates with their biases: the first of the least.\<close>

fun best_loop :: "(string \<Rightarrow> int) \<Rightarrow> (string \<times> int) option \<Rightarrow> (string \<times> int) list \<Rightarrow> (string \<times> int) option" where
  "best_loop infl best [] = best"
| "best_loop infl best ((pp, b) # rest) =
     (let key = infl pp * 2 + b in
      best_loop infl (case best of None \<Rightarrow> Some (pp, key)
                      | Some (_, bestKey) \<Rightarrow> if key < bestKey then Some (pp, key) else best) rest)"

definition admissionSaturated :: "PeerProxy \<Rightarrow> string \<Rightarrow> string list \<Rightarrow> bool" where
  "admissionSaturated p pp candidates =
     (if \<not> pa_enabled (Some (admission p)) then False
      else if inFlight p pp < maxInflight (admission p) then False
      else list_ex (\<lambda>other. other \<noteq> pp \<and> inFlight p other < maxInflight (admission p)) candidates)"

definition reserve :: "string \<Rightarrow> PeerProxy \<Rightarrow> PeerProxy" where
  "reserve pp p = p\<lparr>inFlight := (inFlight p)(pp := inFlight p pp + 1)\<rparr>"

text \<open>The critical section; \<open>affine\<close> is the affine peer with its bias.\<close>

definition select_peer :: "(string \<times> int) option \<Rightarrow> (string \<times> int) list \<Rightarrow> PeerProxy \<Rightarrow> PeerProxy \<times> string option" where
  "select_peer affine ranked p =
     (let best = best_loop (inFlight p) None ranked; st = stats p;
          fallback = (\<lambda>p. case best of None \<Rightarrow> (p, None) | Some (pp, _) \<Rightarrow> (reserve pp p, Some pp)) in
      case affine of
        None \<Rightarrow> fallback p
      | Some (a, affineBias) \<Rightarrow>
          if affineBias \<noteq> 0 then fallback (p\<lparr>stats := st\<lparr>spillsCold := spillsCold st + 1\<rparr>\<rparr>)
          else if admissionSaturated p a (map fst ranked)
          then fallback (p\<lparr>stats := st\<lparr>spillsCapped := spillsCapped st + 1\<rparr>\<rparr>)
          else if inFlight p a * 2 + affineBias - bonus (affinity p) \<le> (case best of None \<Rightarrow> 0 | Some (_, k) \<Rightarrow> k)
          then (reserve a (p\<lparr>stats := st\<lparr>hits := hits st + 1\<rparr>\<rparr>), Some a)
          else fallback (p\<lparr>stats := st\<lparr>spillsBusy := spillsBusy st + 1\<rparr>\<rparr>))"

definition pickPeerForModelWithAffinity ::
  "(string \<Rightarrow> string) \<Rightarrow> poll \<Rightarrow> string \<Rightarrow> string \<Rightarrow> PeerProxy \<Rightarrow> PeerProxy \<times> string option" where
  "pickPeerForModelWithAffinity sha w modelID affinityKey p =
     (case modelPeers p modelID of
        [] \<Rightarrow> (p, None)
      | [c] \<Rightarrow> (reserve c p, Some c)
      | candidates \<Rightarrow>
          (case biases w modelID candidates p of (p, bs) \<Rightarrow>
             let ranked = zip candidates bs in
             if \<not> aff_enabled (affinity p) then select_peer None ranked p
             else (case affinePeer sha affinityKey candidates of
                     Some a \<Rightarrow> select_peer (Some (a, the (map_of ranked a))) ranked p
                   | None \<Rightarrow> select_peer None ranked
                       (p\<lparr>stats := (stats p)\<lparr>noKey := noKey (stats p) + 1\<rparr>\<rparr>))))"

definition pickPeerForModel :: "(string \<Rightarrow> string) \<Rightarrow> poll \<Rightarrow> string \<Rightarrow> PeerProxy \<Rightarrow> PeerProxy \<times> string option" where
  "pickPeerForModel sha w modelID p = pickPeerForModelWithAffinity sha w modelID [] p"

text \<open>The release deferred by the dispatcher, and \<open>AffinityStats\<close>.\<close>

definition release_pick :: "string \<Rightarrow> PeerProxy \<Rightarrow> PeerProxy" where
  "release_pick pp p = p\<lparr>inFlight := (inFlight p)(pp := inFlight p pp - 1)\<rparr>"

definition AffinityStats :: "PeerProxy \<Rightarrow> nat \<times> nat \<times> nat \<times> nat \<times> nat" where
  "AffinityStats p = (hits (stats p), spillsCold (stats p), spillsCapped (stats p), spillsBusy (stats p), noKey (stats p))"

subsection \<open>The scheduler's view (scheduler.go)\<close>

record Node =
  node_Name :: string
  GpuIndex :: int

record RankKey =
  Warm :: int
  FreeMB :: int
  Load :: int
  Local :: int

definition Cmp :: "RankKey \<Rightarrow> RankKey \<Rightarrow> int" where
  "Cmp a b = (case find (\<lambda>d. d \<noteq> 0) [Warm a - Warm b, FreeMB a - FreeMB b, Load a - Load b, Local a - Local b] of
      Some d \<Rightarrow> d | None \<Rightarrow> 0)"

record Fit =
  Fits :: bool
  FreeVramMB :: int
  WeightsMB :: int
  KvMB :: int
  HeadroomMB :: int
  Score :: RankKey

definition zeroFit :: Fit where
  "zeroFit = \<lparr>Fits = False, FreeVramMB = 0, WeightsMB = 0, KvMB = 0, HeadroomMB = 0,
     Score = \<lparr>Warm = 0, FreeMB = 0, Load = 0, Local = 0\<rparr>\<rparr>"

definition gemVacantFreeMB :: int where "gemVacantFreeMB = 16000"
definition gemOccupiedFreeMB :: int where "gemOccupiedFreeMB = 4000"
definition gemDeadFreeMB :: int where "gemDeadFreeMB = 0"

definition gems_Fit :: "poll \<Rightarrow> string \<Rightarrow> Node \<Rightarrow> PeerProxy \<Rightarrow> PeerProxy \<times> Fit" where
  "gems_Fit w model node p =
     (case memberByPeer p (node_Name node) of
        None \<Rightarrow> (p, zeroFit)
      | Some _ \<Rightarrow>
          (case peerModelBias w model (node_Name node) p of (p, bias) \<Rightarrow>
             let freeMB = (if bias = 0 \<or> bias = 1 then gemVacantFreeMB
                           else if bias = 3 then gemOccupiedFreeMB else gemDeadFreeMB)
             in (p, zeroFit\<lparr>Fits := True, FreeVramMB := freeMB,
                   Score := \<lparr>Warm = (if bias = 0 then 1 else 0), FreeMB = freeMB,
                             Load = - inFlight p (node_Name node), Local = 0\<rparr>\<rparr>)))"

fun score_candidates :: "poll \<Rightarrow> string \<Rightarrow> string list \<Rightarrow> PeerProxy \<Rightarrow> PeerProxy \<times> ((Node \<times> Fit) \<times> int) list" where
  "score_candidates w model [] p = (p, [])"
| "score_candidates w model (c # cs) p =
     (case peerModelBias w model c p of (p, bias) \<Rightarrow>
        let key = inFlight p c * 2 + bias; node = \<lparr>node_Name = c, GpuIndex = 0\<rparr> in
        (case gems_Fit w model node p of (p, fit) \<Rightarrow>
           (case score_candidates w model cs p of (p, rest) \<Rightarrow> (p, ((node, fit), key) # rest))))"

text \<open>\<open>sort.SliceStable\<close> by the key is \<open>sort_key\<close>.\<close>

definition Rank :: "poll \<Rightarrow> string \<Rightarrow> PeerProxy \<Rightarrow> PeerProxy \<times> (Node \<times> Fit) list" where
  "Rank w model p =
     (if length (modelPeers p model) = 0 then (p, [])
      else case score_candidates w model (modelPeers p model) p of
        (p, scored) \<Rightarrow> (p, map fst (sort_key snd scored)))"


subsection \<open>A ranker's contract\<close>

lemma sort_key_eq: "\<forall>x \<in> set xs. f x = g x \<Longrightarrow> sort_key f xs = sort_key g xs"
proof (induction xs)
  case (Cons x xs)
  have "\<forall>y \<in> insert x (set ys). f y = g y \<Longrightarrow> insort_key f x ys = insort_key g x ys" for ys
    by (induction ys) auto
  from this [of "sort_key g xs"] Cons show ?case by simp
qed simp

lemma find_filter: "find P xs = (case filter P xs of [] \<Rightarrow> None | x # _ \<Rightarrow> Some x)"
  by (induction xs) auto

lemma sort_key_map: "sort_key f (map g xs) = map g (sort_key (f \<circ> g) xs)"
proof -
  have "insort_key f (g x) (map g ys) = map g (insort_key (f \<circ> g) x ys)" for x ys
    by (induction ys) auto
  then show ?thesis by (induction xs) simp_all
qed

text \<open>
  The Go interface \<open>Ranker\<close> with what its users rely on: the candidates best first, ties in the order
  of the candidates.
\<close>

locale ranker =
  fixes rank :: "'s \<Rightarrow> string \<Rightarrow> 'c list"
    and key :: "'s \<Rightarrow> string \<Rightarrow> 'c \<Rightarrow> int"
    and cands :: "'s \<Rightarrow> string \<Rightarrow> 'c list"
  assumes rank_sorted: "sorted (map (key s m) (rank s m))"
    and rank_stable: "filter (\<lambda>c. key s m c = k) (rank s m) = filter (\<lambda>c. key s m c = k) (cands s m)"
begin

lemma rank_set: "set (rank s m) = set (cands s m)"
proof -
  have "c \<in> set (rank s m) \<longleftrightarrow> c \<in> set (cands s m)" for c
    using arg_cong [OF rank_stable [of s m "key s m c"], of "\<lambda>xs. c \<in> set xs"] by simp
  then show ?thesis by blast
qed

text \<open>The head is the first candidate of the least key.\<close>

lemma rank_hd:
  assumes "rank s m = c # cs"
  shows "c \<in> set (cands s m) \<and> (\<forall>d \<in> set (cands s m). key s m c \<le> key s m d)
    \<and> find (\<lambda>d. key s m d = key s m c) (cands s m) = Some c"
proof -
  have f: "filter (\<lambda>d. key s m d = key s m c) (cands s m) = c # filter (\<lambda>d. key s m d = key s m c) cs"
    using rank_stable [of s m "key s m c"] assms by simp
  have "find (\<lambda>d. key s m d = key s m c) (cands s m) = Some c"
    by (simp add: find_filter f)
  moreover have "key s m c \<le> key s m d" if "d \<in> set (cands s m)" for d
    using that rank_sorted [of s m] rank_set [of s m] assms by auto
  ultimately show ?thesis using rank_set [of s m] assms by auto
qed

end

subsection \<open>The pick is the first of the least rank\<close>

lemma hd_insort_key: "hd (insort_key f x ys) = (if ys = [] \<or> f x \<le> f (hd ys) then x else hd ys)"
  by (cases ys) auto

lemma insort_key_not_Nil [simp]: "insort_key f x ys \<noteq> []"
  by (cases ys) auto

definition rank_of :: "(string \<Rightarrow> int) \<Rightarrow> string \<times> int \<Rightarrow> int" where
  "rank_of infl x = infl (fst x) * 2 + snd x"

lemma best_loop_step:
  "best_loop infl (Some (fst x, rank_of infl x)) (y # ys) =
     (let z = if rank_of infl y < rank_of infl x then y else x in best_loop infl (Some (fst z, rank_of infl z)) ys)"
  by (cases y) (simp add: rank_of_def Let_def)

lemma best_loop_Some:
  "best_loop infl (Some (fst x, rank_of infl x)) ys
     = (let h = hd (sort_key (rank_of infl) (x # ys)) in Some (fst h, rank_of infl h))"
proof (induction ys arbitrary: x)
  case (Cons y ys)
  have "hd (sort_key (rank_of infl) (x # y # ys))
      = hd (sort_key (rank_of infl) ((if rank_of infl y < rank_of infl x then y else x) # ys))"
    by (auto simp: hd_insort_key)
  then show ?case
    unfolding best_loop_step Cons.IH Let_def by simp
qed (simp add: Let_def)

lemma best_loop_hd:
  "best_loop infl None xs =
     (case sort_key (rank_of infl) xs of [] \<Rightarrow> None | h # _ \<Rightarrow> Some (fst h, rank_of infl h))"
proof (cases xs)
  case (Cons x ys)
  have "best_loop infl None xs = best_loop infl (Some (fst x, rank_of infl x)) ys"
    by (cases x) (simp add: Cons rank_of_def)
  then show ?thesis
    by (simp add: best_loop_Some Cons Let_def split: list.split)
qed simp

lemma best_loop_least:
  assumes "best_loop infl None xs = Some (c, k)"
  shows "\<exists>b. (c, b) \<in> set xs \<and> k = infl c * 2 + b" "\<forall>(d, b) \<in> set xs. k \<le> infl d * 2 + b"
proof -
  obtain h t where h: "sort_key (rank_of infl) xs = h # t" "c = fst h" "k = rank_of infl h"
    using assms by (auto simp: best_loop_hd split: list.splits)
  have "set (h # t) = set xs" by (metis h(1) set_sort)
  moreover have "sorted (map (rank_of infl) (h # t))" by (metis h(1) sorted_sort_key)
  ultimately show "\<exists>b. (c, b) \<in> set xs \<and> k = infl c * 2 + b" "\<forall>(d, b) \<in> set xs. k \<le> infl d * 2 + b"
    using h(2,3) by (force simp: rank_of_def)+
qed

lemma best_loop_None: "best_loop infl None xs = None \<longleftrightarrow> xs = []"
  by (cases xs) (auto simp: best_loop_hd split: list.splits)


subsection \<open>Biases are those of the snapshots\<close>

definition bias_of :: "poll \<Rightarrow> PeerProxy \<Rightarrow> string \<Rightarrow> string \<Rightarrow> int" where
  "bias_of w p modelID c = peer_bias w p modelID (snap w p c)"

definition peer_rank :: "poll \<Rightarrow> PeerProxy \<Rightarrow> string \<Rightarrow> string \<Rightarrow> int" where
  "peer_rank w p modelID c = inFlight p c * 2 + bias_of w p modelID c"

lemma peerModelBias_eq: "peerModelBias w m c p = (fst (peer_load w c p), bias_of w p m c)"
  using same_stateD(6) [OF peer_load_same [of p w c]]
  by (simp add: peerModelBias_def split_beta snap_def bias_of_def peer_bias_def)

lemma bias_of_stable: "bias_of w (fst (peer_load w j p)) m c = bias_of w p m c"
  using same_stateD(6) [OF peer_load_same [of p w j]] by (simp add: bias_of_def snap_stable peer_bias_def)

lemma biases_eq:
  "snd (biases w m cs p) = map (bias_of w p m) cs \<and> same_state p (fst (biases w m cs p))"
proof (induction cs arbitrary: p)
  case (Cons c cs)
  show ?case
    using Cons.IH [of "fst (peer_load w c p)"] same_state_trans [OF peer_load_same [of p w c]]
    by (simp add: peerModelBias_eq split_beta bias_of_stable)
qed simp

lemma gems_Fit_eq:
  "\<exists>fit. gems_Fit w m node p = (if memberByPeer p (node_Name node) = None then p else fst (peer_load w (node_Name node) p), fit)"
  by (auto simp: gems_Fit_def peerModelBias_eq Let_def split: option.split)

lemma score_candidates_eq:
  "map (\<lambda>s. node_Name (fst (fst s))) (snd (score_candidates w m cs p)) = cs
   \<and> map snd (snd (score_candidates w m cs p)) = map (peer_rank w p m) cs
   \<and> same_state p (fst (score_candidates w m cs p))"
proof (induction cs arbitrary: p)
  case (Cons c cs)
  let ?q = "fst (peer_load w c p)" and ?node = "\<lparr>node_Name = c, GpuIndex = 0\<rparr>"
  obtain r fit where g: "gems_Fit w m ?node ?q = (r, fit)" by fastforce
  from gems_Fit_eq [of w m ?node ?q] g have r: "r = ?q \<or> r = fst (peer_load w c ?q)" by (auto split: if_splits)
  have same: "same_state p r"
    using r same_state_trans [OF peer_load_same peer_load_same] peer_load_same by auto
  have rank: "peer_rank w r m d = peer_rank w p m d" for d
    using r same_stateD(5) [OF same] bias_of_stable by (auto simp: peer_rank_def)
  have "inFlight ?q = inFlight p" using same_stateD(5) [OF peer_load_same] .
  then show ?case
    using Cons.IH [of r] same_state_trans [OF same] rank
    by (simp add: peerModelBias_eq g split_beta Let_def peer_rank_def)
qed simp

text \<open>The names the scheduler ranks, for a fixed poll.\<close>

definition rank_names :: "poll \<times> PeerProxy \<Rightarrow> string \<Rightarrow> string list" where
  "rank_names s m = map (node_Name \<circ> fst) (snd (Rank (fst s) m (snd s)))"

lemma rank_names_eq: "rank_names (w, p) m = sort_key (peer_rank w p m) (modelPeers p m)"
proof -
  let ?sc = "snd (score_candidates w m (modelPeers p m) p)"
  let ?name = "\<lambda>s. node_Name (fst (fst s))"
  have n: "map ?name ?sc = modelPeers p m" and k: "map snd ?sc = map (peer_rank w p m) (modelPeers p m)"
    using score_candidates_eq [of w m "modelPeers p m" p] by blast+
  have "map snd ?sc = map (peer_rank w p m \<circ> ?name) ?sc" by (simp only: k map_map [symmetric] n)
  then have "\<forall>x \<in> set ?sc. snd x = (peer_rank w p m \<circ> ?name) x" by (simp only: map_eq_conv)
  then have "sort_key snd ?sc = sort_key (peer_rank w p m \<circ> ?name) ?sc" by (rule sort_key_eq)
  then have "map ?name (sort_key snd ?sc) = sort_key (peer_rank w p m) (modelPeers p m)"
    by (simp add: sort_key_map [symmetric] n)
  then show ?thesis
    by (auto simp: rank_names_def Rank_def split_beta comp_def)
qed


interpretation gems: ranker rank_names "\<lambda>s m. peer_rank (fst s) (snd s) m" "\<lambda>s. modelPeers (snd s)"
proof unfold_locales
  fix s :: "poll \<times> PeerProxy" and m k
  obtain w p where s: "s = (w, p)" by fastforce
  show "sorted (map (peer_rank (fst s) (snd s) m) (rank_names s m))"
    by (simp add: s rank_names_eq)
  show "filter (\<lambda>c. peer_rank (fst s) (snd s) m c = k) (rank_names s m)
      = filter (\<lambda>c. peer_rank (fst s) (snd s) m c = k) (modelPeers (snd s) m)"
    by (simp add: s rank_names_eq sort_key_stable)
qed

subsection \<open>The pick\<close>

lemma select_peer_spec:
  assumes sel: "select_peer aff (zip cs (map b cs)) p = (p', r)" and cs: "cs \<noteq> []"
    and aff: "case aff of None \<Rightarrow> True | Some (a, ab) \<Rightarrow> a \<in> set cs \<and> ab = b a"
  shows "\<exists>c. r = Some c \<and> c \<in> set cs \<and> inFlight p' = (inFlight p)(c := inFlight p c + 1)
    \<and> (\<forall>d \<in> set cs. inFlight p c * 2 + b c \<le> inFlight p d * 2 + b d
          + (if aff = Some (c, 0) then max 0 (bonus (affinity p)) else 0))"
proof -
  let ?r = "zip cs (map b cs)"
  have mem: "(c, x) \<in> set ?r \<longleftrightarrow> c \<in> set cs \<and> x = b c" for c x
    by (auto simp: zip_map2 zip_same_conv_map)
  obtain c k where best: "best_loop (inFlight p) None ?r = Some (c, k)"
    using best_loop_None [of "inFlight p" ?r] cs by (cases "best_loop (inFlight p) None ?r") (auto simp: zip_eq_Nil_iff)
  have c: "c \<in> set cs" "k = inFlight p c * 2 + b c" "\<forall>d \<in> set cs. k \<le> inFlight p d * 2 + b d"
    using best_loop_least [OF best] by (auto simp: mem)
  show ?thesis
  proof (cases "\<exists>a. aff = Some (a, 0) \<and> \<not> admissionSaturated p a (map fst ?r)
      \<and> inFlight p a * 2 - bonus (affinity p) \<le> k")
    case True
    then obtain a where a: "aff = Some (a, 0)" "inFlight p a * 2 - bonus (affinity p) \<le> k"
      "\<not> admissionSaturated p a (map fst ?r)" by blast
    then have "r = Some a" "inFlight p' = (inFlight p)(a := inFlight p a + 1)"
      using sel by (auto simp: select_peer_def Let_def best reserve_def)
    moreover have "a \<in> set cs" "b a = 0" using aff a(1) by auto
    moreover have "\<forall>d \<in> set cs. inFlight p a * 2 + b a \<le> inFlight p d * 2 + b d + max 0 (bonus (affinity p))"
      using a(2) c(3) \<open>b a = 0\<close> by fastforce
    ultimately show ?thesis using a(1) by auto
  next
    case False
    then have "r = Some c" "inFlight p' = (inFlight p)(c := inFlight p c + 1)"
      using sel by (auto simp: select_peer_def Let_def best reserve_def split: option.splits prod.splits if_splits)
    then show ?thesis using c by force
  qed
qed

text \<open>How the pick reaches the critical section.\<close>

lemma pick_cases:
  assumes "pickPeerForModelWithAffinity sha w m key p = (p', r)"
  obtains (none) "modelPeers p m = []" "p' = p" "r = None"
  | (single) c where "modelPeers p m = [c]" "p' = reserve c p" "r = Some c"
  | (several) q aff where "modelPeers p m \<noteq> []"
      "select_peer aff (zip (modelPeers p m) (map (bias_of w p m) (modelPeers p m))) q = (p', r)"
      "inFlight q = inFlight p" "affinity q = affinity p"
      "aff = (if aff_enabled (affinity p)
         then map_option (\<lambda>a. (a, bias_of w p m a)) (affinePeer sha key (modelPeers p m)) else None)"
proof -
  let ?cs = "modelPeers p m"
  have the_bias: "a \<in> set cs \<Longrightarrow> the (map_of (zip cs (map f cs)) a) = f a" for a cs and f :: "string \<Rightarrow> int"
    by (simp add: map_of_zip_map)
  obtain q bs where b: "biases w m ?cs p = (q, bs)" by fastforce
  then have bs: "bs = map (bias_of w p m) ?cs" and q: "same_state p q"
    using biases_eq [of w m ?cs p] by auto
  note qd = same_stateD [OF q]
  show ?thesis
  proof (cases ?cs)
    case Nil
    then show ?thesis using assms by (intro none) (simp_all add: pickPeerForModelWithAffinity_def)
  next
    case (Cons c cs)
    show ?thesis
    proof (cases cs)
      case Nil
      then show ?thesis using assms Cons by (intro single [of c]) (simp_all add: pickPeerForModelWithAffinity_def)
    next
      case (Cons d ds)
      then have many: "?cs = c # d # ds" using \<open>?cs = c # cs\<close> by simp
      have pick: "(p', r) = (if \<not> aff_enabled (affinity q) then select_peer None (zip ?cs bs) q
          else case affinePeer sha key ?cs of
                 Some a \<Rightarrow> select_peer (Some (a, the (map_of (zip ?cs bs) a))) (zip ?cs bs) q
               | None \<Rightarrow> select_peer None (zip ?cs bs) (q\<lparr>stats := (stats q)\<lparr>noKey := noKey (stats q) + 1\<rparr>\<rparr>))"
        unfolding assms [symmetric] pickPeerForModelWithAffinity_def many list.case
        by (simp only: b [unfolded many] prod.case Let_def)
      show ?thesis
      proof (cases "aff_enabled (affinity p)")
        case False
        then show ?thesis using pick bs qd many by (intro several [of None q]) auto
      next
        case on: True
        show ?thesis
        proof (cases "affinePeer sha key ?cs")
          case None
          then show ?thesis
            using pick bs qd many on
            by (intro several [of None "q\<lparr>stats := (stats q)\<lparr>noKey := noKey (stats q) + 1\<rparr>\<rparr>"]) auto
        next
          case (Some a)
          then show ?thesis
            using pick bs qd many on the_bias [OF affinePeer_member [OF Some], of "bias_of w p m"]
            by (intro several [of "Some (a, bias_of w p m a)" q]) auto
        qed
      qed
    qed
  qed
qed


text \<open>
  C36. The pick is bounded: when peers serve the model, one of them is picked and its in-flight count alone
  goes up, by one; its rank is the least of all candidates, unless it is the peer the conversation's key
  is bound to and already holds the model, when it exceeds no candidate's rank by more than the affinity
  bonus. When no peer serves the model, nothing happens.
\<close>

theorem pick_bounded:
  "let (p', r) = pickPeerForModelWithAffinity sha w modelID key p; cs = modelPeers p modelID in
     case r of
       None \<Rightarrow> cs = [] \<and> p' = p
     | Some c \<Rightarrow> c \<in> set cs \<and> inFlight p' = (inFlight p)(c := inFlight p c + 1)
         \<and> list_all (\<lambda>d. peer_rank w p modelID c \<le> peer_rank w p modelID d
              + (if aff_enabled (affinity p) \<and> affinePeer sha key cs = Some c \<and> bias_of w p modelID c = 0
                 then max 0 (bonus (affinity p)) else 0)) cs"
proof -
  obtain p' r where r: "pickPeerForModelWithAffinity sha w modelID key p = (p', r)" by fastforce
  from r show ?thesis
  proof (cases rule: pick_cases)
    case none
    then show ?thesis by (simp add: r)
  next
    case (single c)
    then show ?thesis by (simp add: r reserve_def)
  next
    case (several q aff)
    have aff: "case aff of None \<Rightarrow> True | Some (a, ab) \<Rightarrow> a \<in> set (modelPeers p modelID) \<and> ab = bias_of w p modelID a"
    proof (cases aff)
      case (Some a)
      then have "affinePeer sha key (modelPeers p modelID) = Some (fst a)" "snd a = bias_of w p modelID (fst a)"
        using several(5) by (auto split: if_splits)
      then show ?thesis using Some affinePeer_member by (auto split: prod.splits)
    qed simp
    from select_peer_spec [OF several(2,1) aff] show ?thesis
      using several(3-5) by (auto simp: r peer_rank_def list_all_iff split: if_splits)
  qed
qed



subsection \<open>Conversations stick\<close>

definition ahead :: "(string \<Rightarrow> nat) \<Rightarrow> string \<Rightarrow> string \<Rightarrow> bool" where
  "ahead score a d \<longleftrightarrow> a = d \<or> score d < score a \<or> (score d = score a \<and> a < d)"

lemma affine_loop_spec:
  "affine_loop score best cs = Some a \<longleftrightarrow>
     (a \<in> set cs \<or> best = Some a) \<and> (\<forall>d \<in> set cs. ahead score a d)
       \<and> (case best of None \<Rightarrow> True | Some b \<Rightarrow> ahead score a b)"
proof (induction cs arbitrary: best)
  case Nil
  then show ?case by (auto simp: ahead_def split: option.splits)
next
  case (Cons c cs)
  show ?case
  proof (cases best)
    case None
    then show ?thesis by (auto simp: Cons.IH ahead_def)
  next
    case (Some b)
    then show ?thesis by (auto simp: Cons.IH ahead_def)
  qed
qed

text \<open>
  C38. Conversations stick: the peer a key is bound to does not depend on the order or the multiplicity of
  the candidates, and it stays bound to the same peer whatever other candidates leave; so a pool that
  loses a peer moves only the conversations of that peer.
\<close>

theorem conversation_sticks:
  assumes "affinePeer sha key cs = Some a" "a \<in> set remaining" "set remaining \<subseteq> set cs"
  shows "affinePeer sha key remaining = Some a"
proof -
  have "key \<noteq> []" "remaining \<noteq> []" using assms by (auto simp: affinePeer_def split: if_splits)
  then show ?thesis
    using assms by (auto simp: affinePeer_def affine_loop_spec split: if_splits)
qed

theorem conversation_sticks_witness:
  "affinePeer (\<lambda>s. rev s) ''k'' [''b'', ''c'', ''a''] = Some ''c''
   \<and> affinePeer (\<lambda>s. rev s) ''k'' [''a'', ''c''] = Some ''c''"
proof -
  have "affinePeer (\<lambda>s. rev s) ''k'' [''b'', ''c'', ''a''] = Some ''c''"
    by (simp add: affinePeer_def affinityScore_def uint64_of_def)
  moreover from conversation_sticks [OF this, of "[''a'', ''c'']"]
  have "affinePeer (\<lambda>s. rev s) ''k'' [''a'', ''c''] = Some ''c''" by simp
  ultimately show ?thesis by blast
qed

end
