(* ===== verification/Peer_Address.thy ===== *)
theory Peer_Address
  imports Peer_Proxy
begin

section \<open>Model addresses (proxy/peeraddress.go)\<close>

text \<open>
  The grammar \<open>model@node\<close>, with wildcards on either side and capability expressions on the model side,
  and its resolution against what the peers have loaded. Reads of the loaded state go through the cache,
  so a resolution returns the proxy with the cache it leaves. The texts of the error messages are left
  out; an error is its kind, and \<open>addr_code\<close> is the HTTP status the handler answers with.
\<close>

definition anyAlias :: string where "anyAlias = ''any''"

datatype addrError =
    TooManyAt string | BadCapability string | UnknownNode string | NotServed string string
  | NothingLoaded | NodeEmpty string | NoCapability | NodeNoCapability string

fun addr_code :: "addrError \<Rightarrow> int" where
  "addr_code (TooManyAt raw) = 400"
| "addr_code (BadCapability raw) = 400"
| "addr_code (UnknownNode node) = 400"
| "addr_code (NotServed node model) = 400"
| "addr_code NothingLoaded = 503"
| "addr_code (NodeEmpty node) = 503"
| "addr_code NoCapability = 503"
| "addr_code (NodeNoCapability node) = 503"

definition addrErrorCode :: "addrError option \<Rightarrow> int" where
  "addrErrorCode e = (case e of Some ae \<Rightarrow> addr_code ae | None \<Rightarrow> 400)"

record AddressResolution =
  PeerID :: string
  Model :: string
  Rewrote :: bool

definition isWildcard :: "string \<Rightarrow> bool" where
  "isWildcard s = (s = [] \<or> EqualFold s anyAlias)"

text \<open>\<open>strings.Count(raw, "@")\<close> is the number of occurrences of the byte.\<close>

definition splitAddress :: "string \<Rightarrow> addrError + string \<times> string \<times> bool" where
  "splitAddress raw =
     (let raw = TrimSpace raw in
      case length (filter (\<lambda>c. c = CHR ''@'') raw) of
        0 \<Rightarrow> Inr (raw, [], False)
      | Suc 0 \<Rightarrow>
          (case cut raw (CHR ''@'') of
             Some (model, node) \<Rightarrow> Inr (TrimSpace model, TrimSpace node, True)
           | None \<Rightarrow> Inr (raw, [], False))
      | _ \<Rightarrow> Inl (TooManyAt raw))"

subsection \<open>Capability expressions\<close>

definition splitModalityCSV :: "string \<Rightarrow> string list" where
  "splitModalityCSV s = filter (\<lambda>t. t \<noteq> []) (map TrimSpace (Split s (CHR '','')))"

text \<open>\<open>Inr None\<close> when the text is not a capability expression.\<close>

definition parseCapability :: "string \<Rightarrow> addrError + (string list \<times> string list) option" where
  "parseCapability raw =
     (let s = ToLower (TrimSpace raw); s = TrimSpace (TrimPrefix s anyAlias) in
      if \<not> HasPrefix s ''['' then Inr None
      else case cut s (CHR '']'') of
        None \<Rightarrow> Inl (BadCapability raw)
      | Some (ins, rest) \<Rightarrow>
          (let rest = TrimSpace rest in
           if \<not> HasPrefix rest ''to'' then Inl (BadCapability raw)
           else
             let rest = TrimSpace (TrimPrefix rest ''to'') in
             if \<not> HasPrefix rest ''['' \<or> \<not> HasSuffix rest '']'' then Inl (BadCapability raw)
             else Inr (Some (splitModalityCSV (tl ins), splitModalityCSV (butlast (tl rest))))))"

definition containsAllFold :: "string list \<Rightarrow> string list \<Rightarrow> bool" where
  "containsAllFold have want = list_all (\<lambda>w. list_ex (\<lambda>h. EqualFold h w) have) want"

definition modalitySatisfies :: "modelModality \<Rightarrow> string list \<Rightarrow> string list \<Rightarrow> bool" where
  "modalitySatisfies md reqIn reqOut = (containsAllFold (mod_In md) reqIn \<and> containsAllFold (mod_Out md) reqOut)"

definition capable :: "peerLoadedSet \<Rightarrow> string list \<Rightarrow> string list \<Rightarrow> string \<Rightarrow> bool" where
  "capable s reqIn reqOut m =
     (case map_of (modalities s) m of None \<Rightarrow> False | Some md \<Rightarrow> modalitySatisfies md reqIn reqOut)"

definition firstModelMatchingCaps :: "poll \<Rightarrow> string \<Rightarrow> string list \<Rightarrow> string list \<Rightarrow> PeerProxy \<Rightarrow> PeerProxy \<times> string option" where
  "firstModelMatchingCaps w peerID reqIn reqOut p =
     (case peer_load w peerID p of (p, loaded) \<Rightarrow>
        (p, case find (capable loaded reqIn reqOut) (order loaded) of
              Some m \<Rightarrow> Some m
            | None \<Rightarrow> find (capable loaded reqIn reqOut) (sort (map fst (modalities loaded)))))"

fun capability_scan :: "poll \<Rightarrow> string list \<Rightarrow> string list \<Rightarrow> string list \<Rightarrow> PeerProxy
    \<Rightarrow> PeerProxy \<times> (string \<times> string) option" where
  "capability_scan w reqIn reqOut [] p = (p, None)"
| "capability_scan w reqIn reqOut (ID # IDs) p =
     (case firstModelMatchingCaps w ID reqIn reqOut p of
        (p, Some m) \<Rightarrow> (p, Some (ID, m))
      | (p, None) \<Rightarrow> capability_scan w reqIn reqOut IDs p)"

definition resolveCapability :: "poll \<Rightarrow> string \<Rightarrow> bool \<Rightarrow> string list \<Rightarrow> string list \<Rightarrow> PeerProxy
    \<Rightarrow> PeerProxy \<times> (addrError + AddressResolution)" where
  "resolveCapability w node nodeWild reqIn reqOut p =
     (if nodeWild then
        (case capability_scan w reqIn reqOut (peerOrder p) p of
           (p, Some (ID, m)) \<Rightarrow> (p, Inr \<lparr>PeerID = ID, Model = m, Rewrote = True\<rparr>)
         | (p, None) \<Rightarrow> (p, Inl NoCapability))
      else case map_of (peers p) node of
        None \<Rightarrow> (p, Inl (UnknownNode node))
      | Some peer \<Rightarrow>
          (case firstModelMatchingCaps w node reqIn reqOut p of
             (p, Some m) \<Rightarrow> (p, Inr \<lparr>PeerID = node, Model = m, Rewrote = True\<rparr>)
           | (p, None) \<Rightarrow> (p, Inl (NodeNoCapability node))))"

subsection \<open>Resolution\<close>

definition pickModelForPeer :: "poll \<Rightarrow> string \<Rightarrow> PeerConfig \<Rightarrow> PeerProxy \<Rightarrow> PeerProxy \<times> string" where
  "pickModelForPeer w peerID peer p =
     (case peer_load w peerID p of (p, loaded) \<Rightarrow>
        (p, case order loaded of m # _ \<Rightarrow> m
            | [] \<Rightarrow> (case peer_Models peer of m # _ \<Rightarrow> m | [] \<Rightarrow> [])))"

definition peerServesModel :: "poll \<Rightarrow> string \<Rightarrow> PeerConfig \<Rightarrow> string \<Rightarrow> PeerProxy \<Rightarrow> PeerProxy \<times> bool" where
  "peerServesModel w peerID peer modelID p =
     (if modelID \<in> set (peer_Models peer) then (p, True)
      else case peer_load w peerID p of (p, loaded) \<Rightarrow>
        (p, modelID \<in> served_names loaded \<or> modelID \<in> all_loaded loaded))"

fun firstLoadedAnywhere :: "poll \<Rightarrow> string list \<Rightarrow> PeerProxy \<Rightarrow> PeerProxy \<times> (string \<times> string) option" where
  "firstLoadedAnywhere w [] p = (p, None)"
| "firstLoadedAnywhere w (ID # IDs) p =
     (case peer_load w ID p of (p, loaded) \<Rightarrow>
        (case order loaded of m # _ \<Rightarrow> (p, Some (ID, m)) | [] \<Rightarrow> firstLoadedAnywhere w IDs p))"

definition resolve_node :: "poll \<Rightarrow> string \<Rightarrow> string \<Rightarrow> bool \<Rightarrow> PeerProxy \<Rightarrow> PeerProxy \<times> (addrError + AddressResolution)" where
  "resolve_node w model node hasAt p =
     (case map_of (peers p) node of
        None \<Rightarrow> (p, Inl (UnknownNode node))
      | Some peer \<Rightarrow>
          if isWildcard model then
            (case pickModelForPeer w node peer p of (p, picked) \<Rightarrow>
               if picked = [] then (p, Inl (NodeEmpty node))
               else (p, Inr \<lparr>PeerID = node, Model = picked, Rewrote = True\<rparr>))
          else
            (case peerServesModel w node peer model p of (p, serves) \<Rightarrow>
               if \<not> serves then (p, Inl (NotServed node model))
               else (p, Inr \<lparr>PeerID = node, Model = model, Rewrote = hasAt\<rparr>)))"

definition ResolveAddress :: "poll \<Rightarrow> string \<Rightarrow> PeerProxy \<Rightarrow> PeerProxy \<times> (addrError + AddressResolution)" where
  "ResolveAddress w raw p =
     (case splitAddress raw of
        Inl e \<Rightarrow> (p, Inl e)
      | Inr (model, node, hasAt) \<Rightarrow>
          (case parseCapability model of
             Inl e \<Rightarrow> (p, Inl e)
           | Inr (Some (reqIn, reqOut)) \<Rightarrow> resolveCapability w node (isWildcard node) reqIn reqOut p
           | Inr None \<Rightarrow>
               if isWildcard node \<and> \<not> isWildcard model
               then (p, Inr \<lparr>PeerID = [], Model = model, Rewrote = hasAt\<rparr>)
               else if isWildcard node then
                 (case firstLoadedAnywhere w (peerOrder p) p of
                    (p, None) \<Rightarrow> (p, Inl NothingLoaded)
                  | (p, Some (ID, picked)) \<Rightarrow> (p, Inr \<lparr>PeerID = ID, Model = picked, Rewrote = True\<rparr>))
               else resolve_node w model node hasAt p))"


subsection \<open>What the scans find\<close>

lemma firstLoadedAnywhere_eq:
  "snd (firstLoadedAnywhere w IDs p) =
     map_option (\<lambda>ID. (ID, hd (order (snap w p ID)))) (find (\<lambda>ID. order (snap w p ID) \<noteq> []) IDs)"
proof (induction IDs arbitrary: p)
  case (Cons ID IDs)
  show ?case
    using Cons.IH [of "fst (peer_load w ID p)"]
    by (simp add: split_beta snap_def [symmetric] snap_stable split: list.split)
qed simp

definition first_capable :: "peerLoadedSet \<Rightarrow> string list \<Rightarrow> string list \<Rightarrow> string option" where
  "first_capable s reqIn reqOut =
     (case find (capable s reqIn reqOut) (order s) of
        Some m \<Rightarrow> Some m | None \<Rightarrow> find (capable s reqIn reqOut) (sort (map fst (modalities s))))"

lemma firstModelMatchingCaps_eq:
  "firstModelMatchingCaps w ID reqIn reqOut p = (fst (peer_load w ID p), first_capable (snap w p ID) reqIn reqOut)"
  by (simp add: firstModelMatchingCaps_def first_capable_def split_beta snap_def)

lemma capability_scan_eq:
  "snd (capability_scan w reqIn reqOut IDs p) =
     map_option (\<lambda>ID. (ID, the (first_capable (snap w p ID) reqIn reqOut)))
       (find (\<lambda>ID. first_capable (snap w p ID) reqIn reqOut \<noteq> None) IDs)"
proof (induction IDs arbitrary: p)
  case (Cons ID IDs)
  show ?case
    using Cons.IH [of "fst (peer_load w ID p)"]
    by (simp add: firstModelMatchingCaps_eq snap_stable split: option.split)
qed simp

lemma first_capable_Some: "first_capable s i o' = Some m \<Longrightarrow> capable s i o' m"
  by (auto simp: first_capable_def find_Some_iff split: option.splits)

lemma capable_key: "capable s i o' m \<Longrightarrow> m \<in> set (map fst (modalities s))"
  by (force simp: capable_def split: option.splits dest!: map_of_SomeD)

lemma first_capable_None:
  assumes "first_capable s i o' = None" shows "\<not> capable s i o' m"
proof
  assume m: "capable s i o' m"
  have "find (capable s i o') (sort (map fst (modalities s))) = None"
    using assms by (simp add: first_capable_def split: option.splits)
  then show False using m capable_key [OF m] by (auto simp: find_None_iff)
qed

text \<open>A model a peer can be asked for: declared, advertised, loaded, or known by its modalities.\<close>

definition servable :: "poll \<Rightarrow> PeerProxy \<Rightarrow> string \<Rightarrow> string \<Rightarrow> bool" where
  "servable w p ID m \<longleftrightarrow> m \<in> set (peer_Models (peer_of p ID)) \<or> m \<in> served_names (snap w p ID)
     \<or> m \<in> all_loaded (snap w p ID) \<or> m \<in> set (order (snap w p ID)) \<or> m \<in> fst ` set (modalities (snap w p ID))"

lemma capable_servable: "capable (snap w p ID) i o' m \<Longrightarrow> servable w p ID m"
  using capable_key [of "snap w p ID" i o' m] by (simp add: servable_def)

lemma find_SomeD: "find P xs = Some x \<Longrightarrow> x \<in> set xs \<and> P x"
  by (auto simp: find_Some_iff)

lemma splitAddress_no_at: "CHR ''@'' \<notin> set raw \<Longrightarrow> splitAddress raw = Inr (TrimSpace raw, [], False)"
proof -
  assume "CHR ''@'' \<notin> set raw"
  then have "filter (\<lambda>c. c = CHR ''@'') (TrimSpace raw) = []"
    using set_TrimSpace by (auto simp: filter_empty_conv)
  then show ?thesis by (simp add: splitAddress_def Let_def)
qed

text \<open>What a resolution promises, for an address split into a model and a node part.\<close>

definition resolved_ok :: "poll \<Rightarrow> PeerProxy \<Rightarrow> string \<Rightarrow> string \<Rightarrow> AddressResolution \<Rightarrow> bool" where
  "resolved_ok w p model node r \<longleftrightarrow>
     (if PeerID r = [] then isWildcard node \<and> \<not> isWildcard model \<and> Model r = model
      else PeerID r \<in> set (peerOrder p) \<and> servable w p (PeerID r) (Model r) \<and> (isWildcard node \<or> PeerID r = node)
         \<and> (case parseCapability model of
              Inr (Some (i, o')) \<Rightarrow> capable (snap w p (PeerID r)) i o' (Model r)
            | _ \<Rightarrow> isWildcard model \<or> Model r = model))"

definition refused_ok :: "poll \<Rightarrow> PeerProxy \<Rightarrow> string \<Rightarrow> string \<Rightarrow> addrError \<Rightarrow> bool" where
  "refused_ok w p model node e \<longleftrightarrow>
     (case e of
        TooManyAt raw \<Rightarrow> False
      | BadCapability raw \<Rightarrow> parseCapability model = Inl e
      | UnknownNode n \<Rightarrow> n = node \<and> node \<notin> set (peerOrder p)
      | NotServed n m \<Rightarrow> n = node \<and> m = model
          \<and> m \<notin> set (peer_Models (peer_of p n)) \<union> served_names (snap w p n) \<union> all_loaded (snap w p n)
      | NothingLoaded \<Rightarrow> isWildcard model \<and> list_all (\<lambda>ID. order (snap w p ID) = []) (peerOrder p)
      | NodeEmpty n \<Rightarrow> n = node \<and> isWildcard model
          \<and> hd (order (snap w p n) @ peer_Models (peer_of p n) @ [[]]) = []
      | NoCapability \<Rightarrow> (case parseCapability model of
            Inr (Some (i, o')) \<Rightarrow> list_all (\<lambda>ID. \<forall>m. \<not> capable (snap w p ID) i o' m) (peerOrder p) | _ \<Rightarrow> False)
      | NodeNoCapability n \<Rightarrow> n = node \<and> (case parseCapability model of
            Inr (Some (i, o')) \<Rightarrow> \<forall>m. \<not> capable (snap w p n) i o' m | _ \<Rightarrow> False))"

lemma peer_of_Some: "map_of (peers p) ID = Some peer \<Longrightarrow> peer_of p ID = peer"
  by (simp add: peer_of_def)

lemma resolve_capability_ok:
  assumes "peerOrder p = sort (map fst (peers p))" "[] \<notin> set (peerOrder p)"
    and "parseCapability model = Inr (Some (i, o'))"
  shows "case snd (resolveCapability w node (isWildcard node) i o' p) of
      Inr r \<Rightarrow> resolved_ok w p model node r | Inl e \<Rightarrow> refused_ok w p model node e"
proof (cases "isWildcard node")
  case True
  obtain q res where sc: "capability_scan w i o' (peerOrder p) p = (q, res)" by fastforce
  then have res: "res = map_option (\<lambda>ID. (ID, the (first_capable (snap w p ID) i o')))
       (find (\<lambda>ID. first_capable (snap w p ID) i o' \<noteq> None) (peerOrder p))"
    using capability_scan_eq [of w i o' "peerOrder p" p] by simp
  show ?thesis
  proof (cases res)
    case None
    then have "\<forall>ID \<in> set (peerOrder p). first_capable (snap w p ID) i o' = None"
      using res by (simp add: find_None_iff)
    then show ?thesis
      using True assms(3) first_capable_None by (auto simp: resolveCapability_def sc None refused_ok_def list_all_iff)
  next
    case (Some x)
    then obtain ID m where x: "res = Some (ID, m)" by (cases x) auto
    then have "ID \<in> set (peerOrder p)" "first_capable (snap w p ID) i o' = Some m"
      using res by (auto dest: find_SomeD)
    moreover from this have "capable (snap w p ID) i o' m" "ID \<noteq> []"
      using first_capable_Some assms(2) by auto
    ultimately show ?thesis
      using True assms(3) capable_servable by (auto simp: resolveCapability_def sc x resolved_ok_def)
  qed
next
  case False
  show ?thesis
  proof (cases "map_of (peers p) node")
    case None
    then have "node \<notin> set (peerOrder p)" using assms(1) by (simp add: map_of_eq_None_iff)
    with None False show ?thesis by (simp add: resolveCapability_def refused_ok_def)
  next
    case (Some peer)
    then have "node \<in> set (peerOrder p)" using assms(1) by (force dest: map_of_SomeD)
    moreover have "node \<noteq> []" using False by (auto simp: isWildcard_def)
    ultimately show ?thesis
      using False Some assms(3) first_capable_Some [of "snap w p node" i o'] first_capable_None [of "snap w p node" i o']
        capable_servable [of w p node i o']
      by (auto simp: resolveCapability_def firstModelMatchingCaps_eq resolved_ok_def refused_ok_def split: option.splits)
  qed
qed

lemma resolve_node_ok:
  assumes "peerOrder p = sort (map fst (peers p))" "parseCapability model = Inr None" "\<not> isWildcard node"
  shows "case snd (resolve_node w model node hasAt p) of
      Inr r \<Rightarrow> resolved_ok w p model node r | Inl e \<Rightarrow> refused_ok w p model node e"
proof (cases "map_of (peers p) node")
  case None
  then have "node \<notin> set (peerOrder p)" using assms(1) by (simp add: map_of_eq_None_iff)
  with None show ?thesis by (simp add: resolve_node_def refused_ok_def)
next
  case (Some peer)
  have n: "node \<in> set (peerOrder p)" "node \<noteq> []" "peer_of p node = peer"
    using assms(1,3) Some by (force dest: map_of_SomeD simp: isWildcard_def peer_of_def)+
  show ?thesis
  proof (cases "isWildcard model")
    case True
    then show ?thesis
      using Some n assms(2)
      by (auto simp: resolve_node_def pickModelForPeer_def split_beta snap_def [symmetric] resolved_ok_def
          refused_ok_def servable_def split: list.split)
  next
    case False
    then show ?thesis
      using Some n assms(2)
      by (auto simp: resolve_node_def peerServesModel_def split_beta snap_def [symmetric] resolved_ok_def
          refused_ok_def servable_def)
  qed
qed


lemma splitAddress_cases:
  "(\<exists>raw'. splitAddress raw = Inl (TooManyAt raw')) \<or> (\<exists>model node hasAt. splitAddress raw = Inr (model, node, hasAt))"
  by (auto simp: splitAddress_def Let_def split: nat.split option.split)

lemma parse_error: "parseCapability model = Inl e \<Longrightarrow> e = BadCapability model"
  by (auto simp: parseCapability_def Let_def split: if_splits option.splits)


definition gem_peer :: PeerConfig where
  "gem_peer = peerDefaults\<lparr>peer_Proxy := ''http://gem'', peer_Models := [''m'']\<rparr>"


end
