(* ===== verification/Usage_Meter.thy ===== *)
theory Usage_Meter
  imports Go_Strings "HOL-Library.Product_Lexorder" "HOL-Library.Multiset"
begin

section \<open>Per-client token usage (proxy/usage_meter.go)\<close>

text \<open>
  The rollups per client (and model), per country and per source address, the view of them behind
  \<open>/usage\<close>, and their file. Every method holds the mutex, so a run is a list of operations. The counters
  are int64 and wrap. The rollups are maps the code iterates over. Writing the file happens outside
  the mutex, so a flush is the two steps \<open>flush_take\<close> and \<open>flush_write\<close>; the JSON codec and whether each
  file operation succeeds are arguments. A decoded rollup has its \<open>by_model\<close> map, as the encoder writes it.
\<close>

subsection \<open>The rollups\<close>

record modelUsage =
  mu_Requests :: int
  mu_InputTokens :: int
  mu_OutputTokens :: int

record clientUsage =
  cu_Requests :: int
  cu_InputTokens :: int
  cu_OutputTokens :: int
  ByModel :: "(string \<times> modelUsage) list"
  cu_FirstSeen :: int
  cu_LastSeen :: int

record ipUsage =
  iu_Requests :: int
  iu_InputTokens :: int
  iu_OutputTokens :: int
  iu_Client :: string
  iu_Country :: string
  iu_FirstSeen :: int
  iu_LastSeen :: int

text \<open>The on-disk shape; a key missing from the file decodes to \<open>None\<close>.\<close>

record usagePersist =
  up_Clients :: "(string \<times> clientUsage) list option"
  up_Countries :: "(string \<times> modelUsage) list option"
  up_IPs :: "(string \<times> ipUsage) list option"

record UsageMeter =
  um_path :: string
  um_clients :: "(string \<times> clientUsage) list"
  um_countries :: "(string \<times> modelUsage) list"
  um_ips :: "(string \<times> ipUsage) list"
  dirty :: bool

text \<open>The arguments of \<open>Record\<close> once the defaults are filled in, with the time of the call.\<close>

record usageCall =
  uc_client :: string
  uc_model :: string
  uc_country :: string
  uc_ip :: string
  uc_in :: int
  uc_out :: int
  uc_now :: int

definition usage_call :: "string \<Rightarrow> string \<Rightarrow> string \<Rightarrow> string \<Rightarrow> int \<Rightarrow> int \<Rightarrow> int \<Rightarrow> usageCall" where
  "usage_call client model country ip inTok outTok now =
     \<lparr>uc_client = (if client = [] then ''unknown'' else client),
      uc_model = (if model = [] then ''unknown'' else model),
      uc_country = (if country = [] then ''local'' else country),
      uc_ip = (if ip = [] then ''unknown'' else ip),
      uc_in = (if inTok < 0 then 0 else inTok), uc_out = (if outTok < 0 then 0 else outTok), uc_now = now\<rparr>"

definition zeroUsage :: modelUsage where
  "zeroUsage = \<lparr>mu_Requests = 0, mu_InputTokens = 0, mu_OutputTokens = 0\<rparr>"

definition bump_model :: "usageCall \<Rightarrow> modelUsage \<Rightarrow> modelUsage" where
  "bump_model c u =
     \<lparr>mu_Requests = wrap64 (mu_Requests u + 1), mu_InputTokens = wrap64 (mu_InputTokens u + uc_in c),
      mu_OutputTokens = wrap64 (mu_OutputTokens u + uc_out c)\<rparr>"

definition bump_ip :: "usageCall \<Rightarrow> ipUsage \<Rightarrow> ipUsage" where
  "bump_ip c u =
     u\<lparr>iu_Requests := wrap64 (iu_Requests u + 1), iu_InputTokens := wrap64 (iu_InputTokens u + uc_in c),
       iu_OutputTokens := wrap64 (iu_OutputTokens u + uc_out c), iu_Client := uc_client c,
       iu_Country := uc_country c, iu_LastSeen := uc_now c\<rparr>"

text \<open>The entry of a key, created when missing, then changed.\<close>

definition touch :: "('c \<Rightarrow> 'v) \<Rightarrow> ('c \<Rightarrow> 'v \<Rightarrow> 'v) \<Rightarrow> string \<Rightarrow> 'c \<Rightarrow> (string \<times> 'v) list \<Rightarrow> (string \<times> 'v) list" where
  "touch fresh bump k c m =
     AList.update k (bump c (case map_of m k of None \<Rightarrow> fresh c | Some u \<Rightarrow> u)) m"

definition bump_client :: "usageCall \<Rightarrow> clientUsage \<Rightarrow> clientUsage" where
  "bump_client c u =
     u\<lparr>cu_Requests := wrap64 (cu_Requests u + 1), cu_InputTokens := wrap64 (cu_InputTokens u + uc_in c),
       cu_OutputTokens := wrap64 (cu_OutputTokens u + uc_out c), cu_LastSeen := uc_now c,
       ByModel := touch (\<lambda>_. zeroUsage) bump_model (uc_model c) c (ByModel u)\<rparr>"

definition fresh_ip :: "usageCall \<Rightarrow> ipUsage" where
  "fresh_ip c = \<lparr>iu_Requests = 0, iu_InputTokens = 0, iu_OutputTokens = 0, iu_Client = [], iu_Country = [],
     iu_FirstSeen = uc_now c, iu_LastSeen = 0\<rparr>"

definition fresh_client :: "usageCall \<Rightarrow> clientUsage" where
  "fresh_client c = \<lparr>cu_Requests = 0, cu_InputTokens = 0, cu_OutputTokens = 0, ByModel = [],
     cu_FirstSeen = uc_now c, cu_LastSeen = 0\<rparr>"

definition um_Record :: "usageCall \<Rightarrow> UsageMeter \<Rightarrow> UsageMeter" where
  "um_Record c m =
     m\<lparr>um_countries := touch (\<lambda>_. zeroUsage) bump_model (uc_country c) c (um_countries m),
       um_ips := touch fresh_ip bump_ip (uc_ip c) c (um_ips m),
       um_clients := touch fresh_client bump_client (uc_client c) c (um_clients m), dirty := True\<rparr>"

subsection \<open>The view\<close>

record usageTotals =
  tot_requests :: int
  tot_input_tokens :: int
  tot_output_tokens :: int
  total_tokens :: int

record usageSnapshot =
  us_order :: "string list"
  us_clients :: "(string \<times> clientUsage) list"
  by_country :: "(string \<times> modelUsage) list"
  by_ip :: "(string \<times> ipUsage) list"
  totals :: usageTotals

definition add64 :: "('v \<Rightarrow> int) \<Rightarrow> (string \<times> 'v) list \<Rightarrow> int" where
  "add64 f m = foldl (\<lambda>n (_, u). wrap64 (n + f u)) 0 m"

text \<open>The place of a client in the order: the busiest first, then by name.\<close>

definition busy_key :: "(string \<times> clientUsage) list \<Rightarrow> string \<Rightarrow> int \<times> string" where
  "busy_key m c = (case map_of m c of
      None \<Rightarrow> (0, c) | Some u \<Rightarrow> (- wrap64 (cu_InputTokens u + cu_OutputTokens u), c))"

definition um_Snapshot :: "UsageMeter \<Rightarrow> usageSnapshot" where
  "um_Snapshot m =
     (let totReq = add64 cu_Requests (um_clients m); totIn = add64 cu_InputTokens (um_clients m);
          totOut = add64 cu_OutputTokens (um_clients m)
      in \<lparr>us_order = sort_key (busy_key (um_clients m)) (map fst (um_clients m)),
          us_clients = um_clients m, by_country = um_countries m, by_ip = um_ips m,
          totals = \<lparr>tot_requests = totReq, tot_input_tokens = totIn, tot_output_tokens = totOut,
            total_tokens = wrap64 (totIn + totOut)\<rparr>\<rparr>)"

subsection \<open>The file\<close>

record usageFiles =
  uf_main :: "string option"
  uf_tmp :: "string option"

text \<open>Under the mutex: what is to be written, if anything; \<open>None\<close> from the encoder is its error.\<close>

definition flush_take :: "(usagePersist \<Rightarrow> string option) \<Rightarrow> UsageMeter \<Rightarrow> UsageMeter \<times> string option" where
  "flush_take encode m =
     (if \<not> dirty m \<or> um_path m = [] then (m, None)
      else case encode \<lparr>up_Clients = Some (um_clients m), up_Countries = Some (um_countries m), up_IPs = Some (um_ips m)\<rparr> of
        None \<Rightarrow> (m, None)
      | Some b \<Rightarrow> (m\<lparr>dirty := False\<rparr>, Some b))"

text \<open>Outside it: \<open>written\<close> is how much of the text a failed write leaves, \<open>renames\<close> whether the rename succeeds.\<close>

definition flush_write :: "nat option \<Rightarrow> bool \<Rightarrow> string \<Rightarrow> usageFiles \<Rightarrow> usageFiles" where
  "flush_write written renames b f =
     (case written of
        Some n \<Rightarrow> f\<lparr>uf_tmp := Some (take n b)\<rparr>
      | None \<Rightarrow> if renames then \<lparr>uf_main = Some b, uf_tmp = None\<rparr> else f\<lparr>uf_tmp := Some b\<rparr>)"

definition um_clear :: "UsageMeter \<Rightarrow> UsageMeter" where
  "um_clear m = m\<lparr>um_clients := [], um_countries := [], um_ips := [], dirty := True\<rparr>"

definition um_load :: "(string \<Rightarrow> usagePersist option) \<Rightarrow> usageFiles \<Rightarrow> UsageMeter \<Rightarrow> UsageMeter" where
  "um_load decode f m =
     (if um_path m = [] then m
      else case uf_main f of
        None \<Rightarrow> m
      | Some b \<Rightarrow>
          (case decode b of
             None \<Rightarrow> m
           | Some s \<Rightarrow>
               (let m = (case up_Clients s of None \<Rightarrow> m | Some x \<Rightarrow> m\<lparr>um_clients := x\<rparr>);
                    m = (case up_Countries s of None \<Rightarrow> m | Some x \<Rightarrow> m\<lparr>um_countries := x\<rparr>);
                    m = (case up_IPs s of None \<Rightarrow> m | Some x \<Rightarrow> m\<lparr>um_ips := x\<rparr>)
                in m)))"

definition NewUsageMeter :: "(string \<Rightarrow> usagePersist option) \<Rightarrow> usageFiles \<Rightarrow> string \<Rightarrow> UsageMeter" where
  "NewUsageMeter decode f path =
     um_load decode f \<lparr>um_path = path, um_clients = [], um_countries = [], um_ips = [], dirty = False\<rparr>"

text \<open>\<open>usageReaderAllowed\<close>: the caller's label against the configured readers, by default the admin.\<close>

definition usageReaderAllowed :: "string list \<Rightarrow> string \<Rightarrow> bool" where
  "usageReaderAllowed readers caller =
     list_ex (\<lambda>r. caller = r) (if length readers = 0 then [''admin''] else readers)"


subsection \<open>Sums that wrap\<close>

lemma wrap64_eq_iff: "wrap64 a = wrap64 b \<longleftrightarrow> a mod 18446744073709551616 = b mod 18446744073709551616"
proof -
  have "wrap64 a = wrap64 b \<longleftrightarrow> (a + 9223372036854775808) mod 18446744073709551616 = (b + 9223372036854775808) mod 18446744073709551616"
    by (simp add: wrap64_def)
  then show ?thesis by (simp add: mod_add_cong mod_eq_dvd_iff)
qed

lemma wrap64_mod: "wrap64 a mod 18446744073709551616 = a mod 18446744073709551616"
  by (simp add: wrap64_def mod_diff_left_eq)

lemma wrap64_add_left: "wrap64 (wrap64 a + b) = wrap64 (a + b)"
  using mod_add_left_eq [of "wrap64 a" 18446744073709551616 b] mod_add_left_eq [of a 18446744073709551616 b]
  by (simp add: wrap64_eq_iff wrap64_mod)

lemma wrap64_add_right: "wrap64 (a + wrap64 b) = wrap64 (a + b)"
  using wrap64_add_left [of b a] by (simp add: add.commute)

lemma wrap64_sum_list: "wrap64 (sum_list (map (\<lambda>x. wrap64 (f x)) xs)) = wrap64 (sum_list (map f xs))"
proof (induction xs)
  case (Cons x xs)
  have "wrap64 (f x + sum_list (map (\<lambda>x. wrap64 (f x)) xs)) = wrap64 (f x + sum_list (map f xs))"
    using Cons wrap64_add_right [of "f x" "sum_list (map (\<lambda>x. wrap64 (f x)) xs)"]
      wrap64_add_right [of "f x" "sum_list (map f xs)"] by simp
  then show ?case by (simp add: wrap64_add_left)
qed simp

lemma add64_sum: "add64 f m = wrap64 (sum_list (map (f \<circ> snd) m))"
proof -
  have "foldl (\<lambda>n (_, u). wrap64 (n + f u)) (wrap64 a) m = wrap64 (a + sum_list (map (f \<circ> snd) m))" for a
  proof (induction m arbitrary: a)
    case (Cons x m)
    then show ?case by (cases x) (simp add: wrap64_add_left add.assoc)
  qed simp
  from this [of 0] show ?thesis by (simp add: add64_def in_i64_def)
qed

text \<open>The sum of a field over a rollup, after one entry is touched.\<close>

lemma sum_update:
  "distinct (map fst m) \<Longrightarrow> sum_list (map (f \<circ> snd) (AList.update k v m))
     = sum_list (map (f \<circ> snd) m) + f v - (case map_of m k of None \<Rightarrow> 0 | Some u \<Rightarrow> f u)"
  for f :: "'v \<Rightarrow> int"
  by (induction m) (auto split: option.split simp: map_of_eq_None_iff)

subsection \<open>A rollup\<close>

definition tally :: "(usageCall \<Rightarrow> bool) \<Rightarrow> usageCall list \<Rightarrow> modelUsage option" where
  "tally P calls =
     (let xs = filter P calls in
      if xs = [] then None
      else Some \<lparr>mu_Requests = wrap64 (int (length xs)), mu_InputTokens = wrap64 (sum_list (map uc_in xs)),
                 mu_OutputTokens = wrap64 (sum_list (map uc_out xs))\<rparr>)"

lemma tally_Nil [simp]: "tally P [] = None"
  by (simp add: tally_def)

lemma tally_snoc:
  "tally P (calls @ [c]) =
     (if P c then Some (bump_model c (case tally P calls of None \<Rightarrow> zeroUsage | Some u \<Rightarrow> u)) else tally P calls)"
  by (auto simp: tally_def Let_def bump_model_def zeroUsage_def wrap64_add_left wrap64_add_right add.commute)

text \<open>
  What the three rollups share: the entry of a key shows the calls with that key, and the entries
  add up to all calls.
\<close>

locale rollup =
  fixes fresh :: "usageCall \<Rightarrow> 'v" and bump :: "usageCall \<Rightarrow> 'v \<Rightarrow> 'v" and usage :: "'v \<Rightarrow> modelUsage"
  assumes usage_fresh: "usage (fresh c) = zeroUsage"
    and usage_bump: "usage (bump c u) = bump_model c (usage u)"
begin

definition tallied :: "(usageCall \<Rightarrow> bool) \<Rightarrow> (usageCall \<Rightarrow> string) \<Rightarrow> usageCall list \<Rightarrow> (string \<times> 'v) list \<Rightarrow> bool" where
  "tallied P key calls m \<longleftrightarrow> distinct (map fst m)
     \<and> (\<forall>k. map_option usage (map_of m k) = tally (\<lambda>c. P c \<and> key c = k) calls)"

lemma tallied_Nil: "tallied P key [] []"
  by (simp add: tallied_def)

lemma tallied_touch:
  assumes "tallied P key calls m" "P c"
  shows "tallied P key (calls @ [c]) (touch fresh bump (key c) c m)"
proof -
  have "map_option usage (map_of (touch fresh bump (key c) c m) k) = tally (\<lambda>x. P x \<and> key x = k) (calls @ [c])" for k
  proof -
    have k: "map_option usage (map_of m k) = tally (\<lambda>x. P x \<and> key x = k) calls"
      using assms(1) by (simp add: tallied_def)
    then show ?thesis
      using assms(2)
      by (cases "map_of m k") (auto simp: touch_def tally_snoc usage_bump usage_fresh k [symmetric])
  qed
  then show ?thesis using assms(1) by (simp add: tallied_def touch_def distinct_update)
qed

lemma tallied_skip: "tallied P key calls m \<Longrightarrow> \<not> P c \<Longrightarrow> tallied P key (calls @ [c]) m"
  by (simp add: tallied_def tally_snoc)

lemma touch_sum:
  assumes "distinct (map fst m)" "\<And>u. f (usage u) = g u" "\<And>u. f (bump_model c u) = wrap64 (f u + d)" "f zeroUsage = 0"
  shows "wrap64 (sum_list (map (g \<circ> snd) (touch fresh bump k c m))) = wrap64 (sum_list (map (g \<circ> snd) m) + d)"
proof -
  define u where "u = (case map_of m k of None \<Rightarrow> fresh c | Some u \<Rightarrow> u)"
  have g: "g (bump c u) = wrap64 (g u + d)" using assms(2,3) usage_bump by metis
  have old: "(case map_of m k of None \<Rightarrow> 0 | Some u \<Rightarrow> g u) = g u"
    using assms(2,4) usage_fresh by (auto simp: u_def split: option.split) metis
  have "wrap64 (sum_list (map (g \<circ> snd) (touch fresh bump k c m)))
      = wrap64 (sum_list (map (g \<circ> snd) m) - g u + wrap64 (g u + d))"
    by (simp add: touch_def sum_update [OF assms(1)] u_def [symmetric] old g algebra_simps)
  then show ?thesis
    using wrap64_add_right [of "sum_list (map (g \<circ> snd) m) - g u" "g u + d"] by simp
qed

end

definition client_total :: "clientUsage \<Rightarrow> modelUsage" where
  "client_total u = \<lparr>mu_Requests = cu_Requests u, mu_InputTokens = cu_InputTokens u, mu_OutputTokens = cu_OutputTokens u\<rparr>"

definition ip_total :: "ipUsage \<Rightarrow> modelUsage" where
  "ip_total u = \<lparr>mu_Requests = iu_Requests u, mu_InputTokens = iu_InputTokens u, mu_OutputTokens = iu_OutputTokens u\<rparr>"

interpretation by_name: rollup "\<lambda>_. zeroUsage" bump_model "\<lambda>u. u"
  by unfold_locales simp_all

interpretation by_ip: rollup fresh_ip bump_ip ip_total
  by unfold_locales (simp_all add: fresh_ip_def bump_ip_def ip_total_def zeroUsage_def bump_model_def)

interpretation by_client: rollup fresh_client bump_client client_total
  by unfold_locales (simp_all add: fresh_client_def bump_client_def client_total_def zeroUsage_def bump_model_def)

subsection \<open>Runs\<close>

datatype usage_op = DoRecord usageCall | DoReset | DoFlush

text \<open>The meter after an operation, whatever happens to the file.\<close>

fun usage_do :: "(usagePersist \<Rightarrow> string option) \<Rightarrow> usage_op \<Rightarrow> UsageMeter \<Rightarrow> UsageMeter" where
  "usage_do encode (DoRecord c) m = um_Record c m"
| "usage_do encode DoReset m = fst (flush_take encode (um_clear m))"
| "usage_do encode DoFlush m = fst (flush_take encode m)"

text \<open>The calls since the last reset.\<close>

fun since_reset :: "usage_op \<Rightarrow> usageCall list \<Rightarrow> usageCall list" where
  "since_reset (DoRecord c) calls = calls @ [c]"
| "since_reset DoReset calls = []"
| "since_reset DoFlush calls = calls"

definition meter_ok :: "usageCall list \<Rightarrow> UsageMeter \<Rightarrow> bool" where
  "meter_ok calls m \<longleftrightarrow>
     by_name.tallied (\<lambda>_. True) uc_country calls (um_countries m)
   \<and> by_ip.tallied (\<lambda>_. True) uc_ip calls (um_ips m)
   \<and> by_client.tallied (\<lambda>_. True) uc_client calls (um_clients m)
   \<and> (\<forall>(c, u) \<in> set (um_clients m). by_name.tallied (\<lambda>x. uc_client x = c) uc_model calls (ByModel u))
   \<and> wrap64 (sum_list (map (cu_Requests \<circ> snd) (um_clients m))) = wrap64 (int (length calls))
   \<and> wrap64 (sum_list (map (cu_InputTokens \<circ> snd) (um_clients m))) = wrap64 (sum_list (map uc_in calls))
   \<and> wrap64 (sum_list (map (cu_OutputTokens \<circ> snd) (um_clients m))) = wrap64 (sum_list (map uc_out calls))"

lemma meter_ok_flush [simp]: "meter_ok calls (fst (flush_take encode m)) = meter_ok calls m"
  by (auto simp: flush_take_def meter_ok_def split: option.split)

lemma meter_ok_clear: "um_clients m = [] \<Longrightarrow> um_countries m = [] \<Longrightarrow> um_ips m = [] \<Longrightarrow> meter_ok [] m"
  by (simp add: meter_ok_def by_name.tallied_Nil by_ip.tallied_Nil by_client.tallied_Nil)

lemma models_tallied:
  assumes "\<forall>(c, u) \<in> set m. by_name.tallied (\<lambda>x. uc_client x = c) uc_model calls (ByModel u)"
    and "by_client.tallied (\<lambda>_. True) uc_client calls m"
    and "(c, u) \<in> set (touch fresh_client bump_client (uc_client x) x m)"
  shows "by_name.tallied (\<lambda>x. uc_client x = c) uc_model (calls @ [x]) (ByModel u)"
proof (cases "c = uc_client x")
  case False
  then show ?thesis
    using assms by (auto simp: touch_def set_alist_update by_client.tallied_def intro: by_name.tallied_skip)
next
  case True
  define v where "v = (case map_of m c of None \<Rightarrow> fresh_client x | Some u \<Rightarrow> u)"
  have u: "ByModel u = touch (\<lambda>_. zeroUsage) bump_model (uc_model x) x (ByModel v)"
    using assms True by (auto simp: touch_def set_alist_update by_client.tallied_def v_def bump_client_def)
  have "by_name.tallied (\<lambda>x. uc_client x = c) uc_model calls (ByModel v)"
  proof (cases "map_of m c")
    case None
    then have "tally (\<lambda>x. uc_client x = c) calls = None"
      using assms(2) by (simp add: by_client.tallied_def) (metis option.map_disc_iff)
    then have no: "filter (\<lambda>x. uc_client x = c) calls = []" by (simp add: tally_def Let_def split: if_splits)
    then have "filter (\<lambda>x. uc_client x = c \<and> Q x) calls = []" for Q by (auto simp: filter_empty_conv)
    then show ?thesis using None by (simp add: v_def fresh_client_def by_name.tallied_def tally_def)
  next
    case (Some w)
    then have "(c, w) \<in> set m" by (rule map_of_SomeD)
    then show ?thesis using assms(1) Some by (auto simp: v_def)
  qed
  then show ?thesis unfolding u using True by (intro by_name.tallied_touch) simp_all
qed

lemma meter_ok_Record:
  assumes "meter_ok calls m" shows "meter_ok (calls @ [c]) (um_Record c m)"
proof -
  have d: "distinct (map fst (um_clients m))" using assms by (simp add: meter_ok_def by_client.tallied_def)
  note sums = by_client.touch_sum [OF d, where c = c and k = "uc_client c"]
  have "wrap64 (sum_list (map (cu_Requests \<circ> snd) (um_clients (um_Record c m)))) = wrap64 (int (length (calls @ [c])))"
    using sums [of mu_Requests cu_Requests 1] assms
    by (simp add: um_Record_def meter_ok_def client_total_def bump_model_def zeroUsage_def)
      (metis add.commute wrap64_add_left)
  moreover have "wrap64 (sum_list (map (cu_InputTokens \<circ> snd) (um_clients (um_Record c m)))) = wrap64 (sum_list (map uc_in (calls @ [c])))"
    using sums [of mu_InputTokens cu_InputTokens "uc_in c"] assms
    by (simp add: um_Record_def meter_ok_def client_total_def bump_model_def zeroUsage_def) (metis wrap64_add_left)
  moreover have "wrap64 (sum_list (map (cu_OutputTokens \<circ> snd) (um_clients (um_Record c m)))) = wrap64 (sum_list (map uc_out (calls @ [c])))"
    using sums [of mu_OutputTokens cu_OutputTokens "uc_out c"] assms
    by (simp add: um_Record_def meter_ok_def client_total_def bump_model_def zeroUsage_def) (metis wrap64_add_left)
  moreover have "\<forall>(k, u) \<in> set (um_clients (um_Record c m)). by_name.tallied (\<lambda>x. uc_client x = k) uc_model (calls @ [c]) (ByModel u)"
    using assms models_tallied [of "um_clients m" calls] by (auto simp: meter_ok_def um_Record_def)
  ultimately show ?thesis
    using assms by (simp add: meter_ok_def um_Record_def by_name.tallied_touch by_ip.tallied_touch by_client.tallied_touch)
qed

lemma meter_ok_run: "meter_ok calls m \<Longrightarrow> meter_ok (fold since_reset ops calls) (fold (usage_do encode) ops m)"
proof (induction ops arbitrary: calls m)
  case (Cons op' ops)
  have "meter_ok (since_reset op' calls) (usage_do encode op' m)"
    using Cons.prems by (cases op') (auto simp: meter_ok_Record um_clear_def intro!: meter_ok_clear)
  from Cons.IH [OF this] show ?case by simp
qed simp

lemma map_of_mset: "mset xs = mset ys \<Longrightarrow> distinct (map fst ys) \<Longrightarrow> map_of xs = map_of ys"
proof -
  assume eq: "mset xs = mset ys" and d: "distinct (map fst ys)"
  have "mset (map fst xs) = mset (map fst ys)" using eq by simp
  then have "distinct (map fst xs)" using d by (metis mset_eq_imp_distinct_iff)
  then show ?thesis using d mset_eq_setD [OF eq] by (simp add: map_of_inject_set)
qed


definition usage_ann :: usageCall where
  "usage_ann = usage_call ''ann'' ''m'' [] [] 10 5 1"

definition usage_bob :: usageCall where
  "usage_bob = usage_call ''bob'' ''m'' ''DE'' ''1.2.3.4'' 700 (- 3) 2"


subsection \<open>The file across restarts\<close>

text \<open>
  With the encoder's law - a decoded file is the rollup that was encoded - a flush that succeeds and a
  restart give the rollups back; a write that fails leaves the file as it was, but the rollups are no
  longer dirty, so they are not written again before the next change.
\<close>

lemma usage_restart:
  assumes "\<And>p b. encode p = Some b \<Longrightarrow> decode b = Some p" "flush_take encode m = (m', Some b)"
  shows "NewUsageMeter decode (flush_write None True b f) (um_path m) = m\<lparr>dirty := False\<rparr>"
proof -
  have b: "um_path m \<noteq> []"
    "encode \<lparr>up_Clients = Some (um_clients m), up_Countries = Some (um_countries m), up_IPs = Some (um_ips m)\<rparr> = Some b"
    using assms(2) by (auto simp: flush_take_def split: if_splits option.splits)
  show ?thesis using b(1) assms(1) [OF b(2)] by (simp add: NewUsageMeter_def um_load_def flush_write_def Let_def)
qed

lemma flush_failed:
  assumes "flush_take encode m = (m', Some b)"
  shows "uf_main (flush_write (Some n) renames b f) = uf_main f \<and> flush_take encode m' = (m', None)"
  using assms by (auto simp: flush_take_def flush_write_def split: if_splits option.splits)

text \<open>
  Two flushes can overtake each other: when the text taken before a reset is written after the reset's
  own, the file holds the old rollups while the meter is empty and clean, so the reset is undone by a
  restart.
\<close>

lemma reset_overtaken:
  assumes "flush_take encode m = (m1, Some b1)" "flush_take encode (um_clear m1) = (m2, Some b2)"
  shows "uf_main (flush_write None True b1 (flush_write None True b2 f)) = Some b1
     \<and> um_clients m2 = [] \<and> \<not> dirty m2"
  using assms by (auto simp: flush_take_def flush_write_def um_clear_def split: if_splits option.splits)

end
