(* ===== verification/Api_Auth.thy ===== *)
theory Api_Auth
  imports Rate_Limiter Go_Strings
begin

section \<open>Authentication and routing (apiKeyAuth and setupGinEngine in proxy/proxymanager.go, proxy/sanitize_cors.go)\<close>

text \<open>
  A request goes through the CORS preflight, the router and, on a protected route, the API key check,
  which attributes it to a client and applies the rate limit. A request's headers are a map from
  lower-case names. The router of the web framework is the argument \<open>match\<close> (the table entry for a method
  and path), SHA-256 is the argument \<open>sha\<close>. Base64 is the standard library's, with its decoder written out.
\<close>

subsection \<open>Preflight header values (sanitize_cors.go)\<close>

definition isTokenChar :: "char \<Rightarrow> bool" where
  "isTokenChar r =
     (CHR ''a'' \<le> r \<and> r \<le> CHR ''z'' \<or> CHR ''A'' \<le> r \<and> r \<le> CHR ''Z'' \<or> CHR ''0'' \<le> r \<and> r \<le> CHR ''9''
      \<or> r \<in> set (''!#$%&'' @ [CHR 0x27] @ ''*+-.^_'' @ [CHR 0x60] @ ''|~''))"

definition SanitizeAccessControlRequestHeaderValues :: "string \<Rightarrow> string" where
  "SanitizeAccessControlRequestHeaderValues headerValues =
     Join (filter (\<lambda>v. v \<noteq> [] \<and> list_all isTokenChar v) (map TrimSpace (Split headerValues (CHR '',''))))
       [CHR '','', CHR '' '']"

lemma set_Join: "set (Join ws sep) \<subseteq> (\<Union>w \<in> set ws. set w) \<union> set sep"
  by (induction ws sep rule: Join.induct) auto

text \<open>No byte of the request gets into the response header but token bytes, commas and spaces.\<close>

lemma sanitized_chars:
  assumes "c \<in> set (SanitizeAccessControlRequestHeaderValues s)"
  shows "isTokenChar c \<or> c = CHR '','' \<or> c = CHR '' ''"
  using assms set_Join
  by (fastforce simp: SanitizeAccessControlRequestHeaderValues_def list_all_iff)

subsection \<open>Base64 with padding\<close>

definition b64_alphabet :: string where
  "b64_alphabet = ''ABCDEFGHIJKLMNOPQRSTUVWXYZabcdefghijklmnopqrstuvwxyz0123456789+/''"

definition b64_val :: "char \<Rightarrow> nat option" where
  "b64_val c = map_of (zip b64_alphabet [0..<64]) c"

fun b64_groups :: "string \<Rightarrow> string option" where
  "b64_groups (a # b # c # d # rest) =
     (case (b64_val a, b64_val b) of
        (Some x, Some y) \<Rightarrow>
          if c = CHR ''='' then
            (if d = CHR ''='' \<and> rest = [] then Some [char_of (x * 4 + y div 16)] else None)
          else (case b64_val c of
             None \<Rightarrow> None
           | Some z \<Rightarrow>
               if d = CHR ''='' then
                 (if rest = [] then Some [char_of (x * 4 + y div 16), char_of (y mod 16 * 16 + z div 4)] else None)
               else (case (b64_val d, b64_groups rest) of
                  (Some u, Some s) \<Rightarrow>
                    Some (char_of (x * 4 + y div 16) # char_of (y mod 16 * 16 + z div 4) # char_of (z mod 4 * 64 + u) # s)
                | _ \<Rightarrow> None))
      | _ \<Rightarrow> None)"
| "b64_groups [] = Some []"
| "b64_groups s = None"

text \<open>The decoder skips carriage returns and newlines.\<close>

definition b64_decode :: "string \<Rightarrow> string option" where
  "b64_decode s = b64_groups (filter (\<lambda>c. c \<noteq> CHR 0x0A \<and> c \<noteq> CHR 0x0D) s)"

text \<open>The encoder, which the clients use.\<close>

definition b64_char :: "nat \<Rightarrow> char" where
  "b64_char n = b64_alphabet ! (n mod 64)"

fun b64_encode :: "string \<Rightarrow> string" where
  "b64_encode [] = []"
| "b64_encode [a] =
     (let x = of_char a in [b64_char (x div 4), b64_char (x mod 4 * 16), CHR ''='', CHR ''=''])"
| "b64_encode [a, b] =
     (let x = of_char a; y = of_char b in
      [b64_char (x div 4), b64_char (x mod 4 * 16 + y div 16), b64_char (y mod 16 * 4), CHR ''=''])"
| "b64_encode (a # b # c # s) =
     (let x = of_char a; y = of_char b; z = of_char c in
      b64_char (x div 4) # b64_char (x mod 4 * 16 + y div 16) # b64_char (y mod 16 * 4 + z div 64)
        # b64_char (z mod 64) # b64_encode s)"

lemma b64_alphabet_distinct: "distinct b64_alphabet" "length b64_alphabet = 64"
  by code_simp+

lemma b64_val_char [simp]: "b64_val (b64_char n) = Some (n mod 64)"
proof -
  have "n mod 64 < 64" by simp
  then show ?thesis
    using map_of_zip_nth [of b64_alphabet "[0..<64]" "n mod 64"] b64_alphabet_distinct
    by (simp add: b64_val_def b64_char_def)
qed

lemma b64_char_member: "b64_char n \<in> set b64_alphabet"
  using b64_alphabet_distinct(2) by (simp add: b64_char_def)

lemma b64_char_plain [simp]:
  "b64_char n \<noteq> CHR ''=''" "b64_char n \<noteq> CHR 0x0A" "b64_char n \<noteq> CHR 0x0D"
proof -
  have "CHR ''='' \<notin> set b64_alphabet" "CHR 0x0A \<notin> set b64_alphabet" "CHR 0x0D \<notin> set b64_alphabet"
    by code_simp+
  then show "b64_char n \<noteq> CHR ''=''" "b64_char n \<noteq> CHR 0x0A" "b64_char n \<noteq> CHR 0x0D"
    using b64_char_member [of n] by metis+
qed

text \<open>The bits of a byte, cut into the six-bit digits and put together again.\<close>

lemma digit_split: "r < k \<Longrightarrow> (q * k + r) div k = q \<and> (q * k + r) mod k = (r::nat)"
  by simp

lemma b64_first:
  assumes "x < 256" "y < 256"
  shows "x div 4 mod 64 * 4 + (x mod 4 * 16 + y div 16) mod 64 div 16 = (x::nat)"
    and "(x mod 4 * 16 + y div 16) mod 64 mod 16 = y div 16"
proof -
  have q: "y div 16 < 16" "x div 4 < 64" using assms by auto
  moreover have "x mod 4 < 4" by simp
  ultimately have "x mod 4 * 16 + y div 16 < 64" by linarith
  then show "x div 4 mod 64 * 4 + (x mod 4 * 16 + y div 16) mod 64 div 16 = x"
    "(x mod 4 * 16 + y div 16) mod 64 mod 16 = y div 16"
    using digit_split [OF q(1), of "x mod 4"] q by simp_all
qed

lemma b64_second:
  assumes "y < 256" "z < 256"
  shows "y div 16 * 16 + (y mod 16 * 4 + z div 64) mod 64 div 4 = (y::nat)"
    and "(y mod 16 * 4 + z div 64) mod 64 mod 4 = z div 64"
proof -
  have q: "z div 64 < 4" using assms by auto
  moreover have "y mod 16 < 16" by simp
  ultimately have "y mod 16 * 4 + z div 64 < 64" by linarith
  then show "y div 16 * 16 + (y mod 16 * 4 + z div 64) mod 64 div 4 = y"
    "(y mod 16 * 4 + z div 64) mod 64 mod 4 = z div 64"
    using digit_split [OF q, of "y mod 16"] by simp_all
qed

lemma b64_groups_encode: "b64_groups (b64_encode s) = Some s"
proof (induction s rule: b64_encode.induct)
  case (2 a)
  have "of_char a div 4 mod 64 = (of_char a div 4 :: nat)"
    using less_mult_imp_div_less [of "of_char a" 64 4] by simp
  then show ?case by (simp add: Let_def)
next
  case (3 a b)
  show ?case
    using b64_second [of "of_char b" 0] by (simp add: Let_def b64_first)
next
  case (4 a b c s)
  then show ?case
    by (simp add: Let_def b64_first b64_second)
qed simp

lemma b64_roundtrip: "b64_decode (b64_encode s) = Some s"
proof -
  have "filter (\<lambda>c. c \<noteq> CHR 0x0A \<and> c \<noteq> CHR 0x0D) (b64_encode s) = b64_encode s"
    by (induction s rule: b64_encode.induct) (simp_all add: Let_def)
  then show ?thesis by (simp add: b64_decode_def b64_groups_encode)
qed

subsection \<open>The API key check\<close>

type_synonym http_headers = "string \<rightharpoonup> string"

record httpReq =
  rq_method :: string
  rq_path :: string
  rq_headers :: http_headers
  rq_clientIP :: string

text \<open>What the check puts into the request's context.\<close>

record ginCtx =
  gc_client :: string
  gc_fingerprint :: string
  gc_country :: string
  gc_ip :: string

definition GetHeader :: "http_headers \<Rightarrow> string \<Rightarrow> string" where
  "GetHeader h name = (case h name of None \<Rightarrow> [] | Some v \<Rightarrow> v)"

definition hex_encode :: "string \<Rightarrow> string" where
  "hex_encode bytes = concat (map (\<lambda>c. [''0123456789abcdef'' ! (of_char c div 16), ''0123456789abcdef'' ! (of_char c mod 16)]) bytes)"

definition keyFingerprint :: "(string \<Rightarrow> string) \<Rightarrow> string \<Rightarrow> string" where
  "keyFingerprint sha key = take 12 (hex_encode (sha key))"

text \<open>The password of Basic credentials, and the Bearer token; empty when there is none.\<close>

definition basicKey :: "string \<Rightarrow> string" where
  "basicKey auth =
     (if HasPrefix auth ''Bearer '' \<or> \<not> HasPrefix auth ''Basic '' then []
      else case b64_decode (TrimPrefix auth ''Basic '') of
        None \<Rightarrow> []
      | Some decoded \<Rightarrow> (case cut decoded (CHR '':'') of None \<Rightarrow> [] | Some (_, password) \<Rightarrow> password))"

definition bearerKey :: "string \<Rightarrow> string" where
  "bearerKey auth = (if HasPrefix auth ''Bearer '' then TrimPrefix auth ''Bearer '' else [])"

definition providedKey :: "http_headers \<Rightarrow> string" where
  "providedKey h =
     (let auth = GetHeader h ''authorization'' in
      if basicKey auth \<noteq> [] then basicKey auth
      else if bearerKey auth \<noteq> [] then bearerKey auth
      else GetHeader h ''x-api-key'')"

definition corsEchoOrigin :: "http_headers \<Rightarrow> (string \<times> string) list" where
  "corsEchoOrigin h =
     (if GetHeader h ''origin'' \<noteq> [] then [(''Access-Control-Allow-Origin'', GetHeader h ''origin'')] else [])"

text \<open>The label of a key, and the context of a request that carries it.\<close>

definition key_label :: "(string \<Rightarrow> string) \<Rightarrow> (string \<rightharpoonup> string) \<Rightarrow> string \<Rightarrow> string" where
  "key_label sha labels key =
     (let fp = keyFingerprint sha key in
      case labels fp of None \<Rightarrow> fp | Some label \<Rightarrow> if label = [] then fp else label)"

definition auth_ctx :: "(string \<Rightarrow> string) \<Rightarrow> (string \<rightharpoonup> string) \<Rightarrow> httpReq \<Rightarrow> ginCtx" where
  "auth_ctx sha labels req =
     (let key = providedKey (rq_headers req); ip = GetHeader (rq_headers req) ''cf-connecting-ip'' in
      \<lparr>gc_client = key_label sha labels key, gc_fingerprint = keyFingerprint sha key,
       gc_country = GetHeader (rq_headers req) ''cf-ipcountry'', gc_ip = (if ip = [] then rq_clientIP req else ip)\<rparr>)"

definition emptyCtx :: ginCtx where
  "emptyCtx = \<lparr>gc_client = [], gc_fingerprint = [], gc_country = [], gc_ip = []\<rparr>"

text \<open>\<open>Inl\<close>: refused with a status and response headers; \<open>Inr\<close>: let through.\<close>

definition apiKeyAuth :: "(string \<Rightarrow> string) \<Rightarrow> string list \<Rightarrow> (string \<rightharpoonup> string) \<Rightarrow> int \<Rightarrow> rateLimiter \<Rightarrow> httpReq
    \<Rightarrow> rateLimiter \<times> (int \<times> (string \<times> string) list + httpReq \<times> ginCtx)" where
  "apiKeyAuth sha keys labels now rl req =
     (if length keys = 0 then (rl, Inr (req, emptyCtx))
      else
        let h = rq_headers req; key = providedKey h in
        if \<not> list_ex (\<lambda>k. key = k) keys
        then (rl, Inl (401, corsEchoOrigin h @ [(''WWW-Authenticate'', ''Basic realm='' @ [CHR 0x22] @ ''llama-swap'' @ [CHR 0x22])]))
        else
          let ctx = auth_ctx sha labels req;
              (rl, ok) = (if rq_method req = ''POST'' \<and> rl_enabled (Some rl) then allow rl now (gc_client ctx) else (rl, True))
          in if \<not> ok then (rl, Inl (429, corsEchoOrigin h @ [(''Retry-After'', ''60'')]))
             else (rl, Inr (req\<lparr>rq_headers := h(''authorization'' := None, ''x-api-key'' := None)\<rparr>, ctx)))"

subsection \<open>The routes\<close>

datatype handler =
    ProxyInference | PostForm | ListModels | UsageRead | UsageResetAll | DebitsPull | SendLogs | StreamLogs
  | RedirectUI | RedirectModels | ProxyToUpstream | UnloadAll | RouterUnload | ListRunning | Health | WolHealth
  | Favicon | StaticUI | ApiUnloadAll | ApiUnloadSingle | ApiEvents | ApiMetrics | ApiVersion

text \<open>Method, pattern, whether the API key check runs first, handler; \<open>ANY\<close> stands for every method.\<close>

definition routes :: "(string \<times> string \<times> bool \<times> handler) list" where
  "routes =
    [(''POST'', ''/v1/chat/completions'', True, ProxyInference), (''POST'', ''/v1/responses'', True, ProxyInference),
     (''POST'', ''/v1/completions'', True, ProxyInference), (''POST'', ''/v1/messages'', True, ProxyInference),
     (''POST'', ''/v1/messages/count_tokens'', True, ProxyInference), (''POST'', ''/v1/embeddings'', True, ProxyInference),
     (''POST'', ''/reranking'', True, ProxyInference), (''POST'', ''/rerank'', True, ProxyInference),
     (''POST'', ''/v1/rerank'', True, ProxyInference), (''POST'', ''/v1/reranking'', True, ProxyInference),
     (''POST'', ''/infill'', True, ProxyInference), (''POST'', ''/completion'', True, ProxyInference),
     (''POST'', ''/v1/audio/speech'', True, ProxyInference), (''POST'', ''/v1/audio/voices'', True, ProxyInference),
     (''POST'', ''/v1/audio/transcriptions'', True, PostForm), (''POST'', ''/v1/images/generations'', True, ProxyInference),
     (''POST'', ''/v1/images/edits'', True, PostForm), (''GET'', ''/v1/models'', True, ListModels),
     (''GET'', ''/usage'', True, UsageRead), (''POST'', ''/usage/reset'', True, UsageResetAll),
     (''GET'', ''/debits'', True, DebitsPull), (''GET'', ''/logs'', True, SendLogs),
     (''GET'', ''/logs/stream'', True, StreamLogs), (''GET'', ''/logs/stream/*logMonitorID'', True, StreamLogs),
     (''GET'', ''/'', False, RedirectUI), (''GET'', ''/upstream'', False, RedirectModels),
     (''ANY'', ''/upstream/*upstreamPath'', True, ProxyToUpstream), (''GET'', ''/unload'', True, UnloadAll),
     (''POST'', ''/models/unload'', True, RouterUnload), (''GET'', ''/running'', True, ListRunning),
     (''GET'', ''/health'', False, Health), (''GET'', ''/wol-health'', False, WolHealth),
     (''GET'', ''/favicon.ico'', False, Favicon), (''GET'', ''/ui/*filepath'', False, StaticUI),
     (''HEAD'', ''/ui/*filepath'', False, StaticUI)]"

definition apiRoutes :: "(string \<times> string \<times> bool \<times> handler) list" where
  "apiRoutes =
    [(''POST'', ''/api/models/unload'', True, ApiUnloadAll), (''POST'', ''/api/models/unload/*model'', True, ApiUnloadSingle),
     (''GET'', ''/api/events'', True, ApiEvents), (''GET'', ''/api/metrics'', True, ApiMetrics),
     (''GET'', ''/api/version'', True, ApiVersion)]"

text \<open>The preflight answer.\<close>

definition preflight :: "http_headers \<Rightarrow> (string \<times> string) list" where
  "preflight h =
     [(''Access-Control-Allow-Origin'', ''*''),
      (''Access-Control-Allow-Methods'', ''GET, POST, PUT, PATCH, DELETE, OPTIONS''),
      (''Access-Control-Allow-Headers'',
        if GetHeader h ''access-control-request-headers'' \<noteq> []
        then SanitizeAccessControlRequestHeaderValues (GetHeader h ''access-control-request-headers'')
        else ''Content-Type, Authorization, Accept, X-Requested-With''),
      (''Access-Control-Max-Age'', ''86400'')]"

datatype served = Preflight "(string \<times> string) list" | NotFound | IndexPage
  | Refused int "(string \<times> string) list" | Handled handler httpReq ginCtx

definition gin_serve :: "(string \<Rightarrow> string) \<Rightarrow> string list \<Rightarrow> (string \<rightharpoonup> string)
    \<Rightarrow> (string \<Rightarrow> string \<Rightarrow> (string \<times> string \<times> bool \<times> handler) option) \<Rightarrow> int \<times> httpReq \<Rightarrow> rateLimiter
    \<Rightarrow> rateLimiter \<times> served" where
  "gin_serve sha keys labels match call rl =
     (case call of (now, req) \<Rightarrow>
        if rq_method req = ''OPTIONS'' then (rl, Preflight (preflight (rq_headers req)))
        else case match (rq_method req) (rq_path req) of
          None \<Rightarrow> (rl, if HasPrefix (rq_path req) ''/ui'' then IndexPage else NotFound)
        | Some (_, _, auth, h) \<Rightarrow>
            if auth then
              (case apiKeyAuth sha keys labels now rl req of
                 (rl, Inl (code, hs)) \<Rightarrow> (rl, Refused code hs)
               | (rl, Inr (req, ctx)) \<Rightarrow> (rl, Handled h req ctx))
            else (rl, Handled h req emptyCtx))"

fun gin_run :: "(string \<Rightarrow> string) \<Rightarrow> string list \<Rightarrow> (string \<rightharpoonup> string)
    \<Rightarrow> (string \<Rightarrow> string \<Rightarrow> (string \<times> string \<times> bool \<times> handler) option) \<Rightarrow> rateLimiter
    \<Rightarrow> (int \<times> httpReq) list \<Rightarrow> served list" where
  "gin_run sha keys labels match rl [] = []"
| "gin_run sha keys labels match rl (call # calls) =
     (case gin_serve sha keys labels match call rl of (rl, r) \<Rightarrow> r # gin_run sha keys labels match rl calls)"

subsection \<open>What gets through\<close>

definition public :: "handler set" where
  "public = {RedirectUI, RedirectModels, Health, WolHealth, Favicon, StaticUI}"

lemma routes_protected: "(m, p, auth, h) \<in> set (routes @ apiRoutes) \<Longrightarrow> auth \<longleftrightarrow> h \<notin> public"
  by (auto simp: routes_def apiRoutes_def public_def)

text \<open>What one answer says about its request.\<close>

definition answer_ok :: "(string \<Rightarrow> string) \<Rightarrow> string list \<Rightarrow> (string \<rightharpoonup> string)
    \<Rightarrow> (string \<Rightarrow> string \<Rightarrow> (string \<times> string \<times> bool \<times> handler) option) \<Rightarrow> httpReq \<Rightarrow> served \<Rightarrow> bool" where
  "answer_ok sha keys labels match req r \<longleftrightarrow>
     (let h = rq_headers req; key = providedKey h in
      case r of
        Handled hn req' ctx \<Rightarrow>
          hn \<in> public \<and> req' = req \<and> ctx = emptyCtx
          \<or> key \<in> set keys \<and> rq_headers req' = h(''authorization'' := None, ''x-api-key'' := None)
            \<and> rq_method req' = rq_method req \<and> rq_path req' = rq_path req
            \<and> gc_client ctx = key_label sha labels key \<and> gc_fingerprint ctx = keyFingerprint sha key
      | Refused code hs \<Rightarrow>
          (if key \<in> set keys then code = 429 \<and> rq_method req = ''POST'' else code = 401)
          \<and> (GetHeader h ''origin'' \<noteq> [] \<longrightarrow> (''Access-Control-Allow-Origin'', GetHeader h ''origin'') \<in> set hs)
      | Preflight hs \<Rightarrow> rq_method req = ''OPTIONS''
      | _ \<Rightarrow> match (rq_method req) (rq_path req) = None)"

lemma apiKeyAuth_cases:
  assumes "keys \<noteq> []"
  obtains (unauthorized) hs where "providedKey (rq_headers req) \<notin> set keys"
      "apiKeyAuth sha keys labels now rl req = (rl, Inl (401, corsEchoOrigin (rq_headers req) @ hs))"
    | (limited) hs where "providedKey (rq_headers req) \<in> set keys" "rq_method req = ''POST''" "rl_enabled (Some rl)"
      "\<not> snd (allow rl now (key_label sha labels (providedKey (rq_headers req))))"
      "apiKeyAuth sha keys labels now rl req
         = (fst (allow rl now (key_label sha labels (providedKey (rq_headers req)))), Inl (429, corsEchoOrigin (rq_headers req) @ hs))"
    | (passes) rl' where "providedKey (rq_headers req) \<in> set keys"
      "if rq_method req = ''POST'' \<and> rl_enabled (Some rl)
       then allow rl now (key_label sha labels (providedKey (rq_headers req))) = (rl', True) else rl' = rl"
      "apiKeyAuth sha keys labels now rl req
         = (rl', Inr (req\<lparr>rq_headers := (rq_headers req)(''authorization'' := None, ''x-api-key'' := None)\<rparr>, auth_ctx sha labels req))"
proof -
  let ?key = "providedKey (rq_headers req)"
  have label: "gc_client (auth_ctx sha labels req) = key_label sha labels ?key" by (simp add: auth_ctx_def Let_def)
  have k: "list_ex (\<lambda>k. ?key = k) keys \<longleftrightarrow> ?key \<in> set keys" by (auto simp: list_ex_iff)
  show ?thesis
  proof (cases "?key \<in> set keys")
    case False
    then show ?thesis using assms by (intro unauthorized) (simp_all add: apiKeyAuth_def Let_def k)
  next
    case True
    obtain rl' ok where a: "allow rl now (key_label sha labels ?key) = (rl', ok)" by fastforce
    show ?thesis
    proof (cases "rq_method req = ''POST'' \<and> rl_enabled (Some rl)")
      case False
      then show ?thesis using assms True
        by (intro passes [of rl]) (auto simp: apiKeyAuth_def Let_def k label)
    next
      case post: True
      then show ?thesis
        using assms True a by (cases ok) (auto simp: apiKeyAuth_def Let_def k label intro: passes limited)
    qed
  qed
qed

lemma answer_gin_serve:
  assumes "keys \<noteq> []" "\<forall>m p e. match m p = Some e \<longrightarrow> e \<in> set (routes @ apiRoutes)"
  shows "answer_ok sha keys labels match req (snd (gin_serve sha keys labels match (now, req) rl))"
proof (cases "rq_method req = ''OPTIONS''")
  case True
  then show ?thesis by (simp add: gin_serve_def answer_ok_def Let_def)
next
  case opt: False
  show ?thesis
  proof (cases "match (rq_method req) (rq_path req)")
    case None
    then show ?thesis using opt by (simp add: gin_serve_def answer_ok_def Let_def)
  next
    case (Some e)
    obtain m p auth h where e: "e = (m, p, auth, h)" by (cases e) auto
    have r: "auth \<longleftrightarrow> h \<notin> public" using routes_protected assms(2) Some e by blast
    show ?thesis
    proof (cases auth)
      case False
      then show ?thesis using opt Some e r by (simp add: gin_serve_def answer_ok_def Let_def)
    next
      case True
      show ?thesis
        by (rule apiKeyAuth_cases [OF assms(1), of req sha labels now rl])
          (use True opt Some e in \<open>auto simp: gin_serve_def answer_ok_def Let_def corsEchoOrigin_def auth_ctx_def\<close>)
    qed
  qed
qed

lemma gin_run_nth:
  "i < length calls \<Longrightarrow> \<exists>rl'. gin_run sha keys labels match rl calls ! i = snd (gin_serve sha keys labels match (calls ! i) rl')"
proof (induction calls arbitrary: rl i)
  case (Cons call calls)
  then show ?case
    by (cases i) (auto simp: split_beta)
qed simp

text \<open>The requests that reach a protected handler as a POST, and those the limiter is asked about.\<close>

fun posts :: "string \<Rightarrow> int \<Rightarrow> int \<Rightarrow> (int \<times> httpReq) list \<Rightarrow> served list \<Rightarrow> int" where
  "posts client a b ((now, req) # calls) (r # rs) =
     (if rq_method req = ''POST'' \<and> a \<le> now \<and> now < b
         \<and> (case r of Handled h _ ctx \<Rightarrow> h \<notin> public \<and> gc_client ctx = client | _ \<Rightarrow> False) then 1 else 0)
     + posts client a b calls rs"
| "posts client a b _ _ = 0"

definition asks :: "string list \<Rightarrow> (string \<Rightarrow> string \<Rightarrow> (string \<times> string \<times> bool \<times> handler) option) \<Rightarrow> int \<times> httpReq \<Rightarrow> bool" where
  "asks keys match call \<longleftrightarrow> rq_method (snd call) = ''POST'' \<and> providedKey (rq_headers (snd call)) \<in> set keys
     \<and> (case match (rq_method (snd call)) (rq_path (snd call)) of Some (_, _, auth, _) \<Rightarrow> auth | None \<Rightarrow> False)"

definition limiter_calls :: "(string \<Rightarrow> string) \<Rightarrow> string list \<Rightarrow> (string \<rightharpoonup> string)
    \<Rightarrow> (string \<Rightarrow> string \<Rightarrow> (string \<times> string \<times> bool \<times> handler) option) \<Rightarrow> (int \<times> httpReq) list \<Rightarrow> (int \<times> string) list" where
  "limiter_calls sha keys labels match calls =
     map (\<lambda>(now, req). (now, key_label sha labels (providedKey (rq_headers req)))) (filter (asks keys match) calls)"

lemma allow_enabled: "rl_enabled (Some (fst (allow rl now c))) = rl_enabled (Some rl)"
  by (auto simp: allow_def Let_def rl_enabled_def split: option.split)

lemma posts_passed:
  assumes "keys \<noteq> []" "\<forall>m p e. match m p = Some e \<longrightarrow> e \<in> set (routes @ apiRoutes)" "rl_enabled (Some rl)"
  shows "posts client a b calls (gin_run sha keys labels match rl calls)
    = passed client a b (limiter_calls sha keys labels match calls) (allow_run rl (limiter_calls sha keys labels match calls))"
  using assms(3)
proof (induction calls arbitrary: rl)
  case (Cons call calls)
  obtain now req where call: "call = (now, req)" by fastforce
  let ?label = "key_label sha labels (providedKey (rq_headers req))"
  show ?case
  proof (cases "asks keys match call")
    case True
    then obtain m p h where m: "match (rq_method req) (rq_path req) = Some (m, p, True, h)" "rq_method req = ''POST''"
        "providedKey (rq_headers req) \<in> set keys"
      by (auto simp: asks_def call split: option.splits)
    have h: "h \<notin> public" using routes_protected assms(2) m(1) by blast
    obtain rl' ok where a: "allow rl now ?label = (rl', ok)" by fastforce
    have en: "rl_enabled (Some rl')" using allow_enabled [of rl now ?label] Cons.prems a by simp
    have "\<exists>s. gin_serve sha keys labels match call rl = (rl', s)
        \<and> (if ok then s = Handled h (req\<lparr>rq_headers := (rq_headers req)(''authorization'' := None, ''x-api-key'' := None)\<rparr>)
             (auth_ctx sha labels req) else \<exists>code hs. s = Refused code hs)"
      by (rule apiKeyAuth_cases [OF assms(1), of req sha labels now rl])
        (use m a Cons.prems call in \<open>auto simp: gin_serve_def\<close>)
    then obtain s where "gin_serve sha keys labels match call rl = (rl', s)"
      "if ok then s = Handled h (req\<lparr>rq_headers := (rq_headers req)(''authorization'' := None, ''x-api-key'' := None)\<rparr>)
             (auth_ctx sha labels req) else \<exists>code hs. s = Refused code hs" by blast
    then show ?thesis
      using True Cons.IH [OF en] m h a call
      by (cases ok) (auto simp: limiter_calls_def auth_ctx_def Let_def)
  next
    case False
    have "fst (gin_serve sha keys labels match call rl) = rl
       \<and> (rq_method req = ''POST'' \<longrightarrow> (\<forall>h r c. snd (gin_serve sha keys labels match call rl) = Handled h r c \<longrightarrow> h \<in> public))"
    proof (cases "match (rq_method req) (rq_path req)")
      case None
      then show ?thesis by (cases "rq_method req = ''POST''") (auto simp: gin_serve_def call)
    next
      case (Some e)
      obtain m p auth h where e: "e = (m, p, auth, h)" by (cases e) auto
      have r: "auth \<longleftrightarrow> h \<notin> public" using routes_protected assms(2) Some e by blast
      show ?thesis
        by (rule apiKeyAuth_cases [OF assms(1), of req sha labels now rl])
          (use False Some e r call in \<open>auto simp: gin_serve_def asks_def\<close>)
    qed
    then show ?thesis
      using False Cons.IH [OF Cons.prems] call
      by (auto simp: limiter_calls_def split_beta split: served.split)
  qed
qed (simp add: limiter_calls_def)

lemma providedKey_Basic:
  assumes "CHR '':'' \<notin> set user" "key \<noteq> []"
  shows "providedKey [''authorization'' \<mapsto> ''Basic '' @ b64_encode (user @ CHR '':'' # key)] = key"
  using assms
  by (simp add: providedKey_def Let_def basicKey_def GetHeader_def HasPrefix_def TrimPrefix_def b64_roundtrip)

lemma providedKey_Bearer:
  assumes "key \<noteq> []" shows "providedKey [''authorization'' \<mapsto> ''Bearer '' @ key] = key"
  using assms
  by (simp add: providedKey_def Let_def basicKey_def bearerKey_def GetHeader_def HasPrefix_def TrimPrefix_def)

text \<open>
  C18. No protected handler without a key: with API keys configured, and for any requests in time order, a
  request reaches a handler other than the public ones only with a configured key - as Basic password,
  Bearer token or x-api-key - and without its Authorization and x-api-key headers, attributed to the key's
  label and fingerprint; it is refused with 401 for a wrong or missing key and with 429 only as a POST,
  in a way the browser can read; and no label gets more than twice its limit of POSTs through in any minute,
  whichever keys and routes they use. Encoding the key as the clients do gives it back.
\<close>

theorem no_handler_without_key:
  assumes "keys \<noteq> []" "\<forall>m p e. match m p = Some e \<longrightarrow> e \<in> set (routes @ apiRoutes)" "sorted (map fst calls)"
  shows "let rl = newRateLimiter pm ov; rs = gin_run sha keys labels match rl calls in
     length rs = length calls
   \<and> (\<forall>i < length calls. answer_ok sha keys labels match (snd (calls ! i)) (rs ! i))
   \<and> (0 < limitFor rl client \<longrightarrow> posts client a (a + Minute) calls rs \<le> 2 * limitFor rl client)
   \<and> (CHR '':'' \<notin> set user \<and> key \<noteq> [] \<longrightarrow>
        providedKey [''authorization'' \<mapsto> ''Basic '' @ b64_encode (user @ CHR '':'' # key)] = key)
   \<and> (key \<noteq> [] \<longrightarrow> providedKey [''authorization'' \<mapsto> ''Bearer '' @ key] = key)"
proof -
  let ?rl = "newRateLimiter pm ov"
  have len: "length (gin_run sha keys labels match rl calls) = length calls" for rl
    by (induction calls arbitrary: rl) (auto simp: split_beta)
  have ok: "answer_ok sha keys labels match (snd (calls ! i)) (gin_run sha keys labels match ?rl calls ! i)"
    if i: "i < length calls" for i
  proof -
    obtain rl' where "gin_run sha keys labels match ?rl calls ! i = snd (gin_serve sha keys labels match (calls ! i) rl')"
      using gin_run_nth [OF i] by blast
    then show ?thesis
      using answer_gin_serve [OF assms(1,2), of sha labels "snd (calls ! i)" "fst (calls ! i)" rl'] by simp
  qed
  have lim: "posts client a (a + Minute) calls (gin_run sha keys labels match ?rl calls) \<le> 2 * limitFor ?rl client"
    if pos: "0 < limitFor ?rl client"
  proof -
    have "rl_enabled (Some ?rl)"
      using pos by (auto simp: rl_enabled_def limitFor_def newRateLimiter_def split: option.splits)
    moreover have "sorted (map fst (limiter_calls sha keys labels match calls))"
      using sorted_filter [of fst calls "asks keys match"] assms(3)
      by (simp add: limiter_calls_def comp_def split_beta)
    ultimately show ?thesis
      using posts_passed [OF assms(1,2), of ?rl] passed_twice [OF pos, of _ a] by simp
  qed
  show ?thesis
    using len ok lim providedKey_Basic providedKey_Bearer by (simp only: Let_def) blast
qed

definition sample_match :: "string \<Rightarrow> string \<Rightarrow> (string \<times> string \<times> bool \<times> handler) option" where
  "sample_match m p = find (\<lambda>(m', p', _). m' = m \<and> p' = p) (routes @ apiRoutes)"

definition sample_req :: "string \<Rightarrow> string \<Rightarrow> string \<Rightarrow> httpReq" where
  "sample_req m p k = \<lparr>rq_method = m, rq_path = p, rq_headers = [''x-api-key'' \<mapsto> k, ''origin'' \<mapsto> ''https://a''],
     rq_clientIP = ''10.0.0.1''\<rparr>"

theorem no_handler_without_key_witness:
  "let calls = [(0, sample_req ''POST'' ''/infill'' ''sk-1''), (1, sample_req ''GET'' ''/usage'' ''sk-2''),
        (2, sample_req ''POST'' ''/infill'' ''sk-1''), (3, sample_req ''GET'' ''/health'' [])];
      rs = gin_run (\<lambda>k. k) [''sk-1''] Map.empty sample_match (newRateLimiter 1 Map.empty) calls in
     length rs = 4 \<and> answer_ok (\<lambda>k. k) [''sk-1''] Map.empty sample_match (snd (calls ! 1)) (rs ! 1)
   \<and> posts ''736b2d31'' 0 (0 + Minute) calls rs \<le> 2"
proof -
  let ?calls = "[(0::int, sample_req ''POST'' ''/infill'' ''sk-1''), (1, sample_req ''GET'' ''/usage'' ''sk-2''),
        (2, sample_req ''POST'' ''/infill'' ''sk-1''), (3, sample_req ''GET'' ''/health'' [])]"
  have m: "\<forall>m p e. sample_match m p = Some e \<longrightarrow> e \<in> set (routes @ apiRoutes)"
    by (metis sample_match_def find_Some_iff nth_mem)
  have s: "sorted (map fst ?calls)" by simp
  have l: "0 < limitFor (newRateLimiter 1 Map.empty) ''736b2d31''" by (simp add: limitFor_def newRateLimiter_def)
  have k: "[''sk-1''] \<noteq> []" by simp
  note t = no_handler_without_key [OF k m s, where sha = "\<lambda>k. k" and labels = Map.empty and pm = 1 and ov = Map.empty
      and client = "''736b2d31''" and a = 0, unfolded Let_def]
  show ?thesis
    unfolding Let_def
  proof (intro conjI)
    show "length (gin_run (\<lambda>k. k) [''sk-1''] Map.empty sample_match (newRateLimiter 1 Map.empty) ?calls) = 4"
      using t [THEN conjunct1] by simp
    show "answer_ok (\<lambda>k. k) [''sk-1''] Map.empty sample_match (snd (?calls ! 1))
        (gin_run (\<lambda>k. k) [''sk-1''] Map.empty sample_match (newRateLimiter 1 Map.empty) ?calls ! 1)"
      by (rule t [THEN conjunct2, THEN conjunct1, THEN spec, THEN mp]) simp
    show "posts ''736b2d31'' 0 (0 + Minute) ?calls
        (gin_run (\<lambda>k. k) [''sk-1''] Map.empty sample_match (newRateLimiter 1 Map.empty) ?calls) \<le> 2"
      using t [THEN conjunct2, THEN conjunct2, THEN conjunct1, THEN mp, OF l]
      by (simp add: limitFor_def newRateLimiter_def)
  qed
qed

end
