(* ===== verification/Peer_Dispatch.thy ===== *)
theory Peer_Dispatch
  imports Peer_Selection Api_Auth
begin

section \<open>Dispatching to peers (ProxyRequest, ProxyRequestToPeer and admitAndServe in proxy/peerproxy.go)\<close>

text \<open>
  A request for a peer is picked or pinned, which counts it in flight at the peer, admitted through the
  peer's slots, served, and counted out by the deferred decrement. Requests interleave: a request is in a
  phase, and a step of the inductive relation \<open>disp_step\<close> is one atomic action of one request - the
  critical section of the pick, a channel operation, an atomic add. The phases of \<open>acquire\<close> are those of
  \<open>adm_step\<close>, which the dispatch refines.
\<close>

subsection \<open>One request\<close>

text \<open>The peer's API key replaces the credentials of the request.\<close>

definition inject_key :: "string \<Rightarrow> http_headers \<Rightarrow> http_headers" where
  "inject_key apiKey h =
     (if apiKey \<noteq> [] then h(''authorization'' \<mapsto> ''Bearer '' @ apiKey, ''x-api-key'' \<mapsto> apiKey) else h)"

text \<open>
  How a request ends: no peer for it, refused by admission, or proxied to the peer with these headers.
  The peer is also what \<open>setServedBy\<close> records.
\<close>

datatype disp_outcome = NoPeer | Busy string "(string \<times> string) list \<times> int \<times> int" | Proxied string http_headers

datatype dphase =
    DRanked "(string \<times> int) option" "(string \<times> int) list" http_headers
  | DPicked string http_headers
  | DQueued string http_headers
  | DServing string bool http_headers
  | DLeaving string disp_outcome
  | DDone disp_outcome

type_synonym disp_state = "PeerProxy \<times> (nat \<rightharpoonup> dphase)"

text \<open>The pick up to its critical section: the biases and the affine peer.\<close>

definition pick_rank :: "(string \<Rightarrow> string) \<Rightarrow> poll \<Rightarrow> string \<Rightarrow> string \<Rightarrow> PeerProxy
    \<Rightarrow> PeerProxy \<times> (string \<times> int) option \<times> (string \<times> int) list" where
  "pick_rank sha w modelID affinityKey p =
     (let candidates = modelPeers p modelID in
      case biases w modelID candidates p of (p, bs) \<Rightarrow>
        let ranked = zip candidates bs in
        if \<not> aff_enabled (affinity p) then (p, None, ranked)
        else (case affinePeer sha affinityKey candidates of
                Some a \<Rightarrow> (p, Some (a, the (map_of ranked a)), ranked)
              | None \<Rightarrow> (p\<lparr>stats := (stats p)\<lparr>noKey := noKey (stats p) + 1\<rparr>\<rparr>, None, ranked)))"

definition peer_key :: "PeerProxy \<Rightarrow> string \<Rightarrow> string" where
  "peer_key p pp = (case memberByPeer p pp of Some k \<Rightarrow> k | None \<Rightarrow> [])"

text \<open>The beginning of \<open>admitAndServe\<close>, up to serving, refusing or waiting for a slot.\<close>

definition busy :: "PeerProxy \<Rightarrow> string \<Rightarrow> http_headers \<Rightarrow> disp_outcome" where
  "busy p pp h = Busy pp (writeTooManyRequests (GetHeader h ''origin'') (queueTimeout (admission p)))"

definition admitAndServe :: "string \<Rightarrow> http_headers \<Rightarrow> PeerProxy \<Rightarrow> PeerProxy \<times> dphase" where
  "admitAndServe pp h p =
     (if \<not> pa_enabled (Some (admission p)) then (p, DServing pp False h)
      else case acquire_try (admission p) pp of
        (pa, PassThrough) \<Rightarrow> (p\<lparr>admission := pa\<rparr>, DServing pp False h)
      | (pa, GotSlot) \<Rightarrow> (p\<lparr>admission := pa\<rparr>, DServing pp True h)
      | (pa, Reject) \<Rightarrow> (p\<lparr>admission := pa\<rparr>, DLeaving pp (busy p pp h))
      | (pa, MustWait) \<Rightarrow> (p\<lparr>admission := pa\<rparr>, DQueued pp h))"

subsection \<open>All requests together\<close>

inductive disp_step :: "(string \<Rightarrow> string) \<Rightarrow> disp_state \<Rightarrow> disp_state \<Rightarrow> bool" for sha where
  pick_none: "rs r = None \<Longrightarrow> modelPeers p m = [] \<Longrightarrow> disp_step sha (p, rs) (p, rs(r \<mapsto> DDone NoPeer))"
| pick_one: "rs r = None \<Longrightarrow> modelPeers p m = [c] \<Longrightarrow>
    disp_step sha (p, rs) (reserve c p, rs(r \<mapsto> DPicked c (inject_key (peer_key p c) h)))"
| pick_many: "rs r = None \<Longrightarrow> modelPeers p m = c # d # cs \<Longrightarrow> pick_rank sha w m key p = (p', aff, ranked) \<Longrightarrow>
    disp_step sha (p, rs) (p', rs(r \<mapsto> DRanked aff ranked h))"
| select: "rs r = Some (DRanked aff ranked h) \<Longrightarrow> select_peer aff ranked p = (p', Some c) \<Longrightarrow>
    disp_step sha (p, rs) (p', rs(r \<mapsto> DPicked c (inject_key (peer_key p c) h)))"
| pin: "rs r = None \<Longrightarrow> memberByPeer p ID = Some k \<Longrightarrow>
    disp_step sha (p, rs) (reserve ID p, rs(r \<mapsto> DPicked ID (inject_key k h)))"
| pin_unknown: "rs r = None \<Longrightarrow> memberByPeer p ID = None \<Longrightarrow> disp_step sha (p, rs) (p, rs(r \<mapsto> DDone NoPeer))"
| admit: "rs r = Some (DPicked c h) \<Longrightarrow> admitAndServe c h p = (p', ph) \<Longrightarrow>
    disp_step sha (p, rs) (p', rs(r \<mapsto> ph))"
| queue_slot: "rs r = Some (DQueued c h) \<Longrightarrow> acquire_send (admission p) c = Some pa \<Longrightarrow>
    disp_step sha (p, rs) (p\<lparr>admission := pa\<rparr>, rs(r \<mapsto> DServing c True h))"
| queue_end: "rs r = Some (DQueued c h) \<Longrightarrow> disp_step sha (p, rs) (p, rs(r \<mapsto> DLeaving c (busy p c h)))"
| serve_slot: "rs r = Some (DServing c True h) \<Longrightarrow>
    disp_step sha (p, rs) (p\<lparr>admission := release_slot (admission p) c\<rparr>, rs(r \<mapsto> DLeaving c (Proxied c h)))"
| serve_pass: "rs r = Some (DServing c False h) \<Longrightarrow> disp_step sha (p, rs) (p, rs(r \<mapsto> DLeaving c (Proxied c h)))"
| leave: "rs r = Some (DLeaving c out) \<Longrightarrow> disp_step sha (p, rs) (release_pick c p, rs(r \<mapsto> DDone out))"

inductive disp_reachable :: "(string \<Rightarrow> string) \<Rightarrow> PeerProxy \<Rightarrow> disp_state \<Rightarrow> bool" for sha p0 where
  disp_start: "disp_reachable sha p0 (p0, Map.empty)"
| disp_more: "disp_reachable sha p0 s \<Longrightarrow> disp_step sha s s' \<Longrightarrow> disp_reachable sha p0 s'"

text \<open>Without another request in between, ranking and selecting are the pick.\<close>

lemma pick_in_two_steps:
  assumes "modelPeers p m = c # d # cs" "pick_rank sha w m key p = (q, aff, ranked)"
  shows "select_peer aff ranked q = pickPeerForModelWithAffinity sha w m key p"
proof -
  obtain q' bs where b: "biases w m (c # d # cs) p = (q', bs)" by fastforce
  let ?ranked = "zip (c # d # cs) bs"
  have pick: "pickPeerForModelWithAffinity sha w m key p =
      (if \<not> aff_enabled (affinity q') then select_peer None ?ranked q'
       else case affinePeer sha key (c # d # cs) of
              Some a \<Rightarrow> select_peer (Some (a, the (map_of ?ranked a))) ?ranked q'
            | None \<Rightarrow> select_peer None ?ranked (q'\<lparr>stats := (stats q')\<lparr>noKey := noKey (stats q') + 1\<rparr>\<rparr>))"
    unfolding pickPeerForModelWithAffinity_def assms(1) by (simp only: list.case b prod.case Let_def)
  have rank: "pick_rank sha w m key p =
      (if \<not> aff_enabled (affinity q') then (q', None, ?ranked)
       else case affinePeer sha key (c # d # cs) of
              Some a \<Rightarrow> (q', Some (a, the (map_of ?ranked a)), ?ranked)
            | None \<Rightarrow> (q'\<lparr>stats := (stats q')\<lparr>noKey := noKey (stats q') + 1\<rparr>\<rparr>, None, ?ranked))"
    unfolding pick_rank_def assms(1) by (simp only: Let_def b prod.case)
  show ?thesis
  proof (cases "affinePeer sha key (c # d # cs)")
    case None
    then show ?thesis
      using assms(2) unfolding pick rank None option.case
      by (cases "aff_enabled (affinity q')") (simp_all only: if_True if_False not_True_eq_False not_False_eq_True prod.inject)
  next
    case (Some a)
    then show ?thesis
      using assms(2) unfolding pick rank Some option.case
      by (cases "aff_enabled (affinity q')")
        (clarsimp simp only: if_True if_False not_True_eq_False not_False_eq_True prod.inject)+
  qed
qed

subsection \<open>In-flight counts\<close>

fun disp_peer :: "dphase \<Rightarrow> string option" where
  "disp_peer (DPicked c h) = Some c"
| "disp_peer (DQueued c h) = Some c"
| "disp_peer (DServing c s h) = Some c"
| "disp_peer (DLeaving c out) = Some c"
| "disp_peer ph = None"

definition in_hand :: "(nat \<rightharpoonup> dphase) \<Rightarrow> string \<Rightarrow> nat set" where
  "in_hand rs q = {r. \<exists>ph. rs r = Some ph \<and> disp_peer ph = Some q}"

lemma in_hand_upd:
  "in_hand (rs(r \<mapsto> ph)) q = (if disp_peer ph = Some q then insert r (in_hand rs q) else in_hand rs q - {r})"
  by (auto simp: in_hand_def)

lemma in_hand_same: "rs r = Some ph' \<Longrightarrow> disp_peer ph = disp_peer ph' \<Longrightarrow> in_hand (rs(r \<mapsto> ph)) q = in_hand rs q"
  by (auto simp: in_hand_def)

definition counted_ok :: "disp_state \<Rightarrow> bool" where
  "counted_ok s \<longleftrightarrow> (\<forall>q. finite (in_hand (snd s) q) \<and> inFlight (fst s) q = int (card (in_hand (snd s) q)))"

lemma counted_enter:
  assumes "counted_ok (p, rs)" "rs r = None \<or> (\<exists>ph. rs r = Some ph \<and> disp_peer ph = None)"
    "inFlight p' = (inFlight p)(c := inFlight p c + 1)" "disp_peer ph' = Some c"
  shows "counted_ok (p', rs(r \<mapsto> ph'))"
proof -
  have "r \<notin> in_hand rs q" for q using assms(2) by (auto simp: in_hand_def)
  then show ?thesis using assms(1,3,4) by (auto simp: counted_ok_def in_hand_upd)
qed

lemma counted_stay:
  assumes "counted_ok (p, rs)" "inFlight p' = inFlight p"
    "rs r = Some ph \<and> disp_peer ph' = disp_peer ph \<or> rs r = None \<and> disp_peer ph' = None"
  shows "counted_ok (p', rs(r \<mapsto> ph'))"
proof -
  have "in_hand (rs(r \<mapsto> ph')) q = in_hand rs q" for q
    using assms(3) in_hand_same [of rs r ph ph'] by (auto simp: in_hand_def)
  then show ?thesis using assms(1,2) by (simp add: counted_ok_def)
qed

lemma counted_leave:
  assumes "counted_ok (p, rs)" "rs r = Some (DLeaving c out)"
  shows "counted_ok (release_pick c p, rs(r \<mapsto> DDone out))"
proof -
  have r: "r \<in> in_hand rs c" "\<And>q. q \<noteq> c \<Longrightarrow> in_hand rs q - {r} = in_hand rs q"
    using assms(2) by (auto simp: in_hand_def)
  have f: "finite (in_hand rs c)" "inFlight p c = int (card (in_hand rs c))" using assms(1) by (auto simp: counted_ok_def)
  have "card (in_hand rs c) = Suc (card (in_hand rs c - {r}))"
    using r(1) f(1) by (metis card_Suc_Diff1)
  then have "inFlight p c - 1 = int (card (in_hand rs c - {r}))" using f(2) by linarith
  then have "finite (in_hand (rs(r \<mapsto> DDone out)) q)
      \<and> inFlight (release_pick c p) q = int (card (in_hand (rs(r \<mapsto> DDone out)) q))" for q
    using assms(1) f(1) r(2) [of q] by (cases "q = c") (simp_all add: counted_ok_def in_hand_upd release_pick_def)
  then show ?thesis by (simp add: counted_ok_def)
qed

lemma select_frame:
  assumes "select_peer aff ranked p = (p', Some c)"
  shows "inFlight p' = (inFlight p)(c := inFlight p c + 1)" "admission p' = admission p" "peer_key p' = peer_key p"
  using assms by (auto simp: select_peer_def Let_def reserve_def peer_key_def fun_eq_iff split: option.splits prod.splits if_splits)

lemma pick_rank_frame:
  assumes "pick_rank sha w m key p = (p', aff, ranked)"
  shows "inFlight p' = inFlight p" "admission p' = admission p" "peer_key p' = peer_key p"
proof -
  have "same_state p (fst (biases w m (modelPeers p m) p))" using biases_eq by blast
  note same_stateD(3,5,7) [OF this]
  then show "inFlight p' = inFlight p" "admission p' = admission p" "peer_key p' = peer_key p"
    using assms by (auto simp: pick_rank_def peer_key_def fun_eq_iff split_beta Let_def split: if_splits option.splits)
qed

lemma admit_frame:
  assumes "admitAndServe c h p = (p', ph)"
  shows "inFlight p' = inFlight p" "disp_peer ph = Some c" "peer_key p' = peer_key p"
  using assms by (auto simp: admitAndServe_def peer_key_def fun_eq_iff split: if_splits prod.splits acquired.splits)

lemma counted_step:
  assumes "counted_ok s" "disp_step sha s s'" shows "counted_ok s'"
  using assms(2,1)
proof (cases rule: disp_step.cases)
  case (pick_one rs r p m c h)
  then show ?thesis using assms(1) by (auto simp: reserve_def intro!: counted_enter)
next
  case (select rs r aff ranked h p p' c)
  then show ?thesis using assms(1) select_frame(1) [OF select(4)] by (auto intro!: counted_enter)
next
  case (pin rs r p ID k h)
  then show ?thesis using assms(1) by (auto simp: reserve_def intro!: counted_enter)
next
  case (pick_many rs r p m c d cs w key p' aff ranked h)
  then show ?thesis using assms(1) pick_rank_frame(1) [OF pick_many(5)] by (auto intro!: counted_stay)
next
  case (admit rs r c h p p' ph)
  then show ?thesis using assms(1) admit_frame [OF admit(4)] by (auto intro!: counted_stay)
next
  case (leave rs r c out p)
  then show ?thesis using assms(1) by (auto intro!: counted_leave)
qed (use assms(1) in \<open>auto intro!: counted_stay\<close>)

subsection \<open>Dispatch refines admission\<close>

fun outcome_phase :: "disp_outcome \<Rightarrow> phase option" where
  "outcome_phase NoPeer = None"
| "outcome_phase (Busy c b) = Some Rejected"
| "outcome_phase (Proxied c h) = Some Finished"

fun adm_phase :: "dphase \<Rightarrow> phase option" where
  "adm_phase (DRanked aff ranked h) = None"
| "adm_phase (DPicked c h) = None"
| "adm_phase (DQueued c h) = Some (Waiting c)"
| "adm_phase (DServing c slot h) = Some (if slot then Holding c else Passed)"
| "adm_phase (DLeaving c out) = outcome_phase out"
| "adm_phase (DDone out) = outcome_phase out"

definition adm_of :: "disp_state \<Rightarrow> adm_state" where
  "adm_of s = (admission (fst s), \<lambda>r. Option.bind (snd s r) adm_phase)"

lemma adm_of_upd:
  "adm_of (p, rs(r \<mapsto> ph)) = (admission p, (snd (adm_of (p, rs)))(r := adm_phase ph))"
  by (auto simp: adm_of_def)

lemma adm_of_at: "snd (adm_of (p, rs)) r = Option.bind (rs r) adm_phase"
  by (simp add: adm_of_def)

lemma adm_same:
  assumes "admission p' = admission p" "Option.bind (rs r) adm_phase = adm_phase ph"
  shows "adm_of (p', rs(r \<mapsto> ph)) = adm_of (p, rs)"
  using assms by (auto simp: adm_of_def)

lemma disp_refines_adm:
  assumes "disp_step sha s s'"
  shows "adm_of s' = adm_of s \<or> adm_step (adm_of s) (adm_of s')"
  using assms
proof (cases rule: disp_step.cases)
  case (admit rs r c h p p' ph)
  let ?rs = "snd (adm_of (p, rs))"
  have r: "?rs r = None" using admit(3) by (simp add: adm_of_def)
  obtain pa a where a: "acquire_try (admission p) c = (pa, a)" by fastforce
  have "admission p' = pa \<and> adm_phase ph = (case a of PassThrough \<Rightarrow> Some Passed | GotSlot \<Rightarrow> Some (Holding c)
      | Reject \<Rightarrow> Some Rejected | MustWait \<Rightarrow> Some (Waiting c))"
    using admit(4) a
    by (auto simp: admitAndServe_def busy_def acquire_try_def split: if_splits acquired.splits option.splits)
  then have "adm_of s' = (pa, ?rs(r \<mapsto> (case a of PassThrough \<Rightarrow> Passed | GotSlot \<Rightarrow> Holding c
      | Reject \<Rightarrow> Rejected | MustWait \<Rightarrow> Waiting c)))"
    by (cases a) (simp_all add: admit(2) adm_of_def fun_eq_iff)
  moreover have "adm_of s = (admission p, ?rs)" by (simp add: admit(1) adm_of_def)
  ultimately show ?thesis
    using r a by (cases a) (auto intro: adm_step.intros)
next
  case (queue_slot rs r c h p pa)
  have "adm_step (admission p, snd (adm_of (p, rs))) (pa, (snd (adm_of (p, rs)))(r \<mapsto> Holding c))"
    by (rule adm_step.wait_slot [OF _ queue_slot(4)]) (simp add: adm_of_def queue_slot(3))
  then show ?thesis by (simp add: queue_slot(1,2) adm_of_upd) (simp add: adm_of_def)
next
  case (queue_end rs r c h p)
  have "adm_step (admission p, snd (adm_of (p, rs))) (admission p, (snd (adm_of (p, rs)))(r \<mapsto> Rejected))"
    by (rule adm_step.wait_timeout [of _ _ c]) (simp add: adm_of_def queue_end(3))
  then show ?thesis by (simp add: queue_end(1,2) adm_of_upd busy_def) (simp add: adm_of_def)
next
  case (serve_slot rs r c h p)
  have "adm_step (admission p, snd (adm_of (p, rs))) (release_slot (admission p) c, (snd (adm_of (p, rs)))(r \<mapsto> Finished))"
    by (rule adm_step.release) (simp add: adm_of_def serve_slot(3))
  then show ?thesis by (simp add: serve_slot(1,2) adm_of_upd) (simp add: adm_of_def)
next
  case (serve_pass rs r c h p)
  have "adm_step (admission p, snd (adm_of (p, rs))) (admission p, (snd (adm_of (p, rs)))(r \<mapsto> Finished))"
    by (rule adm_step.pass_done) (simp add: adm_of_def serve_pass(3))
  then show ?thesis by (simp add: serve_pass(1,2) adm_of_upd) (simp add: adm_of_def)
next
  case (pick_many rs r p m c d cs w key p' aff ranked h)
  then show ?thesis using adm_same [of p' p rs r] pick_rank_frame(2) by simp
next
  case (select rs r aff ranked h p p' c)
  then show ?thesis using adm_same [of p' p rs r] select_frame(2) by simp
next
  case (pick_one rs r p m c h)
  then show ?thesis using adm_same [of "reserve c p" p rs r] by (simp add: reserve_def)
next
  case (pin rs r p ID k h)
  then show ?thesis using adm_same [of "reserve ID p" p rs r] by (simp add: reserve_def)
next
  case (leave rs r c out p)
  then show ?thesis using adm_same [of "release_pick c p" p rs r] by (simp add: release_pick_def)
next
  case (pick_none rs r p m)
  then show ?thesis using adm_same [of p p rs r] by simp
next
  case (pin_unknown rs r p ID)
  then show ?thesis using adm_same [of p p rs r] by simp
qed

lemma disp_reachable_adm: "disp_reachable sha p0 s \<Longrightarrow> reachable (admission p0) (adm_of s)"
proof (induction rule: disp_reachable.induct)
  case disp_start
  have "adm_of (p0, Map.empty) = (admission p0, Map.empty)" by (simp add: adm_of_def)
  then show ?case by (simp add: reachable.start)
next
  case (disp_more s s')
  then show ?case using disp_refines_adm [of sha s s'] reachable.step [of _ "adm_of s" "adm_of s'"] by auto
qed

subsection \<open>Credentials and slots\<close>

text \<open>The headers a peer is sent carry its own key, when it has one.\<close>

definition keyed :: "PeerProxy \<Rightarrow> string \<Rightarrow> http_headers \<Rightarrow> bool" where
  "keyed p c h \<longleftrightarrow> peer_key p c = [] \<or>
     h ''authorization'' = Some (''Bearer '' @ peer_key p c) \<and> h ''x-api-key'' = Some (peer_key p c)"

fun outcome_keyed :: "PeerProxy \<Rightarrow> disp_outcome \<Rightarrow> bool" where
  "outcome_keyed p (Proxied c h) = keyed p c h"
| "outcome_keyed p out = True"

fun phase_keyed :: "PeerProxy \<Rightarrow> dphase \<Rightarrow> bool" where
  "phase_keyed p (DPicked c h) = keyed p c h"
| "phase_keyed p (DQueued c h) = keyed p c h"
| "phase_keyed p (DServing c s h) = keyed p c h"
| "phase_keyed p (DLeaving c out) = outcome_keyed p out"
| "phase_keyed p (DDone out) = outcome_keyed p out"
| "phase_keyed p (DRanked aff ranked h) = True"

lemma keyed_inject: "keyed p c (inject_key (peer_key p c) h)"
  by (simp add: keyed_def inject_key_def)

definition keys_ok :: "PeerProxy \<Rightarrow> disp_state \<Rightarrow> bool" where
  "keys_ok p0 s \<longleftrightarrow> peer_key (fst s) = peer_key p0 \<and> (\<forall>r ph. snd s r = Some ph \<longrightarrow> phase_keyed p0 ph)"

lemma phase_keyed_cong: "peer_key p = peer_key q \<Longrightarrow> phase_keyed p ph = phase_keyed q ph"
proof -
  assume eq: "peer_key p = peer_key q"
  have "outcome_keyed p out = outcome_keyed q out" for out using eq by (cases out) (simp_all add: keyed_def)
  then show ?thesis using eq by (cases ph) (simp_all add: keyed_def)
qed

lemma keys_ok_upd:
  "keys_ok p0 (p, rs) \<Longrightarrow> peer_key p' = peer_key p \<Longrightarrow> phase_keyed p ph \<Longrightarrow> keys_ok p0 (p', rs(r \<mapsto> ph))"
  using phase_keyed_cong [of p p0] by (auto simp: keys_ok_def)

lemma keys_okD: "keys_ok p0 (p, rs) \<Longrightarrow> rs r = Some ph \<Longrightarrow> phase_keyed p ph"
  using phase_keyed_cong [of p p0] by (auto simp: keys_ok_def)

lemma admit_keyed: "admitAndServe c h p = (p', ph) \<Longrightarrow> keyed p c h \<Longrightarrow> phase_keyed p ph"
  by (auto simp: admitAndServe_def busy_def split: if_splits prod.splits acquired.splits)

lemma peer_key_simps [simp]:
  "peer_key (reserve c p) = peer_key p" "peer_key (release_pick c p) = peer_key p"
  "peer_key (p\<lparr>admission := pa\<rparr>) = peer_key p"
  by (simp_all add: peer_key_def reserve_def release_pick_def fun_eq_iff)

lemma keys_step:
  assumes "keys_ok p0 s" "disp_step sha s s'" shows "keys_ok p0 s'"
  using assms(2,1)
proof (cases rule: disp_step.cases)
  case (pick_many rs r p m c d cs w key p' aff ranked h)
  then show ?thesis using assms(1) pick_rank_frame(3) by (auto intro!: keys_ok_upd)
next
  case (select rs r aff ranked h p p' c)
  then show ?thesis using assms(1) select_frame(3) keyed_inject by (auto intro!: keys_ok_upd)
next
  case (pin rs r p ID k h)
  then have "k = peer_key p ID" by (simp add: peer_key_def)
  then show ?thesis using pin assms(1) keyed_inject by (auto intro!: keys_ok_upd)
next
  case (admit rs r c h p p' ph)
  then show ?thesis
    using assms(1) keys_okD [of p0 p rs r "DPicked c h"] admit_frame(3) admit_keyed by (auto intro!: keys_ok_upd)
next
  case (queue_slot rs r c h p pa)
  then show ?thesis using assms(1) keys_okD [of p0 p rs r "DQueued c h"] by (auto intro!: keys_ok_upd)
next
  case (serve_slot rs r c h p)
  then show ?thesis using assms(1) keys_okD [of p0 p rs r "DServing c True h"] by (auto intro!: keys_ok_upd)
next
  case (serve_pass rs r c h p)
  then show ?thesis using assms(1) keys_okD [of p0 p rs r "DServing c False h"] by (auto intro!: keys_ok_upd)
next
  case (leave rs r c out p)
  then show ?thesis using assms(1) keys_okD [of p0 p rs r "DLeaving c out"] by (auto intro!: keys_ok_upd)
qed (use assms(1) keyed_inject in \<open>auto simp: busy_def intro!: keys_ok_upd\<close>)

lemma disp_reachable_ok:
  assumes "disp_reachable sha p0 s" "inFlight p0 = (\<lambda>_. 0)"
  shows "counted_ok s \<and> keys_ok p0 s"
  using assms
proof (induction rule: disp_reachable.induct)
  case disp_start
  then show ?case by (simp add: counted_ok_def in_hand_def keys_ok_def)
qed (auto intro: counted_step keys_step)

lemma adm_step_dom: "adm_step s s' \<Longrightarrow> dom (slots (fst s')) = dom (slots (fst s))"
  by (induction rule: adm_step.induct)
    (auto simp: acquire_try_def acquire_send_def release_slot_def split: if_splits option.splits)

lemma reachable_dom: "reachable pa0 s \<Longrightarrow> dom (slots (fst s)) = dom (slots pa0)"
  by (induction rule: reachable.induct) (simp_all only: adm_step_dom fst_conv)

text \<open>
  C40. Dispatch is accounted for: in every state any interleaving of picks, pins, admissions, waits, refusals
  and completions can reach, each peer's in-flight count is the number of requests dispatched to it and not
  yet counted out; its slots are held by exactly the requests being served through one, which are never more
  than the in-flight count nor than the configured maximum; so when affinity passes over a saturated peer,
  another candidate really has a free slot; when every request is done all counts are zero again; and
  whatever is sent to a peer that has an API key carries that key as its credentials.
\<close>

theorem dispatch_accounting:
  assumes "disp_reachable sha (setAdmission m qt (setAffinity cfg (NewPeerProxy ps))) (p, rs)"
  shows "(\<forall>c. inFlight p c = int (card {r. \<exists>ph. rs r = Some ph \<and> disp_peer ph = Some c}))
   \<and> (\<forall>c ch. slots (admission p) c = Some ch \<longrightarrow>
        tokens ch = card {r. \<exists>h. rs r = Some (DServing c True h)} \<and> int (tokens ch) \<le> inFlight p c \<and> int (tokens ch) \<le> m)
   \<and> (\<forall>a cs. set cs \<subseteq> fst ` set ps \<and> admissionSaturated p a cs \<longrightarrow>
        (\<exists>b \<in> set cs. b \<noteq> a \<and> (\<exists>ch. slots (admission p) b = Some ch \<and> tokens ch < capacity ch)))
   \<and> ((\<forall>r ph. rs r = Some ph \<longrightarrow> (\<exists>out. ph = DDone out)) \<longrightarrow> inFlight p = (\<lambda>_. 0))
   \<and> (\<forall>r c slot h. rs r = Some (DServing c slot h) \<and> the (memberByPeer (NewPeerProxy ps) c) \<noteq> [] \<and> c \<in> fst ` set ps \<longrightarrow>
        h ''authorization'' = Some (''Bearer '' @ the (memberByPeer (NewPeerProxy ps) c)))"
proof -
  let ?p0 = "setAdmission m qt (setAffinity cfg (NewPeerProxy ps))"
  have pa0: "admission ?p0 = newPeerAdmission m qt (sort (map fst ps))"
    by (simp add: setAdmission_def setAffinity_def NewPeerProxy_def Let_def)
  have key0: "peer_key ?p0 c = the (memberByPeer (NewPeerProxy ps) c)" if "c \<in> fst ` set ps" for c
    using that by (simp add: setAdmission_def setAffinity_def NewPeerProxy_def Let_def peer_key_def)
  have "inFlight ?p0 = (\<lambda>_. 0)" by (simp add: setAdmission_def setAffinity_def NewPeerProxy_def Let_def)
  from disp_reachable_ok [OF assms this] have cnt: "counted_ok (p, rs)" and keys: "keys_ok ?p0 (p, rs)" by auto
  have adm: "reachable (newPeerAdmission m qt (sort (map fst ps))) (admission p, \<lambda>r. Option.bind (rs r) adm_phase)"
    using disp_reachable_adm [OF assms] unfolding pa0 by (simp add: adm_of_def)
  have ok: "adm_ok (admission p, \<lambda>r. Option.bind (rs r) adm_phase)" and m: "maxInflight (admission p) = m"
    using reachable_ok [OF adm] by auto
  have infl: "inFlight p c = int (card (in_hand rs c))" "finite (in_hand rs c)" for c
    using cnt by (auto simp: counted_ok_def)
  have hold: "holders (\<lambda>r. Option.bind (rs r) adm_phase) c = {r. \<exists>h. rs r = Some (DServing c True h)}" for c
  proof -
    have "Option.bind (rs r) adm_phase = Some (Holding c) \<longleftrightarrow> (\<exists>h. rs r = Some (DServing c True h))" for r
    proof (cases "rs r")
      case (Some ph)
      have "outcome_phase out \<noteq> Some (Holding c)" for out by (cases out) simp_all
      then show ?thesis using Some by (cases ph) (auto split: if_splits)
    qed simp
    then show ?thesis by (simp add: holders_def)
  qed
  have slot: "tokens ch = card {r. \<exists>h. rs r = Some (DServing c True h)} \<and> int (tokens ch) \<le> inFlight p c
      \<and> int (tokens ch) \<le> m \<and> int (capacity ch) = m" if "slots (admission p) c = Some ch" for c ch
  proof -
    have b: "slots_chan.balanced ch (card (holders (\<lambda>r. Option.bind (rs r) adm_phase) c))" "capacity ch = nat m" "0 < m"
      using adm_okD [OF ok, of c] that m by (auto simp: peer_ok_def)
    have "card {r. \<exists>h. rs r = Some (DServing c True h)} \<le> card (in_hand rs c)"
      by (rule card_mono [OF infl(2)]) (auto simp: in_hand_def)
    then show ?thesis using b infl(1) [of c] by (simp add: slots_chan.balanced_def hold le_nat_iff)
  qed
  have sat: "\<exists>b \<in> set cs. b \<noteq> a \<and> (\<exists>ch. slots (admission p) b = Some ch \<and> tokens ch < capacity ch)"
    if cs: "set cs \<subseteq> fst ` set ps" and s: "admissionSaturated p a cs" for a cs
  proof -
    have pos: "0 < m" using s m by (auto simp: admissionSaturated_def pa_enabled_def split: if_splits)
    obtain b where b: "b \<in> set cs" "b \<noteq> a" "inFlight p b < m"
      using s m by (auto simp: admissionSaturated_def list_ex_iff split: if_splits)
    have "b \<in> dom (slots (admission p))"
      using reachable_dom [OF adm] b(1) cs pos by (auto simp: newPeerAdmission_def split: if_splits)
    then obtain ch where "slots (admission p) b = Some ch" by blast
    with slot [OF this] b show ?thesis by force
  qed
  have done': "inFlight p = (\<lambda>_. 0)" if "\<forall>r ph. rs r = Some ph \<longrightarrow> (\<exists>out. ph = DDone out)"
  proof
    fix c
    have "in_hand rs c = {}" using that by (fastforce simp: in_hand_def)
    then show "inFlight p c = 0" using infl(1) by simp
  qed
  have cred: "h ''authorization'' = Some (''Bearer '' @ the (memberByPeer (NewPeerProxy ps) c))"
    if "rs r = Some (DServing c slot h)" "the (memberByPeer (NewPeerProxy ps) c) \<noteq> []" "c \<in> fst ` set ps" for r c slot h
    using keys that key0 [OF that(3)] by (force simp: keys_ok_def keyed_def)
  show ?thesis
    using infl(1) slot sat done' cred unfolding in_hand_def by blast
qed

text \<open>A peer with one slot: one request served, a second one pinned to the peer and waiting.\<close>

definition sample_peers :: "(string \<times> PeerConfig) list" where
  "sample_peers = [(''gem'', peerDefaults\<lparr>peer_Proxy := ''http://gem'', peer_Models := [''m''], peer_ApiKey := ''k''\<rparr>)]"

definition sample_affinity :: PeerAffinityConfig where
  "sample_affinity = \<lparr>aff_Enabled = False, aff_Bonus = 0, aff_SessionHeaders = [], aff_MinBodyBytes = 0, aff_KeyCompletions = False\<rparr>"

theorem dispatch_accounting_witness:
  "\<exists>p rs. disp_reachable (\<lambda>s. s) (setAdmission 1 5 (setAffinity sample_affinity (NewPeerProxy sample_peers))) (p, rs)
     \<and> rs 1 = Some (DServing ''gem'' True [''authorization'' \<mapsto> ''Bearer k'', ''x-api-key'' \<mapsto> ''k'']) \<and> rs 2 \<noteq> None
     \<and> inFlight p ''gem'' = int (card {r. \<exists>ph. rs r = Some ph \<and> disp_peer ph = Some ''gem''})"
proof -
  let ?p0 = "setAdmission 1 5 (setAffinity sample_affinity (NewPeerProxy sample_peers))"
  let ?h = "inject_key (peer_key ?p0 ''gem'') Map.empty"
  have h: "?h = [''authorization'' \<mapsto> ''Bearer k'', ''x-api-key'' \<mapsto> ''k'']"
    by (simp add: inject_key_def peer_key_def setAdmission_def setAffinity_def NewPeerProxy_def sample_peers_def Let_def)
  have one: "modelPeers ?p0 ''m'' = [''gem'']"
    by (simp add: setAdmission_def setAffinity_def NewPeerProxy_def sample_peers_def register_model_def Let_def)
  let ?s1 = "(reserve ''gem'' ?p0, [1 \<mapsto> DPicked ''gem'' ?h])"
  have "disp_reachable (\<lambda>s. s) ?p0 ?s1"
    by (rule disp_more [OF disp_start disp_step.pick_one [OF _ one]]) simp
  moreover obtain p' where p': "admitAndServe ''gem'' ?h (reserve ''gem'' ?p0) = (p', DServing ''gem'' True ?h)"
    by (simp add: admitAndServe_def acquire_try_def reserve_def setAdmission_def setAffinity_def NewPeerProxy_def
        newPeerAdmission_def sample_peers_def pa_enabled_def chan_send_def Let_def)
  ultimately have "disp_reachable (\<lambda>s. s) ?p0 (p', [1 \<mapsto> DPicked ''gem'' ?h, 1 \<mapsto> DServing ''gem'' True ?h])"
    by (intro disp_more [OF _ disp_step.admit [OF _ p']]) simp_all
  moreover have "memberByPeer p' ''gem'' = Some ''k''"
    using p' by (auto simp: admitAndServe_def reserve_def setAdmission_def setAffinity_def NewPeerProxy_def
        newPeerAdmission_def sample_peers_def Let_def split: if_splits prod.splits acquired.splits)
  ultimately have r: "disp_reachable (\<lambda>s. s) ?p0 (reserve ''gem'' p',
      [1 \<mapsto> DPicked ''gem'' ?h, 1 \<mapsto> DServing ''gem'' True ?h, 2 \<mapsto> DPicked ''gem'' (inject_key ''k'' Map.empty)])"
    by (intro disp_more [OF _ disp_step.pin]) simp_all
  let ?rs = "[1::nat \<mapsto> DPicked ''gem'' ?h, 1 \<mapsto> DServing ''gem'' True ?h, 2 \<mapsto> DPicked ''gem'' (inject_key ''k'' Map.empty)]"
  have "?rs 1 = Some (DServing ''gem'' True ?h)" "?rs 2 \<noteq> None" by simp_all
  with r dispatch_accounting [OF r, THEN conjunct1, THEN spec, of "''gem''"] show ?thesis
    unfolding h by blast
qed

end
