(* ===== verification/Inference_Routing.thy ===== *)
theory Inference_Routing
  imports Process_Groups Peer_Address Peer_Dispatch Credit_Gate
begin

section \<open>Routing an inference request (proxyInferenceHandler in proxy/proxymanager.go)\<close>

text \<open>
  The handler reads the model from the body, resolves its address, picks a local group or a peer, rewrites
  the body, and then meters and dispatches the request. Reading and rewriting JSON is the work of third-party
  packages: a body of type \<open>'b\<close> is used only through the record \<open>jsonLib\<close>, and \<open>json_ok\<close> states what the
  handler relies on, for the keys that are plain (no path syntax). An error response is its status.
\<close>

subsection \<open>Bodies\<close>

record 'b jsonLib =
  jl_get :: "string \<Rightarrow> 'b \<Rightarrow> any option"
  jl_String :: "string \<Rightarrow> 'b \<Rightarrow> string"
  jl_Bool :: "string \<Rightarrow> 'b \<Rightarrow> bool"
  jl_Int :: "string \<Rightarrow> 'b \<Rightarrow> int option"
  jl_Raw :: "string \<Rightarrow> 'b \<Rightarrow> string option"
  jl_Set :: "string \<Rightarrow> any \<Rightarrow> 'b \<Rightarrow> 'b option"
  jl_Delete :: "string \<Rightarrow> 'b \<Rightarrow> 'b option"
  jl_bytes :: "'b \<Rightarrow> string"

text \<open>Setting or deleting a key changes that key alone; a key set to a string reads as that string.\<close>

definition json_ok :: "'b jsonLib \<Rightarrow> (string \<Rightarrow> bool) \<Rightarrow> bool" where
  "json_ok lib plain \<longleftrightarrow>
     (\<forall>k v b b'. plain k \<and> jl_Set lib k v b = Some b' \<longrightarrow>
        jl_get lib k b' = Some v \<and> (\<forall>s. v = VStr s \<longrightarrow> jl_String lib k b' = s)
      \<and> (\<forall>j. plain j \<and> j \<noteq> k \<longrightarrow> jl_get lib j b' = jl_get lib j b \<and> jl_String lib j b' = jl_String lib j b))
   \<and> (\<forall>k b b'. plain k \<and> jl_Delete lib k b = Some b' \<longrightarrow>
        jl_get lib k b' = None
      \<and> (\<forall>j. plain j \<and> j \<noteq> k \<longrightarrow> jl_get lib j b' = jl_get lib j b \<and> jl_String lib j b' = jl_String lib j b))"

fun strip_params :: "'b jsonLib \<Rightarrow> string list \<Rightarrow> 'b \<Rightarrow> 'b option" where
  "strip_params lib [] b = Some b"
| "strip_params lib (param # params) b =
     (case jl_Delete lib param b of None \<Rightarrow> None | Some b \<Rightarrow> strip_params lib params b)"

fun set_params :: "'b jsonLib \<Rightarrow> (string \<rightharpoonup> any) \<Rightarrow> string list \<Rightarrow> 'b \<Rightarrow> 'b option" where
  "set_params lib setParams [] b = Some b"
| "set_params lib setParams (key # ks) b =
     (case jl_Set lib key (case setParams key of Some v \<Rightarrow> v | None \<Rightarrow> VNil) b of
        None \<Rightarrow> None | Some b \<Rightarrow> set_params lib setParams ks b)"

text \<open>The two loops that apply a model's or a peer's filters; \<open>None\<close> is the error response 500.\<close>

definition apply_filters :: "'b jsonLib \<Rightarrow> Filters \<Rightarrow> 'b \<Rightarrow> 'b option" where
  "apply_filters lib f b =
     (case strip_params lib (SanitizedStripParams f) b of
        None \<Rightarrow> None
      | Some b \<Rightarrow> (case SanitizedSetParams f of (setParams, ks) \<Rightarrow> set_params lib setParams ks b))"

subsection \<open>Routing\<close>

text \<open>The manager's state that routing reads and changes.\<close>

record proxyManager =
  pm_config :: Config
  pm_groups :: groups
  pm_peers :: "PeerProxy option"

datatype nextHandler = NextPinned string | NextLocal string | NextPeer

definition model_config :: "Config \<Rightarrow> string \<Rightarrow> ModelConfig" where
  "model_config c modelID = (case map_of (Models c) modelID of Some mc \<Rightarrow> mc | None \<Rightarrow> zeroModel)"

definition route_local :: "'b jsonLib \<Rightarrow> string \<Rightarrow> 'b \<Rightarrow> proxyManager \<Rightarrow> proxyManager \<times> (int + nextHandler \<times> string \<times> 'b)" where
  "route_local lib modelID body pm =
     (case swapProcessGroup modelID (pm_groups pm) of
        (gs, None) \<Rightarrow> (pm\<lparr>pm_groups := gs\<rparr>, Inl 500)
      | (gs, Some pg) \<Rightarrow>
          (let pm = pm\<lparr>pm_groups := gs\<rparr>; mc = model_config (pm_config pm) modelID in
           case (if UseModelName mc \<noteq> [] then jl_Set lib ''model'' (VStr (UseModelName mc)) body else Some body) of
             None \<Rightarrow> (pm, Inl 500)
           | Some body \<Rightarrow>
               (case apply_filters lib (ModelFilters mc) body of
                  None \<Rightarrow> (pm, Inl 500)
                | Some body \<Rightarrow> (pm, Inr (NextLocal (pg_id pg), modelID, body)))))"

definition route_by_name :: "'b jsonLib \<Rightarrow> string \<Rightarrow> 'b \<Rightarrow> proxyManager \<Rightarrow> proxyManager \<times> (int + nextHandler \<times> string \<times> 'b)" where
  "route_by_name lib requestedModel body pm =
     (case RealModelName (pm_config pm) requestedModel of
        Some localID \<Rightarrow> route_local lib localID body pm
      | None \<Rightarrow>
          (case pm_peers pm of
             None \<Rightarrow> (pm, Inl 400)
           | Some pp \<Rightarrow>
               if HasPeerModel pp requestedModel
               then (case apply_filters lib (GetPeerFilters pp requestedModel) body of
                       None \<Rightarrow> (pm, Inl 500)
                     | Some body \<Rightarrow> (pm, Inr (NextPeer, requestedModel, body)))
               else (pm, Inl 400)))"

text \<open>The address, for a manager with peers.\<close>

definition route_address :: "'b jsonLib \<Rightarrow> poll \<Rightarrow> PeerProxy \<Rightarrow> string \<Rightarrow> 'b \<Rightarrow> proxyManager
    \<Rightarrow> proxyManager \<times> (int + nextHandler \<times> string \<times> 'b)" where
  "route_address lib w pp requestedModel body pm =
     (case ResolveAddress w requestedModel pp of
        (pp, Inl e) \<Rightarrow> (pm\<lparr>pm_peers := Some pp\<rparr>, Inl (addrErrorCode (Some e)))
      | (pp, Inr res) \<Rightarrow>
          (let pm = pm\<lparr>pm_peers := Some pp\<rparr> in
           case (if Rewrote res then jl_Set lib ''model'' (VStr (Model res)) body else Some body) of
             None \<Rightarrow> (pm, Inl 500)
           | Some body \<Rightarrow>
               if PeerID res \<noteq> [] then
                 (case apply_filters lib (PeerFilters pp (PeerID res)) body of
                    None \<Rightarrow> (pm, Inl 500)
                  | Some body \<Rightarrow> (pm, Inr (NextPinned (PeerID res), Model res, body)))
               else route_by_name lib (Model res) body pm))"

definition route_inference :: "'b jsonLib \<Rightarrow> poll \<Rightarrow> 'b \<Rightarrow> proxyManager \<Rightarrow> proxyManager \<times> (int + nextHandler \<times> string \<times> 'b)" where
  "route_inference lib w body pm =
     (let requestedModel = jl_String lib ''model'' body in
      if requestedModel = [] then (pm, Inl 400)
      else case pm_peers pm of
        Some pp \<Rightarrow> route_address lib w pp requestedModel body pm
      | None \<Rightarrow> route_by_name lib requestedModel body pm)"

subsection \<open>The handler\<close>

text \<open>What is handed to the next handler: the request with its context.\<close>

record 'b inferenceJob =
  job_next :: nextHandler
  job_model :: string
  job_body :: 'b
  job_headers :: http_headers
  job_length :: int
  job_streaming :: bool
  job_ctx :: ginCtx
  job_affinity :: string

definition shouldCollectMetrics :: "string \<Rightarrow> bool" where
  "shouldCollectMetrics path =
     (if HasPrefix path ''/v1/audio/'' then False else if HasPrefix path ''/v1/images/'' then False else True)"

text \<open>\<open>dec\<close> is \<open>strconv.Itoa\<close>.\<close>

definition prepare_job :: "'b jsonLib \<Rightarrow> (int \<Rightarrow> string) \<Rightarrow> (string \<Rightarrow> string) \<Rightarrow> (string \<Rightarrow> bodyView) \<Rightarrow> proxyManager
    \<Rightarrow> httpReq \<Rightarrow> ginCtx \<Rightarrow> nextHandler \<times> string \<times> 'b \<Rightarrow> 'b inferenceJob" where
  "prepare_job lib dec sha view pm req ctx routed =
     (case routed of (next, modelID, body) \<Rightarrow>
        let n = int (length (jl_bytes lib body));
            h = (rq_headers req)(''transfer-encoding'' := None, ''content-length'' := Some (dec n));
            key = (case pm_peers pm of
                     None \<Rightarrow> []
                   | Some pp \<Rightarrow>
                       if aff_enabled (affinity pp)
                       then affinityKeyFromRequest sha view (affinity pp) (\<lambda>n. GetHeader h (ToLower n)) (jl_bytes lib body)
                       else [])
        in \<lparr>job_next = next, job_model = modelID, job_body = body, job_headers = h, job_length = n,
            job_streaming = jl_Bool lib ''stream'' body, job_ctx = ctx, job_affinity = key\<rparr>)"

text \<open>\<open>metered\<close>: the same condition decides the metering and the metrics.\<close>

definition metered :: "bool \<Rightarrow> httpReq \<Rightarrow> bool" where
  "metered hasMonitor req \<longleftrightarrow> hasMonitor \<and> rq_method req = ''POST'' \<and> shouldCollectMetrics (rq_path req)"

text \<open>
  The whole handler: \<open>serve\<close> is the dispatch of the job, with the gate it leaves and what the metrics captured. \<open>Inl\<close> is an
  error response, \<open>Inr\<close> the dispatched job and the resolution's outcome.
\<close>

definition proxyInferenceHandler :: "'b jsonLib \<Rightarrow> (int \<Rightarrow> string) \<Rightarrow> (string \<Rightarrow> string) \<Rightarrow> (string \<Rightarrow> bodyView) \<Rightarrow> poll
    \<Rightarrow> bool \<Rightarrow> httpReq \<Rightarrow> ginCtx \<Rightarrow> 'b \<Rightarrow> ('b inferenceJob \<Rightarrow> creditGate \<Rightarrow> creditGate \<times> creditCapture)
    \<Rightarrow> proxyManager \<Rightarrow> creditGate \<Rightarrow> proxyManager \<times> creditGate \<times> (int + 'b inferenceJob \<times> unit option)" where
  "proxyInferenceHandler lib dec sha view w hasMonitor req ctx body serve pm g =
     (case route_inference lib w body pm of
        (pm, Inl code) \<Rightarrow> (pm, g, Inl code)
      | (pm, Inr routed) \<Rightarrow>
          (let job = prepare_job lib dec sha view pm req ctx routed; b = job_body job in
           case meteredRequest g (metered hasMonitor req) (gc_fingerprint ctx) (job_model job)
                  (creditPromptUpperBound (jl_bytes lib b) (jl_Raw lib ''messages'' b) (jl_Raw lib ''prompt'' b))
                  (creditRequestedMax (jl_Int lib ''max_tokens'' b) (jl_Int lib ''max_completion_tokens'' b))
                  (serve job) of
             (g, Inl (code, _)) \<Rightarrow> (pm, g, Inl code)
           | (g, Inr r) \<Rightarrow> (pm, g, Inr (job, r))))"

subsection \<open>What filters do to a body\<close>

definition plain_filters :: "(string \<Rightarrow> bool) \<Rightarrow> Filters \<Rightarrow> bool" where
  "plain_filters plain f \<longleftrightarrow> list_all plain (SanitizedStripParams f) \<and> list_all plain (snd (SanitizedSetParams f))"

lemma strip_params_spec:
  assumes "json_ok lib plain" "list_all plain ps" "strip_params lib ps b = Some b'" "plain k"
  shows "jl_get lib k b' = (if k \<in> set ps then None else jl_get lib k b)
    \<and> (k \<notin> set ps \<longrightarrow> jl_String lib k b' = jl_String lib k b)"
  using assms(2,3)
proof (induction ps arbitrary: b)
  case (Cons p ps)
  then obtain c where c: "jl_Delete lib p b = Some c" "strip_params lib ps c = Some b'" by (auto split: option.splits)
  have p: "jl_get lib p c = None"
    "plain j \<Longrightarrow> j \<noteq> p \<Longrightarrow> jl_get lib j c = jl_get lib j b \<and> jl_String lib j c = jl_String lib j b" for j
    using assms(1) Cons.prems(1) c(1) by (auto simp: json_ok_def)
  show ?case using Cons.IH [OF _ c(2)] Cons.prems(1) p(1) p(2) [OF assms(4)] by auto
qed simp

lemma set_params_spec:
  assumes "json_ok lib plain" "list_all plain ks" "set ks \<subseteq> dom m" "set_params lib m ks b = Some b'" "plain k"
  shows "jl_get lib k b' = (if k \<in> set ks then m k else jl_get lib k b)
    \<and> (k \<notin> set ks \<longrightarrow> jl_String lib k b' = jl_String lib k b)"
  using assms(2,3,4)
proof (induction ks arbitrary: b)
  case (Cons p ks)
  then obtain v c where c: "m p = Some v" "jl_Set lib p v b = Some c" "set_params lib m ks c = Some b'"
    by (auto split: option.splits)
  have p: "jl_get lib p c = Some v"
    "plain j \<Longrightarrow> j \<noteq> p \<Longrightarrow> jl_get lib j c = jl_get lib j b \<and> jl_String lib j c = jl_String lib j b" for j
    using assms(1) Cons.prems(1) c(2) by (auto simp: json_ok_def)
  show ?case using Cons.IH [OF _ _ c(3)] Cons.prems(1,2) p(1) p(2) [OF assms(5)] c(1) by auto
qed simp

lemma kept_keys: "set (map fst (filter P m)) = dom (foldl (\<lambda>m kv. m(fst kv \<mapsto> snd kv)) Map.empty (filter P m))"
  by (simp add: foldl_upd_map_of dom_map_of_conv_image_fst)

lemma SanitizedSetParams_keys: "set (snd (SanitizedSetParams f)) = dom (fst (SanitizedSetParams f))"
  and SanitizedSetParams_model: "''model'' \<notin> set (snd (SanitizedSetParams f))"
  using kept_keys [of "\<lambda>kv. fst kv \<notin> set ProtectedParams" "SetParams f"]
  by (auto simp: SanitizedSetParams_def ProtectedParams_def Let_def)

lemma SanitizedStripParams_model: "''model'' \<notin> set (SanitizedStripParams f)"
  using strip_loop_spec [of "[]" "Split (StripParams f) (CHR '','')"]
  by (auto simp: SanitizedStripParams_def ProtectedParams_def)

text \<open>The body that leaves the handler: the model name it carries, and every other field.\<close>

definition rewritten :: "'b jsonLib \<Rightarrow> (string \<Rightarrow> bool) \<Rightarrow> Filters \<Rightarrow> string \<Rightarrow> 'b \<Rightarrow> 'b \<Rightarrow> bool" where
  "rewritten lib plain f name body body' \<longleftrightarrow> jl_String lib ''model'' body' = name
     \<and> (\<forall>k. plain k \<and> k \<noteq> ''model'' \<longrightarrow>
          jl_get lib k body' = (case fst (SanitizedSetParams f) k of
              Some v \<Rightarrow> Some v
            | None \<Rightarrow> if k \<in> set (SanitizedStripParams f) then None else jl_get lib k body))"

lemma apply_filters_rewritten:
  assumes "json_ok lib plain" "plain ''model''" "plain_filters plain f" "apply_filters lib f b = Some b'"
    and "\<And>k. plain k \<Longrightarrow> k \<noteq> ''model'' \<Longrightarrow> jl_get lib k b = jl_get lib k body"
  shows "rewritten lib plain f (jl_String lib ''model'' b) body b'"
proof -
  obtain m ks where m: "SanitizedSetParams f = (m, ks)" by fastforce
  obtain c where c: "strip_params lib (SanitizedStripParams f) b = Some c" "set_params lib m ks c = Some b'"
    using assms(4) by (auto simp: apply_filters_def m split: option.splits)
  have p: "list_all plain (SanitizedStripParams f)" "list_all plain ks" "set ks = dom m" "''model'' \<notin> set ks"
    using assms(3) SanitizedSetParams_keys [of f] SanitizedSetParams_model [of f] m by (auto simp: plain_filters_def)
  note strip = strip_params_spec [OF assms(1) p(1) c(1)]
    and sets = set_params_spec [OF assms(1) p(2) _ c(2)]
  have sub: "set ks \<subseteq> dom m" using p(3) by simp
  show ?thesis
    using strip sets [OF sub] assms(2,5) p(3,4) SanitizedStripParams_model [of f]
    by (auto simp: rewritten_def m split: option.split)
qed

lemma set_model:
  assumes "json_ok lib plain" "plain ''model''" "jl_Set lib ''model'' (VStr s) b = Some b'"
  shows "jl_String lib ''model'' b' = s" "plain k \<Longrightarrow> k \<noteq> ''model'' \<Longrightarrow> jl_get lib k b' = jl_get lib k b"
  using assms by (auto simp: json_ok_def)

text \<open>The resolution the routing follows, and the name the body then carries.\<close>

definition resolution :: "poll \<Rightarrow> proxyManager \<Rightarrow> string \<Rightarrow> addrError + AddressResolution" where
  "resolution w pm raw =
     (case pm_peers pm of
        None \<Rightarrow> Inr \<lparr>PeerID = [], Model = raw, Rewrote = False\<rparr>
      | Some pp \<Rightarrow> snd (ResolveAddress w raw pp))"

definition sent_name :: "AddressResolution \<Rightarrow> string \<Rightarrow> string" where
  "sent_name r raw = (if Rewrote r then Model r else raw)"

lemma splitAddress_at: "splitAddress raw = Inr (model, node, hasAt) \<Longrightarrow> node \<noteq> [] \<Longrightarrow> hasAt"
  by (auto simp: splitAddress_def Let_def split: nat.splits option.splits)

text \<open>A pinned address always rewrites the model.\<close>

lemma pinned_rewrote:
  assumes "snd (ResolveAddress w raw p) = Inr r" "PeerID r \<noteq> []"
  shows "Rewrote r"
proof -
  obtain model node hasAt where s: "splitAddress raw = Inr (model, node, hasAt)"
    using assms(1) by (cases "splitAddress raw") (auto simp: ResolveAddress_def)
  have "hasAt" if "\<not> isWildcard node" using splitAddress_at [OF s] that by (auto simp: isWildcard_def)
  then show ?thesis
    using assms s
    by (auto simp: ResolveAddress_def resolveCapability_def resolve_node_def split_beta
        split: sum.splits option.splits if_splits)
qed

lemma GetPeerFilters_plain:
  assumes "\<forall>peer \<in> snd ` set (peers pp). plain_filters plain (peer_Filters peer)"
  shows "plain_filters plain (GetPeerFilters pp m)" "plain_filters plain (PeerFilters pp ID)"
proof -
  have z: "plain_filters plain zeroFilters"
    by (simp add: plain_filters_def zeroFilters_def SanitizedStripParams_def SanitizedSetParams_def)
  have "plain_filters plain (peer_Filters peer)" if "map_of (peers pp) x = Some peer" for x peer
    using assms map_of_SomeD [OF that] by force
  then show "plain_filters plain (GetPeerFilters pp m)" "plain_filters plain (PeerFilters pp ID)"
    using z by (auto simp: GetPeerFilters_def PeerFilters_def split: list.split option.split)
qed

lemma model_config_plain:
  assumes "\<forall>mc \<in> snd ` set (Models c). plain_filters plain (ModelFilters mc)"
  shows "plain_filters plain (ModelFilters (model_config c m))"
proof -
  have "plain_filters plain (ModelFilters zeroModel)"
    by (simp add: plain_filters_def zeroModel_def modelDefaults_def SanitizedStripParams_def SanitizedSetParams_def)
  then show ?thesis
    using assms by (force simp: model_config_def dest: map_of_SomeD split: option.split)
qed

lemma resolve_config:
  "peers (fst (ResolveAddress w raw p)) = peers p \<and> modelPeers (fst (ResolveAddress w raw p)) = modelPeers p"
proof -
  have load: "same_state p (fst (peer_load w ID p))" for ID p by (rule peer_load_same)
  have scan: "same_state p (fst (firstLoadedAnywhere w IDs p))" for IDs p
  proof (induction IDs arbitrary: p)
    case (Cons ID IDs)
    then show ?case
      using same_state_trans [OF load Cons.IH] load [of p ID] by (simp add: split_beta split: list.split)
  qed simp
  have caps: "same_state p (fst (capability_scan w i o' IDs p))" for i o' IDs p
  proof (induction IDs arbitrary: p)
    case (Cons ID IDs)
    then show ?case
      using same_state_trans [OF load Cons.IH] load [of p ID] by (simp add: firstModelMatchingCaps_eq split: option.split)
  qed simp
  have "same_state p (fst (ResolveAddress w raw p))"
    using scan caps load
    by (auto simp: ResolveAddress_def resolveCapability_def resolve_node_def firstModelMatchingCaps_eq pickModelForPeer_def
        peerServesModel_def split_beta split: sum.splits option.splits)
  then show ?thesis using same_stateD(1,2) by metis
qed

text \<open>What routing by name does, from a body whose fields other than the model are those of the request.\<close>

lemma route_by_name_cases:
  assumes json: "json_ok lib plain" "plain ''model''"
    and mf: "\<forall>mc \<in> snd ` set (Models (pm_config pm)). plain_filters plain (ModelFilters mc)"
    and pf: "\<forall>pp. pm_peers pm = Some pp \<longrightarrow> (\<forall>peer \<in> snd ` set (peers pp). plain_filters plain (peer_Filters peer))"
    and same: "\<And>k. plain k \<Longrightarrow> k \<noteq> ''model'' \<Longrightarrow> jl_get lib k b = jl_get lib k body"
  shows "case route_by_name lib name b pm of
      (pm', Inl code) \<Rightarrow> code = 500 \<or> code = 400 \<and> RealModelName (pm_config pm) name = None
        \<and> (\<forall>pp. pm_peers pm = Some pp \<longrightarrow> \<not> HasPeerModel pp name)
    | (pm', Inr (next, modelID, body')) \<Rightarrow>
        (case next of
           NextPinned ID \<Rightarrow> False
         | NextLocal gid \<Rightarrow> RealModelName (pm_config pm) name = Some modelID
             \<and> map_option pg_id (findGroupByModelName (pm_groups pm) modelID) = Some gid
             \<and> pm_groups pm' = fst (swapProcessGroup modelID (pm_groups pm))
             \<and> rewritten lib plain (ModelFilters (model_config (pm_config pm) modelID))
                 (if UseModelName (model_config (pm_config pm) modelID) \<noteq> []
                  then UseModelName (model_config (pm_config pm) modelID) else jl_String lib ''model'' b) body body'
         | NextPeer \<Rightarrow> RealModelName (pm_config pm) name = None \<and> modelID = name \<and> pm_groups pm' = pm_groups pm
             \<and> (\<exists>pp. pm_peers pm = Some pp \<and> HasPeerModel pp name
                  \<and> rewritten lib plain (GetPeerFilters pp name) (jl_String lib ''model'' b) body body'))"
proof (cases "RealModelName (pm_config pm) name")
  case None
  show ?thesis
  proof (cases "pm_peers pm")
    case (Some pp)
    then have "\<forall>peer \<in> snd ` set (peers pp). plain_filters plain (peer_Filters peer)" using pf by simp
    then have pl: "plain_filters plain (GetPeerFilters pp name)" by (rule GetPeerFilters_plain(1))
    show ?thesis
      using None Some apply_filters_rewritten [OF json pl _ same]
      by (auto simp: route_by_name_def split: option.split)
  qed (simp add: route_by_name_def None)
next
  case (Some modelID)
  let ?mc = "model_config (pm_config pm) modelID"
  have pl: "plain_filters plain (ModelFilters ?mc)" using model_config_plain mf by blast
  obtain gs g where sw: "swapProcessGroup modelID (pm_groups pm) = (gs, g)" by fastforce
  have g: "g = findGroupByModelName (pm_groups pm) modelID"
    using sw by (auto simp: swapProcessGroup_def split: option.splits if_splits)
  show ?thesis
  proof (cases g)
    case None
    then show ?thesis using Some sw by (simp add: route_by_name_def route_local_def)
  next
    case pg: (Some pg)
    show ?thesis
    proof (cases "UseModelName ?mc = []")
      case True
      then show ?thesis
        using Some sw pg g apply_filters_rewritten [OF json pl _ same]
        by (auto simp: route_by_name_def route_local_def Let_def split: option.split)
    next
      case False
      have "rewritten lib plain (ModelFilters ?mc) (UseModelName ?mc) body b''"
        if set1: "jl_Set lib ''model'' (VStr (UseModelName ?mc)) b = Some b'" "apply_filters lib (ModelFilters ?mc) b' = Some b''" for b' b''
        using apply_filters_rewritten [OF json pl that(2)] set_model [OF json set1(1)] same by simp
      then show ?thesis
        using Some sw pg g False
        by (auto simp: route_by_name_def route_local_def Let_def split: option.split)
    qed
  qed
qed

text \<open>An address that is resolved goes to its node, or is routed by name.\<close>

lemma pinned_or_named:
  assumes json: "json_ok lib plain" "plain ''model''"
    and mf: "\<forall>mc \<in> snd ` set (Models (pm_config pm)). plain_filters plain (ModelFilters mc)"
    and pf: "\<forall>pp. pm_peers pm = Some pp \<longrightarrow> (\<forall>peer \<in> snd ` set (peers pp). plain_filters plain (peer_Filters peer))"
    and Some: "pm_peers pm = Some pp" and cfg: "peers pp' = peers pp" "modelPeers pp' = modelPeers pp"
    and same: "\<And>k. plain k \<Longrightarrow> k \<noteq> ''model'' \<Longrightarrow> jl_get lib k b = jl_get lib k body"
  shows "case (if PeerID a \<noteq> [] then
     (case apply_filters lib (PeerFilters pp' (PeerID a)) b of None \<Rightarrow> ((pm\<lparr>pm_peers := Some pp'\<rparr>), Inl 500)
      | Some b \<Rightarrow> ((pm\<lparr>pm_peers := Some pp'\<rparr>), Inr (NextPinned (PeerID a), Model a, b))) else route_by_name lib (Model a) b (pm\<lparr>pm_peers := Some pp'\<rparr>)) of
    (pm', Inl code) \<Rightarrow> code = 500 \<or> code = 400 \<and> PeerID a = [] \<and> RealModelName (pm_config pm) (Model a) = None
        \<and> \<not> HasPeerModel pp (Model a)
  | (pm', Inr (next, modelID, body')) \<Rightarrow>
     (case next of
       NextPinned ID \<Rightarrow> ID \<noteq> [] \<and> PeerID a = ID \<and> modelID = Model a \<and> pm_groups pm' = pm_groups pm
         \<and> rewritten lib plain (PeerFilters pp ID) (jl_String lib ''model'' b) body body'
     | NextLocal gid \<Rightarrow> PeerID a = [] \<and> RealModelName (pm_config pm) (Model a) = Some modelID
         \<and> map_option pg_id (findGroupByModelName (pm_groups pm) modelID) = Some gid
         \<and> pm_groups pm' = fst (swapProcessGroup modelID (pm_groups pm))
         \<and> rewritten lib plain (ModelFilters (model_config (pm_config pm) modelID))
             (if UseModelName (model_config (pm_config pm) modelID) \<noteq> [] then UseModelName (model_config (pm_config pm) modelID)
              else jl_String lib ''model'' b) body body'
     | NextPeer \<Rightarrow> PeerID a = [] \<and> RealModelName (pm_config pm) (Model a) = None \<and> modelID = Model a
         \<and> pm_groups pm' = pm_groups pm \<and> HasPeerModel pp (Model a)
         \<and> rewritten lib plain (GetPeerFilters pp (Model a)) (jl_String lib ''model'' b) body body')"
proof -
  have flt: "PeerFilters pp' = PeerFilters pp" "GetPeerFilters pp' = GetPeerFilters pp" "HasPeerModel pp' = HasPeerModel pp"
    using cfg unfolding PeerFilters_def [abs_def] GetPeerFilters_def [abs_def] HasPeerModel_def [abs_def] by (simp_all only: )
  let ?pm = "pm\<lparr>pm_peers := Some pp'\<rparr>"
  show ?thesis
  proof (cases "PeerID a = []")
    case True
    have "\<forall>q. pm_peers ?pm = Some q \<longrightarrow> (\<forall>peer \<in> snd ` set (peers q). plain_filters plain (peer_Filters peer))"
      using pf Some cfg(1) by simp
    from route_by_name_cases [OF json _ this same, of "Model a"] mf True flt show ?thesis
      by (auto split: prod.splits sum.splits nextHandler.splits)
  next
    case False
    have "plain_filters plain (PeerFilters pp' (PeerID a))"
      using GetPeerFilters_plain(2) [of pp plain "PeerID a"] pf Some flt by simp
    from apply_filters_rewritten [OF json this _ same] False flt show ?thesis
      by (auto split: option.split)
  qed
qed

text \<open>
  C8. Routing: a request without a model is refused with 400, one whose address does not resolve with the
  resolver's status; a pinned address goes to its peer, any other name first to a local model (by id or
  alias), then to a peer that lists it, and to nothing else - 400 when there is neither. The body handed on
  carries the upstream's own model name when one is configured, the resolved name when the address was
  rewritten, and the name the client sent otherwise; the parameters of the chosen model's or peer's filters
  are stripped and set, and every other field is as the client sent it. Only a local model touches the
  process groups, by the swap.
\<close>

theorem inference_routed:
  assumes json: "json_ok lib plain" "plain ''model''"
    and mf: "\<forall>mc \<in> snd ` set (Models (pm_config pm)). plain_filters plain (ModelFilters mc)"
    and pf: "\<forall>pp. pm_peers pm = Some pp \<longrightarrow> (\<forall>peer \<in> snd ` set (peers pp). plain_filters plain (peer_Filters peer))"
  shows "let raw = jl_String lib ''model'' body; c = pm_config pm in
     case route_inference lib w body pm of
       (pm', Inl code) \<Rightarrow>
         (if raw = [] then code = 400
          else case resolution w pm raw of
            Inl e \<Rightarrow> code = addr_code e
          | Inr r \<Rightarrow> code = 500 \<or> code = 400 \<and> PeerID r = [] \<and> RealModelName c (Model r) = None
              \<and> (\<forall>pp. pm_peers pm = Some pp \<longrightarrow> \<not> HasPeerModel pp (Model r)))
     | (pm', Inr (next, modelID, body')) \<Rightarrow> raw \<noteq> [] \<and>
         (case resolution w pm raw of
            Inl e \<Rightarrow> False
          | Inr r \<Rightarrow>
              (case next of
                 NextPinned ID \<Rightarrow> ID \<noteq> [] \<and> PeerID r = ID \<and> modelID = Model r \<and> pm_groups pm' = pm_groups pm
                   \<and> (\<exists>pp. pm_peers pm = Some pp \<and> rewritten lib plain (PeerFilters pp ID) (Model r) body body')
               | NextLocal gid \<Rightarrow> PeerID r = [] \<and> RealModelName c (Model r) = Some modelID
                   \<and> map_option pg_id (findGroupByModelName (pm_groups pm) modelID) = Some gid
                   \<and> pm_groups pm' = fst (swapProcessGroup modelID (pm_groups pm))
                   \<and> rewritten lib plain (ModelFilters (model_config c modelID))
                       (if UseModelName (model_config c modelID) \<noteq> [] then UseModelName (model_config c modelID)
                        else sent_name r raw) body body'
               | NextPeer \<Rightarrow> PeerID r = [] \<and> RealModelName c (Model r) = None \<and> modelID = Model r
                   \<and> pm_groups pm' = pm_groups pm
                   \<and> (\<exists>pp. pm_peers pm = Some pp \<and> HasPeerModel pp (Model r)
                        \<and> rewritten lib plain (GetPeerFilters pp (Model r)) (sent_name r raw) body body')))"
proof (cases "jl_String lib ''model'' body = []")
  case True
  then show ?thesis by (simp add: route_inference_def)
next
  case raw: False
  let ?raw = "jl_String lib ''model'' body"
  show ?thesis
  proof (cases "pm_peers pm")
    case None
    then show ?thesis
      using raw route_by_name_cases [OF json mf pf, of body body ?raw]
      by (auto simp: route_inference_def resolution_def sent_name_def Let_def
          split: prod.splits sum.splits nextHandler.splits if_splits)
  next
    case (Some pp)
    obtain pp' res where r: "ResolveAddress w ?raw pp = (pp', res)" by fastforce
    have cfg: "peers pp' = peers pp" "modelPeers pp' = modelPeers pp" using resolve_config [of w ?raw pp] r by auto
    show ?thesis
    proof (cases res)
      case (Inl e)
      then show ?thesis using raw Some r
        by (simp add: route_inference_def route_address_def resolution_def addrErrorCode_def)
    next
      case (Inr a)
      note rest = pinned_or_named [OF json mf pf Some cfg, where a = a and body = body]
      have pin: "PeerID a \<noteq> [] \<Longrightarrow> Rewrote a" using pinned_rewrote [of w ?raw pp a] r Inr by simp
      show ?thesis
      proof (cases "Rewrote a")
        case False
        then show ?thesis
          using rest [of body] raw Some r Inr pin
          by (auto simp: route_inference_def route_address_def resolution_def sent_name_def Let_def
              split: prod.splits sum.splits nextHandler.splits)
      next
        case True
        show ?thesis
        proof (cases "jl_Set lib ''model'' (VStr (Model a)) body")
          case None
          then show ?thesis using raw Some r Inr True
            by (simp add: route_inference_def route_address_def resolution_def)
        next
          case b: (Some b)
          note m = set_model [OF json b]
          show ?thesis
            using rest [OF m(2)] m(1) raw Some r Inr True b
            by (auto simp: route_inference_def route_address_def resolution_def sent_name_def Let_def
                split: prod.splits sum.splits nextHandler.splits)
        qed
      qed
    qed
  qed
qed

text \<open>Bodies that are association lists, and a manager with one swapping group.\<close>

definition alist_json :: "(string \<times> any) list jsonLib" where
  "alist_json = \<lparr>jl_get = (\<lambda>k b. map_of b k),
     jl_String = (\<lambda>k b. case map_of b k of Some (VStr s) \<Rightarrow> s | _ \<Rightarrow> []),
     jl_Bool = (\<lambda>k b. map_of b k = Some (VBool True)),
     jl_Int = (\<lambda>k b. case map_of b k of Some (VInt n) \<Rightarrow> Some n | _ \<Rightarrow> None),
     jl_Raw = (\<lambda>k b. case map_of b k of Some (VStr s) \<Rightarrow> Some s | _ \<Rightarrow> None),
     jl_Set = (\<lambda>k v b. Some (AList.update k v b)),
     jl_Delete = (\<lambda>k b. Some (filter (\<lambda>kv. fst kv \<noteq> k) b)), jl_bytes = concat \<circ> map fst\<rparr>"

lemma map_of_without: "map_of (filter (\<lambda>kv. fst kv \<noteq> k) b) j = (if j = k then None else map_of b j)"
  by (induction b) auto

lemma alist_json_ok: "json_ok alist_json (\<lambda>_. True)"
  by (auto simp: json_ok_def alist_json_def map_of_without)

definition sample_manager :: proxyManager where
  "sample_manager = \<lparr>pm_config = swap_config, pm_groups = newGroups (\<lambda>_. True) swap_config, pm_peers = None\<rparr>"

theorem inference_routed_witness:
  "\<exists>pm' body'. route_inference alist_json \<lparr>p_now = 0, p_answer = (\<lambda>_. None)\<rparr>
       [(''model'', VStr ''b''), (''top_k'', VInt 1)] sample_manager = (pm', Inr (NextLocal ''g'', ''b'', body'))
   \<and> jl_get alist_json ''top_k'' body' = Some (VInt 1) \<and> jl_String alist_json ''model'' body' = ''b''"
proof -
  let ?w = "\<lparr>p_now = 0, p_answer = (\<lambda>_. None)\<rparr>" and ?b = "[(''model'', VStr ''b''), (''top_k'', VInt 1)]"
  have none: "plain_filters P (ModelFilters race_model)" "fst (SanitizedSetParams (ModelFilters race_model)) = Map.empty"
      "SanitizedStripParams (ModelFilters race_model) = []" for P
    by (simp_all add: plain_filters_def race_model_def modelDefaults_def SanitizedStripParams_def SanitizedSetParams_def)
  have models: "Models swap_config = [(''a'', race_model), (''b'', race_model)]"
    by (simp add: swap_config_def sample_config_def)
  have mf: "\<forall>mc \<in> snd ` set (Models (pm_config sample_manager)). plain_filters (\<lambda>_. True) (ModelFilters mc)"
    by (simp add: sample_manager_def models none)
  have pf: "\<forall>pp. pm_peers sample_manager = Some pp \<longrightarrow> (\<forall>peer \<in> snd ` set (peers pp). plain_filters (\<lambda>_. True) (peer_Filters peer))"
    by (simp add: sample_manager_def)
  obtain pm' res where r: "route_inference alist_json ?w ?b sample_manager = (pm', res)" by fastforce
  have raw: "jl_String alist_json ''model'' ?b = ''b''" by (simp add: alist_json_def)
  have real: "RealModelName swap_config ''b'' = Some ''b''" by (simp add: RealModelName_def models)
  have grp: "map_option pg_id (findGroupByModelName (newGroups (\<lambda>_. True) swap_config) ''b'') = Some ''g''"
    by (simp add: findGroupByModelName_def newGroups_def List.map_filter_def swap_config_def sample_config_def
        NewProcessGroup_def HasMember_def)
  note t = inference_routed [OF alist_json_ok TrueI mf pf, of ?b ?w, unfolded r raw Let_def]
  obtain body' where res: "res = Inr (NextLocal ''g'', ''b'', body')"
  proof -
    have "\<exists>pg. swapProcessGroup ''b'' (newGroups (\<lambda>_. True) swap_config) = (fst (swapProcessGroup ''b'' (newGroups (\<lambda>_. True) swap_config)), Some pg) \<and> pg_id pg = ''g''"
      using grp by (auto simp: swapProcessGroup_def split: option.splits)
    then show ?thesis
      using r raw that
      by (auto simp: route_inference_def sample_manager_def route_by_name_def real route_local_def model_config_def models
          race_model_def modelDefaults_def apply_filters_def SanitizedStripParams_def SanitizedSetParams_def Let_def
          split: prod.splits)
  qed
  have mc: "model_config swap_config ''b'' = race_model" "UseModelName race_model = []"
    by (simp_all add: model_config_def models) (simp add: race_model_def modelDefaults_def)
  have get: "jl_get alist_json ''top_k'' ?b = Some (VInt 1)" by (simp add: alist_json_def)
  show ?thesis
    using t r unfolding res
    by (auto simp: resolution_def sample_manager_def rewritten_def mc none sent_name_def get raw)
qed

subsection \<open>Two corners of the routing\<close>

text \<open>
  \<open>Rewrote\<close> is documented as set whenever the resolved model differs from the raw input, but a name with
  surrounding blanks and no node resolves to the trimmed name with \<open>Rewrote\<close> unset, so the body goes on with the
  blanks.
\<close>

lemma blanks_not_rewritten:
  "snd (ResolveAddress w '' m'' p) = Inr \<lparr>PeerID = [], Model = ''m'', Rewrote = False\<rparr>"
proof -
  have "splitAddress '' m'' = Inr (''m'', [], False)" "parseCapability ''m'' = Inr None"
    "\<not> isWildcard ''m''" "isWildcard []" by code_simp+
  then show ?thesis by (simp add: ResolveAddress_def)
qed

text \<open>
  The swap comes before the credit gate: a request the gate refuses has stopped the other groups all the same.
\<close>

lemma refused_request_swaps:
  assumes "route_inference lib w body pm = (pm', Inr (next, modelID, b))"
  shows "fst (proxyInferenceHandler lib dec sha view w hasMonitor req ctx body serve pm g) = pm'"
  using assms by (auto simp: proxyInferenceHandler_def Let_def split: prod.split sum.split)

end
