(* ===== verification/Metrics_Monitor.thy ===== *)
theory Metrics_Monitor
  imports Usage_Meter Debit_Emitter Credit_Gate Api_Auth Config_Macros
begin

section \<open>Token metrics and the billing pipeline (proxy/metrics_monitor.go, emitDebit and New in proxy/proxymanager.go)\<close>

text \<open>
  What is read from an upstream's answer, recorded, and fed to the usage meter and the debit log. The JSON
  library is a third-party package: a document is a value of type \<open>'j\<close> that is used through the record
  \<open>gjsonLib\<close>, as are the float64 values of the timings, of type \<open>'f\<close>. Decompression is an argument too, and the
  clock readings and random bytes of a call are the record \<open>callWorld\<close>. A time is in nanoseconds; the zero
  time of Go is \<open>None\<close>.
\<close>

subsection \<open>The counts in an answer\<close>

record ('j, 'f) gjsonLib =
  gj_parse :: "string \<Rightarrow> 'j option"
  gj_Get :: "'j \<Rightarrow> string \<Rightarrow> 'j option"
  gj_Int :: "'j option \<Rightarrow> int"
  gj_Float :: "'j option \<Rightarrow> 'f"
  fp_zero :: 'f
  fp_minus1 :: 'f
  fp_add :: "'f \<Rightarrow> 'f \<Rightarrow> 'f"
  fp_int :: "'f \<Rightarrow> int"

record 'f TokenMetrics =
  tm_ID :: int
  tm_Timestamp :: int
  tm_Model :: string
  tm_Client :: string
  tm_Country :: string
  tm_IP :: string
  tm_KeyFingerprint :: string
  tm_Node :: string
  CachedTokens :: int
  tm_InputTokens :: int
  tm_OutputTokens :: int
  PromptPerSecond :: 'f
  TokensPerSecond :: 'f
  DurationMs :: int

text \<open>\<open>time.Since(start).Milliseconds()\<close>: the distance to the zero time is more than a duration holds, and is cut.\<close>

definition since_ms :: "int \<Rightarrow> int option \<Rightarrow> int" where
  "since_ms now start = (case start of None \<Rightarrow> go_quot 9223372036854775807 1000000 | Some s \<Rightarrow> go_quot (now - s) 1000000)"

definition parseMetrics :: "('j, 'f) gjsonLib \<Rightarrow> int \<Rightarrow> string \<Rightarrow> int option \<Rightarrow> 'j option \<Rightarrow> 'j option \<Rightarrow> 'f TokenMetrics" where
  "parseMetrics lib now modelID start usage timings =
     (let get = (\<lambda>j k. Option.bind j (\<lambda>j. gj_Get lib j k)); n = (\<lambda>j k. gj_Int lib (get j k));
          inputTokens =
            (if get usage ''prompt_tokens'' \<noteq> None then n usage ''prompt_tokens''
             else if get usage ''input_tokens'' \<noteq> None then n usage ''input_tokens'' else 0);
          outputTokens =
            (if get usage ''completion_tokens'' \<noteq> None then n usage ''completion_tokens''
             else if get usage ''output_tokens'' \<noteq> None then n usage ''output_tokens'' else 0);
          cachedTokens =
            (if get usage ''cache_read_input_tokens'' \<noteq> None then n usage ''cache_read_input_tokens'' else - 1);
          tm = \<lparr>tm_ID = 0, tm_Timestamp = now, tm_Model = modelID, tm_Client = [], tm_Country = [], tm_IP = [],
            tm_KeyFingerprint = [], tm_Node = [], CachedTokens = cachedTokens, tm_InputTokens = inputTokens,
            tm_OutputTokens = outputTokens, PromptPerSecond = fp_minus1 lib, TokensPerSecond = fp_minus1 lib,
            DurationMs = since_ms now start\<rparr>
      in if timings = None then tm
         else tm\<lparr>tm_InputTokens := n timings ''prompt_n'', tm_OutputTokens := n timings ''predicted_n'',
           PromptPerSecond := gj_Float lib (get timings ''prompt_per_second''),
           TokensPerSecond := gj_Float lib (get timings ''predicted_per_second''),
           DurationMs := fp_int lib (fp_add lib (gj_Float lib (get timings ''prompt_ms'')) (gj_Float lib (get timings ''predicted_ms''))),
           CachedTokens := if get timings ''cache_n'' \<noteq> None then n timings ''cache_n'' else cachedTokens\<rparr>)"

text \<open>The \<open>usage\<close> and \<open>timings\<close> of a document, when it has either.\<close>

definition usage_of :: "('j, 'f) gjsonLib \<Rightarrow> string \<Rightarrow> ('j option \<times> 'j option) option" where
  "usage_of lib b =
     (case gj_parse lib b of
        None \<Rightarrow> None
      | Some parsed \<Rightarrow>
          let usage = gj_Get lib parsed ''usage''; timings = gj_Get lib parsed ''timings'' in
          if usage \<noteq> None \<or> timings \<noteq> None then Some (usage, timings) else None)"

text \<open>One line of an event stream, without its surrounding space.\<close>

definition stream_line :: "('j, 'f) gjsonLib \<Rightarrow> string \<Rightarrow> ('j option \<times> 'j option) option" where
  "stream_line lib line =
     (if length line = 0 then None
      else if \<not> HasPrefix line ''data:'' then None
      else let data = TrimSpace (drop 5 line) in
           if length data = 0 then None
           else if data = ''[DONE]'' then None
           else usage_of lib data)"

fun LastIndexByte :: "string \<Rightarrow> char \<Rightarrow> nat option" where
  "LastIndexByte [] c = None"
| "LastIndexByte (x # xs) c =
     (case LastIndexByte xs c of Some i \<Rightarrow> Some (Suc i) | None \<Rightarrow> if x = c then Some 0 else None)"

definition lineStart :: "string \<Rightarrow> nat" where
  "lineStart s = (case LastIndexByte s newline of None \<Rightarrow> 0 | Some i \<Rightarrow> i + 1)"

lemma LastIndexByte_Some: "LastIndexByte s c = Some i \<Longrightarrow> i < length s \<and> s = take i s @ c # drop (Suc i) s \<and> c \<notin> set (drop (Suc i) s)"
proof (induction s arbitrary: i)
  case (Cons x s)
  show ?case
  proof (cases "LastIndexByte s c")
    case None
    then have "c \<notin> set s" by (induction s) (auto split: option.splits if_splits)
    then show ?thesis using Cons.prems None by (auto split: if_splits)
  next
    case (Some j)
    then show ?thesis using Cons by auto
  qed
qed simp

lemma LastIndexByte_None: "LastIndexByte s c = None \<longleftrightarrow> c \<notin> set s"
  by (induction s) (auto split: option.splits)

lemma lineStart_le: "lineStart s \<le> length s"
  by (auto simp: lineStart_def split: option.split dest: LastIndexByte_Some)

text \<open>The backward loop over the body; \<open>pos - 1\<close> at the first line leaves the loop, as \<open>-1\<close> does.\<close>

function stream_scan :: "('j, 'f) gjsonLib \<Rightarrow> string \<Rightarrow> nat \<Rightarrow> ('j option \<times> 'j option) option" where
  "stream_scan lib body pos =
     (if pos = 0 then None
      else
        let start = lineStart (take pos body); line = TrimSpace (drop start (take pos body)) in
        case stream_line lib line of
          Some ut \<Rightarrow> Some ut
        | None \<Rightarrow> stream_scan lib body (start - 1))"
  by pat_completeness auto
termination
proof (relation "measure (\<lambda>(_, _, pos). pos)", goal_cases)
  case (2 lib body pos start line)
  then have "lineStart (take pos body) \<le> pos" using lineStart_le [of "take pos body"] by simp
  then have "start - 1 < pos" using 2(1,2) by linarith
  then show ?case by simp
qed simp

declare stream_scan.simps [simp del]

definition processStreamingResponse :: "('j, 'f) gjsonLib \<Rightarrow> int \<Rightarrow> string \<Rightarrow> int option \<Rightarrow> string \<Rightarrow> 'f TokenMetrics option" where
  "processStreamingResponse lib now modelID start body =
     (case stream_scan lib body (length body) of
        None \<Rightarrow> None
      | Some (usage, timings) \<Rightarrow> Some (parseMetrics lib now modelID start usage timings))"

subsection \<open>Encodings\<close>

definition decompressBody :: "(string \<Rightarrow> string option) \<Rightarrow> (string \<Rightarrow> string option) \<Rightarrow> string \<Rightarrow> string \<Rightarrow> string option" where
  "decompressBody gunzip inflate body encoding =
     (let e = ToLower (TrimSpace encoding) in
      if e = ''gzip'' then gunzip body else if e = ''deflate'' then inflate body else Some body)"

definition filterAcceptEncoding :: "string \<Rightarrow> string" where
  "filterAcceptEncoding acceptEncoding =
     (if acceptEncoding = [] then []
      else Join (map TrimSpace (filter (\<lambda>part. ToLower (TrimSpace (hd (Split part (CHR '';'')))) \<in> {''gzip'', ''deflate''})
             (Split acceptEncoding (CHR '','')))) '', '')"

subsection \<open>The monitor\<close>

record 'f metricsMonitor =
  metrics :: "'f TokenMetrics list"
  maxMetrics :: nat
  nextID :: int

definition newMetricsMonitor :: "nat \<Rightarrow> 'f metricsMonitor" where
  "newMetricsMonitor n = \<lparr>metrics = [], maxMetrics = n, nextID = 0\<rparr>"

text \<open>\<open>New\<close>: the configured bound, or its default.\<close>

definition configuredMaxMetrics :: "int \<Rightarrow> nat" where
  "configuredMaxMetrics n = (if n \<le> 0 then 1000 else nat n)"

definition getMetrics :: "'f metricsMonitor \<Rightarrow> 'f TokenMetrics list" where
  "getMetrics mp = metrics mp"

text \<open>What \<open>onRecord\<close> feeds: the usage meter, and the emitter of the debit log when there is one.\<close>

record 'f pipeline =
  pl_metrics :: "'f metricsMonitor"
  pl_usage :: UsageMeter
  pl_emitter :: "debitEmitter option"

record callWorld =
  w_done :: int
  w_parsed :: int
  w_recorded :: int
  w_random :: "8 word list option"

definition debit_of :: "'f TokenMetrics \<Rightarrow> string \<Rightarrow> DebitEvent" where
  "debit_of tm rid =
     \<lparr>RequestID = rid, Seq = 0, Ts = tm_Timestamp tm, ev_KeyFingerprint = tm_KeyFingerprint tm, ClientLabel = tm_Client tm,
      ev_Model = tm_Model tm, ev_InputTokens = tm_InputTokens tm, ev_OutputTokens = tm_OutputTokens tm,
      ev_Node = tm_Node tm, Country = tm_Country tm\<rparr>"

definition emitDebit :: "8 word list option \<Rightarrow> 'f TokenMetrics \<Rightarrow> debitEmitter option \<Rightarrow> debitEmitter option" where
  "emitDebit random tm em =
     (case em of
        None \<Rightarrow> None
      | Some e \<Rightarrow>
          (case mintRequestID random of
             None \<Rightarrow> Some e
           | Some rid \<Rightarrow> Some (Emit e (debit_of tm rid))))"

definition tm_call :: "int \<Rightarrow> 'f TokenMetrics \<Rightarrow> usageCall" where
  "tm_call now tm = usage_call (tm_Client tm) (tm_Model tm) (tm_Country tm) (tm_IP tm) (tm_InputTokens tm) (tm_OutputTokens tm) now"

definition addMetrics :: "callWorld \<Rightarrow> 'f TokenMetrics \<Rightarrow> 'f pipeline \<Rightarrow> 'f pipeline" where
  "addMetrics w tm pl =
     (let mp = pl_metrics pl;
          tm = tm\<lparr>tm_ID := nextID mp\<rparr>;
          ms = metrics mp @ [tm];
          ms = (if length ms > maxMetrics mp then drop (length ms - maxMetrics mp) ms else ms)
      in \<lparr>pl_metrics = mp\<lparr>nextID := nextID mp + 1, metrics := ms\<rparr>,
          pl_usage = um_Record (tm_call (w_recorded w) tm) (pl_usage pl),
          pl_emitter = emitDebit (w_random w) tm (pl_emitter pl)\<rparr>)"

subsection \<open>The wrapper\<close>

text \<open>The answer as the recorder has copied it; \<open>rp_start\<close> is the time of the first write, if there was one.\<close>

record reply =
  rp_status :: int
  rp_body :: string
  rp_start :: "int option"
  rp_encoding :: string
  rp_contentType :: string

definition attribute :: "ginCtx \<Rightarrow> string \<Rightarrow> 'f TokenMetrics \<Rightarrow> 'f TokenMetrics" where
  "attribute ctx node tm =
     tm\<lparr>tm_Client := gc_client ctx, tm_Country := gc_country ctx, tm_IP := gc_ip ctx,
        tm_KeyFingerprint := gc_fingerprint ctx, tm_Node := node\<rparr>"

definition minimalMetrics :: "('j, 'f) gjsonLib \<Rightarrow> callWorld \<Rightarrow> string \<Rightarrow> ginCtx \<Rightarrow> string \<Rightarrow> reply \<Rightarrow> 'f TokenMetrics" where
  "minimalMetrics lib w modelID ctx node r =
     attribute ctx node
       \<lparr>tm_ID = 0, tm_Timestamp = w_done w, tm_Model = modelID, tm_Client = [], tm_Country = [], tm_IP = [],
        tm_KeyFingerprint = [], tm_Node = [], CachedTokens = 0, tm_InputTokens = 0, tm_OutputTokens = 0,
        PromptPerSecond = fp_zero lib, TokensPerSecond = fp_zero lib, DurationMs = since_ms (w_done w) (rp_start r)\<rparr>"

text \<open>The metric of a served answer, and whether its counts are handed to the credit gate.\<close>

definition metric_of :: "('j, 'f) gjsonLib \<Rightarrow> (string \<Rightarrow> string option) \<Rightarrow> (string \<Rightarrow> string option) \<Rightarrow> callWorld
    \<Rightarrow> string \<Rightarrow> ginCtx \<Rightarrow> string \<Rightarrow> reply \<Rightarrow> 'f TokenMetrics \<times> bool" where
  "metric_of lib gunzip inflate w modelID ctx node r =
     (let tm = minimalMetrics lib w modelID ctx node r in
      if length (rp_body r) = 0 then (tm, False)
      else case (if rp_encoding r \<noteq> [] then decompressBody gunzip inflate (rp_body r) (rp_encoding r) else Some (rp_body r)) of
        None \<Rightarrow> (tm, False)
      | Some body \<Rightarrow>
          (let tm =
             (if Contains (rp_contentType r) ''text/event-stream''
              then (case processStreamingResponse lib (w_parsed w) modelID (rp_start r) body of None \<Rightarrow> tm | Some parsed \<Rightarrow> parsed)
              else (case usage_of lib body of
                      None \<Rightarrow> tm
                    | Some (usage, timings) \<Rightarrow> parseMetrics lib (w_parsed w) modelID (rp_start r) usage timings))
           in (attribute ctx node tm, True)))"

text \<open>
  \<open>next\<close> is the dispatch under the request's headers: the node it leaves in the request's slot and the answer;
  \<open>Inl\<close> is its error, before any byte of an answer.
\<close>

definition metricsHeaders :: "http_headers \<Rightarrow> http_headers" where
  "metricsHeaders h =
     (if GetHeader h ''accept-encoding'' \<noteq> []
      then h(''accept-encoding'' \<mapsto> filterAcceptEncoding (GetHeader h ''accept-encoding'')) else h)"

definition wrapHandler :: "('j, 'f) gjsonLib \<Rightarrow> (string \<Rightarrow> string option) \<Rightarrow> (string \<Rightarrow> string option) \<Rightarrow> callWorld
    \<Rightarrow> string \<Rightarrow> ginCtx \<Rightarrow> (http_headers \<Rightarrow> unit + string \<times> reply) \<Rightarrow> http_headers \<Rightarrow> creditCapture option \<Rightarrow> 'f pipeline
    \<Rightarrow> 'f pipeline \<times> creditCapture option \<times> (unit + unit)" where
  "wrapHandler lib gunzip inflate w modelID ctx next h cap pl =
     (case next (metricsHeaders h) of
        Inl err \<Rightarrow> (pl, cap, Inl err)
      | Inr (node, r) \<Rightarrow>
          (let cap = setCreditCaptureStatus cap (rp_status r) in
           if rp_status r \<noteq> 200 then (pl, cap, Inr ())
           else case metric_of lib gunzip inflate w modelID ctx node r of
             (tm, feeds) \<Rightarrow>
               (addMetrics w tm pl,
                if feeds then setCreditCaptureTokens cap (tm_InputTokens tm) (tm_OutputTokens tm) else cap,
                Inr ())))"

subsection \<open>The backward scan finds the last usage\<close>

lemma Split_mid: "Split (a @ sep # b) sep = Split a sep @ Split b sep"
  by (induction a) (auto split: list.split)

lemma stream_scan_lines:
  "stream_scan lib body pos =
     Option.bind (find (\<lambda>l. stream_line lib (TrimSpace l) \<noteq> None) (rev (Split (take pos body) newline)))
       (\<lambda>l. stream_line lib (TrimSpace l))"
proof (induction pos rule: less_induct)
  case (less pos)
  let ?p = "take pos body"
  have empty: "stream_line lib (TrimSpace []) = None" by (simp add: stream_line_def)
  show ?case
  proof (cases "LastIndexByte ?p newline")
    case None
    then have "newline \<notin> set ?p" by (simp add: LastIndexByte_None)
    then have sp: "Split ?p newline = [?p]" by (rule Split_no_occ)
    have "stream_scan lib body 0 = None" by (simp add: stream_scan.simps)
    then show ?thesis
      using None empty by (subst stream_scan.simps) (auto simp: sp lineStart_def Let_def split: option.split)
  next
    case (Some i)
    note at = LastIndexByte_Some [OF Some]
    have i: "i < pos" using at by simp
    then have ti: "take i ?p = take i body" by (simp add: min.absorb1)
    have p: "?p = take i body @ newline # drop (Suc i) ?p" and no: "newline \<notin> set (drop (Suc i) ?p)"
      using at unfolding ti by blast+
    have sp: "Split ?p newline = Split (take i body) newline @ [drop (Suc i) ?p]"
      using arg_cong [OF p, of "\<lambda>s. Split s newline"] by (simp only: Split_mid Split_no_occ [OF no])
    have "pos \<noteq> 0" using i by simp
    then show ?thesis
      by (subst stream_scan.simps) (simp add: Some lineStart_def Let_def sp less.IH [OF i] split: option.split)
  qed
qed

text \<open>
  C7. The streamed usage: the backward scan of an event stream finds exactly the last line of the body - split at
  newlines, without surrounding space - that is a \<open>data:\<close> line with a usage or timings in it, and the metric is
  parsed from that line; when there is none the scan ends without a result.
\<close>

theorem streaming_last_usage:
  "processStreamingResponse lib now modelID start body =
     (case filter (\<lambda>line. stream_line lib (TrimSpace line) \<noteq> None) (Split body newline) of
        [] \<Rightarrow> None
      | hits \<Rightarrow> (case stream_line lib (TrimSpace (last hits)) of
          None \<Rightarrow> None
        | Some (usage, timings) \<Rightarrow> Some (parseMetrics lib now modelID start usage timings)))"
proof -
  have find: "find P (rev xs) = (if filter P xs = [] then None else Some (last (filter P xs)))" for P and xs :: "string list"
    by (induction xs rule: rev_induct) auto
  show ?thesis
    by (simp add: processStreamingResponse_def stream_scan_lines find split: list.split)
qed

text \<open>
  A usage without a prompt count bills no prompt, whatever earlier lines say: the counts of a stream come from one
  line alone.
\<close>

lemma prompt_of_last_line:
  assumes "Split body newline = before @ [line]" "stream_line lib (TrimSpace line) = Some (Some usage, None)"
    and "gj_Get lib usage ''prompt_tokens'' = None" "gj_Get lib usage ''input_tokens'' = None"
  shows "\<exists>tm. processStreamingResponse lib now modelID start body = Some tm \<and> tm_InputTokens tm = 0"
  using assms by (simp add: processStreamingResponse_def stream_scan_lines parseMetrics_def Let_def)

text \<open>An answer without a body is recorded as having taken as long as a duration can be.\<close>

lemma empty_body_duration:
  assumes "rp_body r = []" "rp_start r = None"
  shows "DurationMs (fst (metric_of lib gunzip inflate w modelID ctx node r)) = 9223372036854"
  using assms by (simp add: metric_of_def Let_def minimalMetrics_def attribute_def since_ms_def go_quot_def)

subsection \<open>The pipeline as a whole\<close>

text \<open>
  Requests through the wrapper, interleaved with the two actions of the debit log's writer and with resets and
  flushes of the usage meter. \<open>app\<close> is the append of the log.
\<close>

record metricsCall =
  mc_world :: callWorld
  mc_model :: string
  mc_ctx :: ginCtx
  mc_headers :: http_headers
  mc_next :: "http_headers \<Rightarrow> unit + string \<times> reply"

datatype pipe_op = PCall metricsCall | PReceive | PAppend | PReset | PFlush

definition freshCapture :: creditCapture where
  "freshCapture = \<lparr>status = 0, cap_input = 0, cap_output = 0\<rparr>"

fun pipe_do :: "('j, 'f) gjsonLib \<Rightarrow> (string \<Rightarrow> string option) \<Rightarrow> (string \<Rightarrow> string option) \<Rightarrow> (usagePersist \<Rightarrow> string option)
    \<Rightarrow> ('s \<Rightarrow> DebitEvent \<Rightarrow> 's \<times> bool) \<Rightarrow> pipe_op \<Rightarrow> 'f pipeline \<times> 's \<Rightarrow> 'f pipeline \<times> 's" where
  "pipe_do lib gunzip inflate enc app (PCall c) (pl, s) =
     (fst (wrapHandler lib gunzip inflate (mc_world c) (mc_model c) (mc_ctx c) (mc_next c) (mc_headers c) (Some freshCapture) pl), s)"
| "pipe_do lib gunzip inflate enc app PReceive (pl, s) = (pl\<lparr>pl_emitter := map_option run_receive (pl_emitter pl)\<rparr>, s)"
| "pipe_do lib gunzip inflate enc app PAppend (pl, s) =
     (case pl_emitter pl of
        None \<Rightarrow> (pl, s)
      | Some e \<Rightarrow> (case run_append app (e, s) of (e, s) \<Rightarrow> (pl\<lparr>pl_emitter := Some e\<rparr>, s)))"
| "pipe_do lib gunzip inflate enc app PReset (pl, s) = (pl\<lparr>pl_usage := usage_do enc DoReset (pl_usage pl)\<rparr>, s)"
| "pipe_do lib gunzip inflate enc app PFlush (pl, s) = (pl\<lparr>pl_usage := usage_do enc DoFlush (pl_usage pl)\<rparr>, s)"

text \<open>What a request leaves: the metric of an answer with status 200, nothing otherwise.\<close>

definition answered :: "('j, 'f) gjsonLib \<Rightarrow> (string \<Rightarrow> string option) \<Rightarrow> (string \<Rightarrow> string option) \<Rightarrow> metricsCall \<Rightarrow> 'f TokenMetrics option" where
  "answered lib gunzip inflate c =
     (case mc_next c (metricsHeaders (mc_headers c)) of
        Inl _ \<Rightarrow> None
      | Inr (node, r) \<Rightarrow>
          if rp_status r \<noteq> 200 then None
          else Some (fst (metric_of lib gunzip inflate (mc_world c) (mc_model c) (mc_ctx c) node r)))"

fun answers :: "('j, 'f) gjsonLib \<Rightarrow> (string \<Rightarrow> string option) \<Rightarrow> (string \<Rightarrow> string option) \<Rightarrow> pipe_op list \<Rightarrow> (callWorld \<times> 'f TokenMetrics) list" where
  "answers lib gunzip inflate [] = []"
| "answers lib gunzip inflate (PCall c # ops) =
     (case answered lib gunzip inflate c of None \<Rightarrow> [] | Some tm \<Rightarrow> [(mc_world c, tm)]) @ answers lib gunzip inflate ops"
| "answers lib gunzip inflate (_ # ops) = answers lib gunzip inflate ops"

lemma answers_append: "answers lib gunzip inflate (xs @ ys) = answers lib gunzip inflate xs @ answers lib gunzip inflate ys"
  by (induction xs rule: answers.induct) auto

text \<open>The projections of a run to the components it drives.\<close>

definition usage_ops :: "('j, 'f) gjsonLib \<Rightarrow> (string \<Rightarrow> string option) \<Rightarrow> (string \<Rightarrow> string option) \<Rightarrow> pipe_op \<Rightarrow> usage_op list" where
  "usage_ops lib gunzip inflate op = (case op of
      PCall c \<Rightarrow> map (\<lambda>(w, tm). DoRecord (tm_call (w_recorded w) tm)) (answers lib gunzip inflate [op])
    | PReset \<Rightarrow> [DoReset] | PFlush \<Rightarrow> [DoFlush] | _ \<Rightarrow> [])"

definition debit_events :: "(callWorld \<times> 'f TokenMetrics) list \<Rightarrow> DebitEvent list" where
  "debit_events ans = List.map_filter (\<lambda>(w, tm). map_option (debit_of tm) (mintRequestID (w_random w))) ans"

definition emitter_ops :: "('j, 'f) gjsonLib \<Rightarrow> (string \<Rightarrow> string option) \<Rightarrow> (string \<Rightarrow> string option) \<Rightarrow> pipe_op \<Rightarrow> em_op list" where
  "emitter_ops lib gunzip inflate op = (case op of
      PCall c \<Rightarrow> map EEmit (debit_events (answers lib gunzip inflate [op]))
    | PReceive \<Rightarrow> [EReceive] | PAppend \<Rightarrow> [EAppend] | _ \<Rightarrow> [])"

lemma wrap_answered:
  "fst (wrapHandler lib gunzip inflate (mc_world c) (mc_model c) (mc_ctx c) (mc_next c) (mc_headers c) cap pl) =
     (case answered lib gunzip inflate c of None \<Rightarrow> pl | Some tm \<Rightarrow> addMetrics (mc_world c) tm pl)"
  by (auto simp: wrapHandler_def answered_def Let_def split: sum.split prod.split)

lemma tm_ID_ignored [simp]:
  "tm_call now (tm\<lparr>tm_ID := i\<rparr>) = tm_call now tm" "debit_of (tm\<lparr>tm_ID := i\<rparr>) = debit_of tm"
  by (auto simp: tm_call_def debit_of_def)

lemma pipe_usage:
  "pl_usage (fst (fold (pipe_do lib gunzip inflate enc app) ops (pl, s))) =
     fold (usage_do enc) (concat (map (usage_ops lib gunzip inflate) ops)) (pl_usage pl)"
proof (induction ops arbitrary: pl s)
  case (Cons op' ops)
  obtain pl' s' where 1: "pipe_do lib gunzip inflate enc app op' (pl, s) = (pl', s')" by fastforce
  then have "pl_usage pl' = fold (usage_do enc) (usage_ops lib gunzip inflate op') (pl_usage pl)"
    by (cases op') (auto simp: usage_ops_def wrap_answered addMetrics_def Let_def split: option.splits prod.splits)
  with Cons.IH show ?case by (simp add: 1)
qed simp

lemma pipe_emitter:
  assumes "pl_emitter pl = Some e"
  shows "\<exists>e'. pl_emitter (fst (fold (pipe_do lib gunzip inflate enc app) ops (pl, s))) = Some e'
    \<and> (e', snd (fold (pipe_do lib gunzip inflate enc app) ops (pl, s))) =
        em_run app (e, s) (concat (map (emitter_ops lib gunzip inflate) ops))"
  using assms
proof (induction ops arbitrary: pl s e)
  case (Cons op' ops)
  obtain pl' s' where 1: "pipe_do lib gunzip inflate enc app op' (pl, s) = (pl', s')" by fastforce
  have "\<exists>e1. pl_emitter pl' = Some e1 \<and> (e1, s') = em_run app (e, s) (emitter_ops lib gunzip inflate op')"
    using 1 Cons.prems
    by (cases op') (auto simp: emitter_ops_def debit_events_def map_filter_simps wrap_answered addMetrics_def emitDebit_def
        Let_def split: option.splits prod.splits)
  then obtain e1 where e1: "pl_emitter pl' = Some e1" "em_run app (e, s) (emitter_ops lib gunzip inflate op') = (e1, s')" by metis
  show ?case using Cons.IH [OF e1(1), of s'] by (simp add: 1 em_run_append e1(2))
qed simp

text \<open>The monitor keeps the last metrics, numbered from the first on.\<close>

definition numbered :: "'f TokenMetrics list \<Rightarrow> 'f TokenMetrics list" where
  "numbered ms = map (\<lambda>(i, tm). tm\<lparr>tm_ID := int i\<rparr>) (enumerate 0 ms)"

lemma numbered_snoc: "numbered (ms @ [tm]) = numbered ms @ [tm\<lparr>tm_ID := int (length ms)\<rparr>]"
  by (simp add: numbered_def enumerate_append_eq)

lemma length_numbered [simp]: "length (numbered ms) = length ms"
  by (simp add: numbered_def)

lemma pipe_metrics:
  assumes "pl_metrics pl = newMetricsMonitor n"
  shows "pl_metrics (fst (fold (pipe_do lib gunzip inflate enc app) ops (pl, s))) =
     (let ms = map snd (answers lib gunzip inflate ops) in
      \<lparr>metrics = drop (length ms - n) (numbered ms), maxMetrics = n, nextID = int (length ms)\<rparr>)"
proof (induction ops rule: rev_induct)
  case Nil
  then show ?case by (simp add: assms newMetricsMonitor_def numbered_def)
next
  case (snoc op' ops)
  obtain pl' s' where 1: "fold (pipe_do lib gunzip inflate enc app) ops (pl, s) = (pl', s')" by fastforce
  note IH = snoc [unfolded 1 fst_conv]
  show ?case
  proof (cases "\<exists>c tm. op' = PCall c \<and> answered lib gunzip inflate c = Some tm")
    case True
    then show ?thesis
      using IH by (auto simp: 1 wrap_answered addMetrics_def Let_def answers_append numbered_snoc Suc_diff_le)
  next
    case False
    then show ?thesis
      using IH by (cases op') (auto simp: 1 wrap_answered answers_append split: option.splits prod.splits)
  qed
qed

subsection \<open>One bill for one answer\<close>

text \<open>Without a close, every event offered to the emitter is accepted or counted as dropped.\<close>

definition offered :: "em_op list \<Rightarrow> DebitEvent list" where
  "offered xs = List.map_filter (\<lambda>x. case x of EEmit ev \<Rightarrow> Some ev | _ \<Rightarrow> None) xs"

lemma offered_simps [simp]:
  "offered [] = []" "offered (EEmit ev # xs) = ev # offered xs" "offered (EReceive # xs) = offered xs"
  "offered (EAppend # xs) = offered xs" "offered (xs @ ys) = offered xs @ offered ys"
  by (simp_all add: offered_def map_filter_def)

lemma offered_EEmit [simp]: "offered (map EEmit evs) = evs"
  by (induction evs) simp_all

lemma open_run:
  assumes "EClose \<notin> set xs" "\<not> em_closed e"
  shows "int (length (accepted app (e, s) xs)) + overflows app (e, s) xs = int (length (offered xs))
    \<and> 0 \<le> overflows app (e, s) xs
    \<and> (overflows app (e, s) xs = 0 \<longrightarrow> accepted app (e, s) xs = offered xs)"
  using assms
proof (induction xs arbitrary: e s)
  case (Cons x xs)
  obtain e' s' where 1: "em_do app (e, s) x = (e', s')" by fastforce
  have "\<not> em_closed e'"
    using 1 Cons.prems by (cases x) (auto simp: Emit_def run_receive_def run_append_def split: if_splits option.splits list.splits prod.splits)
  with Cons.IH [of e' s'] Cons.prems 1 show ?case by (cases x) auto
qed simp

lemma debit_events_append: "debit_events (xs @ ys) = debit_events xs @ debit_events ys"
  by (simp add: debit_events_def map_filter_def)

lemma debit_events_Nil [simp]: "debit_events [] = []"
  by (simp add: debit_events_def map_filter_def)

lemma emitter_ops_simps:
  "emitter_ops lib gunzip inflate (PCall c) = map EEmit (debit_events (answers lib gunzip inflate [PCall c]))"
  "emitter_ops lib gunzip inflate PReceive = [EReceive]" "emitter_ops lib gunzip inflate PAppend = [EAppend]"
  "emitter_ops lib gunzip inflate PReset = []" "emitter_ops lib gunzip inflate PFlush = []"
  by (simp_all add: emitter_ops_def)

lemma offered_ops:
  "offered (concat (map (emitter_ops lib gunzip inflate) ops)) = debit_events (answers lib gunzip inflate ops)"
  "EClose \<notin> set (concat (map (emitter_ops lib gunzip inflate) ops))"
proof (induction ops)
  case (Cons op' ops)
  have one: "answers lib gunzip inflate (op' # ops) = answers lib gunzip inflate [op'] @ answers lib gunzip inflate ops"
    using answers_append [of lib gunzip inflate "[op']" ops] by simp
  show "offered (concat (map (emitter_ops lib gunzip inflate) (op' # ops))) = debit_events (answers lib gunzip inflate (op' # ops))"
    unfolding one debit_events_append using Cons.IH(1)
    by (cases op') (simp_all add: emitter_ops_simps del: answers.simps(2))
  show "EClose \<notin> set (concat (map (emitter_ops lib gunzip inflate) (op' # ops)))"
    using Cons.IH(2) by (cases op') (auto simp: emitter_ops_simps)
qed simp_all

definition after_reset :: "pipe_op list \<Rightarrow> pipe_op list" where
  "after_reset ops = rev (takeWhile (\<lambda>x. case x of PReset \<Rightarrow> False | _ \<Rightarrow> True) (rev ops))"

lemma since_ops:
  "fold since_reset (concat (map (usage_ops lib gunzip inflate) ops)) [] =
     map (\<lambda>(w, tm). tm_call (w_recorded w) tm) (answers lib gunzip inflate (after_reset ops))"
proof (induction ops rule: rev_induct)
  case (snoc op' ops)
  have rec: "fold since_reset (map (\<lambda>(w, tm). DoRecord (tm_call (w_recorded w) tm)) ans) calls =
      calls @ map (\<lambda>(w, tm). tm_call (w_recorded w) tm) ans" for ans :: "(callWorld \<times> 'b TokenMetrics) list" and calls
    by (induction ans arbitrary: calls) auto
  show ?case
    using snoc by (cases op') (simp_all add: usage_ops_def after_reset_def answers_append rec del: answers.simps, simp_all)
qed (simp add: after_reset_def)

lemma answered_attributed:
  "answered lib gunzip inflate c = Some tm \<Longrightarrow>
     tm_KeyFingerprint tm = gc_fingerprint (mc_ctx c) \<and> tm_Client tm = gc_client (mc_ctx c)"
  by (auto simp: answered_def metric_of_def minimalMetrics_def attribute_def Let_def
      split: sum.splits prod.splits if_splits option.splits)

lemma answers_attributed:
  "(w, tm) \<in> set (answers lib gunzip inflate ops) \<Longrightarrow>
     \<exists>c. PCall c \<in> set ops \<and> mc_world c = w \<and> tm_KeyFingerprint tm = gc_fingerprint (mc_ctx c) \<and> tm_Client tm = gc_client (mc_ctx c)"
proof (induction ops rule: answers.induct)
  case (2 lib gunzip inflate c ops)
  then show ?case by (auto dest: answered_attributed dest!: sym [of "Some _"] split: option.splits)
qed auto

text \<open>
  C2. One bill for one answer: through any requests, writer steps, resets and flushes - with an open debit log,
  whatever its disk does - every answer with status 200 is recorded once, under its request's key and client, and no
  other request is. The monitor keeps the last of them, numbered from the first on; the usage meter shows per client
  exactly those since the last reset; and each one whose request id could be minted is in the debit log, waiting,
  or counted as dropped or failed - and while none is dropped or failed, the log and what is waiting are
  exactly those events in order, with the same counts.
\<close>

theorem billing_pipeline:
  assumes "opened dl"
  shows "let start = (\<lparr>pl_metrics = newMetricsMonitor n,
               pl_usage = NewUsageMeter decode \<lparr>uf_main = None, uf_tmp = t\<rparr> path,
               pl_emitter = Some (newDebitEmitter depth)\<rparr>, ((dl, d), outcomes));
             (pl, ((dl', d'), _)) = fold (pipe_do lib gunzip inflate enc (log_append marshal)) ops start;
             ans = answers lib gunzip inflate ops; e = the (pl_emitter pl); events = debit_events ans;
             waiting = (case in_hand e of None \<Rightarrow> [] | Some ev \<Rightarrow> [ev]) @ ch e;
             calls = map (\<lambda>(w, tm). tm_call (w_recorded w) tm) (answers lib gunzip inflate (after_reset ops)) in
     metrics (pl_metrics pl) = drop (length ans - n) (numbered (map snd ans))
   \<and> (\<forall>k. map_option client_total (map_of (um_clients (pl_usage pl)) k) = tally (\<lambda>c. uc_client c = k) calls)
   \<and> int (length events) = appendedCount e + failedCount e + droppedCount e + int (length waiting)
   \<and> int (length (dl_events dl')) = int (length (dl_events dl)) + appendedCount e
   \<and> (failedCount e = 0 \<and> droppedCount e = 0 \<longrightarrow>
        map (\<lambda>ev. ev\<lparr>Seq := 0\<rparr>) (dl_events dl' @ waiting) = map (\<lambda>ev. ev\<lparr>Seq := 0\<rparr>) (dl_events dl @ events))
   \<and> (\<forall>(w, tm) \<in> set ans. \<exists>c. PCall c \<in> set ops \<and> mc_world c = w
        \<and> tm_KeyFingerprint tm = gc_fingerprint (mc_ctx c) \<and> tm_Client tm = gc_client (mc_ctx c))"
proof -
  let ?um = "NewUsageMeter decode \<lparr>uf_main = None, uf_tmp = t\<rparr> path" and ?e = "newDebitEmitter depth"
  let ?pl = "\<lparr>pl_metrics = newMetricsMonitor n :: 'a metricsMonitor, pl_usage = ?um, pl_emitter = Some ?e\<rparr>"
  let ?run = "fold (pipe_do lib gunzip inflate enc (log_append marshal)) ops (?pl, ((dl, d), outcomes))"
  let ?ops = "concat (map (emitter_ops lib gunzip inflate) ops)"
  obtain pl dl' d' outs where run: "?run = (pl, ((dl', d'), outs))" by (metis prod.exhaust)
  obtain e where e: "pl_emitter pl = Some e" "em_run (log_append marshal) (?e, ((dl, d), outcomes)) ?ops = (e, ((dl', d'), outs))"
    using pipe_emitter [of ?pl ?e lib gunzip inflate enc "log_append marshal" ops "((dl, d), outcomes)"] by (auto simp: run)
  have "opened (fst (fst ((dl, d), outcomes)))" using assms by simp
  note acc = log_sink.em_run_accounts [OF this, where marshal = marshal and e = ?e and xs = ?ops, unfolded e(2) split]
  have "\<not> em_closed ?e" by (simp add: newDebitEmitter_def)
  note offer = open_run [OF offered_ops(2) this, unfolded offered_ops(1), of "log_append marshal" "((dl, d), outcomes)" lib gunzip inflate ops]
  have "meter_ok [] ?um" by (simp add: NewUsageMeter_def um_load_def meter_ok_clear)
  from meter_ok_run [OF this, where encode = enc and ops = "concat (map (usage_ops lib gunzip inflate) ops)"]
  have usage: "meter_ok (fold since_reset (concat (map (usage_ops lib gunzip inflate) ops)) []) (pl_usage pl)"
    using pipe_usage [of lib gunzip inflate enc "log_append marshal" ops ?pl "((dl, d), outcomes)"] by (simp add: run)
  have ms: "pl_metrics pl = (let ms = map snd (answers lib gunzip inflate ops) in
      \<lparr>metrics = drop (length ms - n) (numbered ms), maxMetrics = n, nextID = int (length ms)\<rparr>)"
    using pipe_metrics [of ?pl n lib gunzip inflate enc "log_append marshal" ops "((dl, d), outcomes)"] by (simp add: run)
  have em: "em_dropped ?e = 0" "em_appended ?e = 0" "em_failed ?e = 0" "log_sink.backlog ?e = []"
    by (simp_all add: newDebitEmitter_def log_backlog)
  show ?thesis
    using acc offer usage unfolding run Let_def split em since_ops
    by (auto simp: ms Let_def e(1) appendedCount_def failedCount_def droppedCount_def log_backlog [symmetric]
        payload_def [abs_def] meter_ok_def by_client.tallied_def dest: answers_attributed)
qed

text \<open>A library whose documents are values with decimal counts, one document, and one answer.\<close>

definition any_gjson :: "(string \<Rightarrow> any option) \<Rightarrow> (any, int) gjsonLib" where
  "any_gjson parse = \<lparr>gj_parse = parse, gj_Get = (\<lambda>j k. case j of VMap kvs \<Rightarrow> map_of kvs k | _ \<Rightarrow> None),
     gj_Int = (\<lambda>j. case j of Some (VInt n) \<Rightarrow> n | _ \<Rightarrow> 0), gj_Float = (\<lambda>j. case j of Some (VInt n) \<Rightarrow> n | _ \<Rightarrow> 0),
     fp_zero = 0, fp_minus1 = - 1, fp_add = (+), fp_int = (\<lambda>x. x)\<rparr>"

definition sample_gjson :: "(any, int) gjsonLib" where
  "sample_gjson = any_gjson (\<lambda>b. if b = ''{}''
     then Some (VMap [(''usage'', VMap [(''prompt_tokens'', VInt 6), (''completion_tokens'', VInt 4)])]) else None)"

definition sample_call :: metricsCall where
  "sample_call = \<lparr>mc_world = \<lparr>w_done = 5000000, w_parsed = 5000000, w_recorded = 6000000, w_random = Some (replicate 16 0)\<rparr>,
     mc_model = ''m'', mc_ctx = \<lparr>gc_client = ''ann'', gc_fingerprint = ''k'', gc_country = ''DE'', gc_ip = ''10.0.0.1''\<rparr>,
     mc_headers = Map.empty,
     mc_next = (\<lambda>h. Inr (''n1'', \<lparr>rp_status = 200, rp_body = ''{}'', rp_start = Some 1000000, rp_encoding = [],
       rp_contentType = ''application/json''\<rparr>))\<rparr>"

lemma sample_answered:
  "\<exists>tm. answered sample_gjson Some Some sample_call = Some tm \<and> tm_InputTokens tm = 6 \<and> tm_OutputTokens tm = 4
     \<and> tm_Client tm = ''ann''"
  by (simp add: answered_def sample_call_def metric_of_def Let_def usage_of_def sample_gjson_def any_gjson_def
      parseMetrics_def attribute_def HasPrefix_def)

theorem billing_pipeline_witness:
  "let start = (\<lparr>pl_metrics = newMetricsMonitor 1, pl_usage = NewUsageMeter (\<lambda>_. None) \<lparr>uf_main = None, uf_tmp = None\<rparr> [],
         pl_emitter = Some (newDebitEmitter 1)\<rparr>, (newDebitLog line_unmarshal ''/log'' False False False None, []));
       (pl, _) = fold (pipe_do sample_gjson Some Some (\<lambda>_. None) (log_append line_marshal))
         [PCall sample_call, PReceive, PReset, PCall sample_call, PCall sample_call, PAppend] start;
       e = the (pl_emitter pl); waiting = (case in_hand e of None \<Rightarrow> [] | Some ev \<Rightarrow> [ev]) @ ch e in
   length (metrics (pl_metrics pl)) = 1
   \<and> map_option client_total (map_of (um_clients (pl_usage pl)) ''ann'')
        = Some \<lparr>mu_Requests = 2, mu_InputTokens = 12, mu_OutputTokens = 8\<rparr>
   \<and> appendedCount e + failedCount e + droppedCount e + int (length waiting) = 3"
proof -
  let ?log = "newDebitLog line_unmarshal ''/log'' False False False None"
  let ?ops = "[PCall sample_call, PReceive, PReset, PCall sample_call, PCall sample_call, PAppend]"
  have log: "opened (fst ?log)" "?log = (fst ?log, snd ?log)" by (simp_all add: newDebitLog_def load_def)
  obtain tm where tm: "answered sample_gjson Some Some sample_call = Some tm" "tm_InputTokens tm = 6" "tm_OutputTokens tm = 4"
    "tm_Client tm = ''ann''" using sample_answered by blast
  have ans: "answers sample_gjson Some Some ?ops = replicate 3 (mc_world sample_call, tm)"
    "answers sample_gjson Some Some (after_reset ?ops) = replicate 2 (mc_world sample_call, tm)"
    by (simp_all add: tm(1) numeral_eq_Suc after_reset_def)
  have rnd: "\<exists>rid. mintRequestID (w_random (mc_world sample_call)) = Some rid"
    by (simp add: sample_call_def mintRequestID_def Let_def)
  then have ev: "length (debit_events (replicate 3 (mc_world sample_call, tm))) = 3"
    by (auto simp: debit_events_def numeral_eq_Suc map_filter_simps)
  have call: "uc_client (tm_call now tm) = ''ann''" "uc_in (tm_call now tm) = 6" "uc_out (tm_call now tm) = 4" for now
    by (simp_all add: tm_call_def usage_call_def tm)
  have t: "tally (\<lambda>c. uc_client c = ''ann'') (replicate 2 (tm_call (w_recorded (mc_world sample_call)) tm))
      = Some \<lparr>mu_Requests = 2, mu_InputTokens = 12, mu_OutputTokens = 8\<rparr>"
    by (simp add: tally_def call numeral_eq_Suc in_i64_def)
  show ?thesis
    using billing_pipeline [OF log(1), of 1 "\<lambda>_. None" None "[]" 1 "snd ?log" "[]" sample_gjson Some Some "\<lambda>_. None" line_marshal ?ops,
        unfolded log(2) [symmetric] ans]
    by (auto simp: Let_def ev t simp del: map_option_eq_Some split: prod.splits)
qed

subsection \<open>The gate bills what is recorded\<close>

lemma capture_charge:
  "charge pb model cost (the (fst (snd (wrapHandler lib gunzip inflate (mc_world c) (mc_model c) (mc_ctx c) (mc_next c) (mc_headers c)
       (Some freshCapture) pl)))) =
     (case answered lib gunzip inflate c of
        None \<Rightarrow> 0
      | Some tm \<Rightarrow>
          if tm_InputTokens tm \<le> 0 \<and> tm_OutputTokens tm \<le> 0 then max 0 cost
          else case ActualCost pb model (tm_InputTokens tm) (tm_OutputTokens tm) of
            None \<Rightarrow> 0 | Some actual \<Rightarrow> min (max 0 cost) (max 0 actual))"
proof -
  have zero: "tm_InputTokens tm = 0 \<and> tm_OutputTokens tm = 0"
    if "metric_of lib gunzip inflate w m ctx node r = (tm, False)" for w m ctx node r tm
    using that by (auto simp: metric_of_def minimalMetrics_def attribute_def Let_def split: option.splits if_splits)
  show ?thesis
  proof (cases "mc_next c (metricsHeaders (mc_headers c))")
    case (Inl err)
    then show ?thesis by (simp add: wrapHandler_def answered_def freshCapture_def charge_def)
  next
    case (Inr nr)
    obtain node r where nr: "nr = (node, r)" by fastforce
    obtain tm feeds where m: "metric_of lib gunzip inflate (mc_world c) (mc_model c) (mc_ctx c) node r = (tm, feeds)" by fastforce
    then show ?thesis
      using Inr nr zero [of "mc_world c" "mc_model c" "mc_ctx c" node r tm]
      by (cases feeds) (auto simp: wrapHandler_def answered_def freshCapture_def charge_def setCreditCaptureStatus_def
          setCreditCaptureTokens_def Let_def)
  qed
qed

text \<open>
  C6. The gate bills what is recorded: a metered request that the gate admits and the metrics wrapper serves costs its
  key nothing unless it is answered 200, and then exactly the price of the token counts in the one metric that is
  recorded for it - the counts the usage meter and the debit log get - capped at the hold; an answer without counts
  costs the whole hold, never nothing. No other key's balance moves.
\<close>

theorem billed_as_recorded:
  assumes "enforce g" "prices g = Some pb" "g_ledger g = Some l" "\<not> g_broken g"
    and "ReserveCost pb model promptUpper requestedMax = Some cost" "max 0 cost \<le> avail l key"
  shows "case wrapHandler lib gunzip inflate (mc_world c) (mc_model c) (mc_ctx c) (mc_next c) (mc_headers c)
           (Some freshCapture) pl of (pl', cap, _) \<Rightarrow>
     case meteredRequest g True key model promptUpper requestedMax (\<lambda>g. (g, the cap)) of (g', response) \<Rightarrow>
       response = Inr (Some ()) \<and> (\<exists>l'. g_ledger g' = Some l' \<and> avail l' = (avail l)(key := avail l key -
          (case answered lib gunzip inflate c of
             None \<Rightarrow> 0
           | Some tm \<Rightarrow>
               if tm_InputTokens tm \<le> 0 \<and> tm_OutputTokens tm \<le> 0 then max 0 cost
               else case ActualCost pb model (tm_InputTokens tm) (tm_OutputTokens tm) of
                 None \<Rightarrow> 0 | Some actual \<Rightarrow> min (max 0 cost) (max 0 actual)))
     \<and> pl' = (case answered lib gunzip inflate c of None \<Rightarrow> pl | Some tm \<Rightarrow> addMetrics (mc_world c) tm pl))"
proof -
  obtain pl' cap res where w: "wrapHandler lib gunzip inflate (mc_world c) (mc_model c) (mc_ctx c) (mc_next c) (mc_headers c)
      (Some freshCapture) pl = (pl', cap, res)" by (metis prod.exhaust)
  note charged = capture_charge [of pb model cost lib gunzip inflate c pl, unfolded w fst_conv snd_conv]
  have "\<not> avail l key < max 0 cost" using assms(6) by linarith
  with metered_charge [OF assms(1-5), of key "the cap"]
  show ?thesis
    using wrap_answered [of lib gunzip inflate c "Some freshCapture" pl]
    by (simp add: w charged split: prod.splits) blast
qed

theorem billed_as_recorded_witness:
  "let g = newCreditGate True (Some (ledger_run newCreditLedger [OSetAllowance ''k'' 50 0 1]))
         (Some [''m'' \<mapsto> \<lparr>InputPer1k = 1000, OutputPer1k = 2000, MaxOutputTokens = 10\<rparr>]) in
   case wrapHandler sample_gjson Some Some (mc_world sample_call) (mc_model sample_call) (mc_ctx sample_call) (mc_next sample_call)
          (mc_headers sample_call) (Some freshCapture)
          \<lparr>pl_metrics = newMetricsMonitor 1, pl_usage = NewUsageMeter (\<lambda>_. None) \<lparr>uf_main = None, uf_tmp = None\<rparr> [],
           pl_emitter = None\<rparr> of (pl', cap, _) \<Rightarrow>
     \<exists>l'. g_ledger (fst (meteredRequest g True ''k'' ''m'' 8 5 (\<lambda>g. (g, the cap)))) = Some l' \<and> avail l' ''k'' = 36"
proof -
  let ?l = "ledger_run newCreditLedger [OSetAllowance ''k'' 50 0 1]"
  let ?pb = "[''m'' \<mapsto> \<lparr>InputPer1k = 1000, OutputPer1k = 2000, MaxOutputTokens = 10\<rparr>]"
  let ?g = "newCreditGate True (Some ?l) (Some ?pb)"
  have c: "ReserveCost ?pb ''m'' 8 5 = Some 18" "ActualCost ?pb ''m'' 6 4 = Some 14" by code_simp+
  have a: "avail ?l ''k'' = 50" by code_simp
  have g: "enforce ?g" "prices ?g = Some ?pb" "g_ledger ?g = Some ?l" "\<not> g_broken ?g"
    by (simp_all add: newCreditGate_def)
  have cov: "max 0 18 \<le> avail ?l ''k''" unfolding a by simp
  show ?thesis
    using billed_as_recorded [OF g c(1) cov, of sample_gjson Some Some sample_call
        "\<lparr>pl_metrics = newMetricsMonitor 1, pl_usage = NewUsageMeter (\<lambda>_. None) \<lparr>uf_main = None, uf_tmp = None\<rparr> [], pl_emitter = None\<rparr>"]
      sample_answered a c(2) by (auto simp: Let_def split: prod.splits)
qed

end
