(* ===== verification/Request_Paths.thy ===== *)
theory Request_Paths
  imports Inference_Routing
begin

section \<open>Paths, forms and unloads (proxy/proxymanager.go, proxy/proxymanager_api.go)\<close>

text \<open>
  The handlers beside the JSON one: the model in an \<open>/upstream/\<close> path, the multipart form handler, and the
  unload handlers, with what each does to the process groups. Parsing and writing a multipart body belong to the
  standard library and are arguments, as in the JSON handler the JSON library is. An error response is its status.
\<close>

subsection \<open>A model in a path (findModelInPath, proxyToUpstream)\<close>

fun path_search :: "(string \<Rightarrow> string option) \<Rightarrow> string \<Rightarrow> string list \<Rightarrow> (string \<times> string \<times> string) option" where
  "path_search real searchModelName [] = None"
| "path_search real searchModelName (part # parts) =
     (if part = [] then path_search real searchModelName parts
      else
        let searchModelName = (if searchModelName = [] then part else searchModelName @ ''/'' @ part) in
        case real searchModelName of
          Some modelID \<Rightarrow> Some (searchModelName, modelID, ''/'' @ Join parts ''/'')
        | None \<Rightarrow> path_search real searchModelName parts)"

definition findModelInPath :: "Config \<Rightarrow> string \<Rightarrow> (string \<times> string \<times> string) option" where
  "findModelInPath c path = path_search (RealModelName c) [] (Split (TrimSpace path) (CHR ''/''))"

datatype upstream_result = UpError int | UpRedirect int string | UpLocal string string string bool

text \<open>
  The dispatch to a local model: its group, the model, the path the upstream gets, and whether the answer goes
  through the metrics wrapper. \<open>hasMonitor\<close>: there is a metrics monitor.
\<close>

definition proxyToUpstream :: "bool \<Rightarrow> string \<Rightarrow> string \<Rightarrow> string \<Rightarrow> proxyManager \<Rightarrow> proxyManager \<times> upstream_result" where
  "proxyToUpstream hasMonitor verb upstreamPath rawQuery pm =
     (case findModelInPath (pm_config pm) upstreamPath of
        None \<Rightarrow> (pm, UpError 400)
      | Some (searchModelName, modelID, remainingPath) \<Rightarrow>
          if remainingPath = ''/'' \<and> \<not> HasSuffix upstreamPath ''/'' then
            (let newPath = ''/upstream/'' @ searchModelName @ ''/'' @ (if rawQuery \<noteq> [] then ''?'' @ rawQuery else [])
             in (pm, UpRedirect (if verb = ''GET'' \<or> verb = ''HEAD'' then 301 else 308) newPath))
          else
            (case swapProcessGroup modelID (pm_groups pm) of
               (gs, None) \<Rightarrow> (pm\<lparr>pm_groups := gs\<rparr>, UpError 500)
             | (gs, Some pg) \<Rightarrow>
                 (pm\<lparr>pm_groups := gs\<rparr>, UpLocal (pg_id pg) modelID remainingPath
                    (hasMonitor \<and> verb = ''POST'' \<and> shouldCollectMetrics remainingPath))))"

text \<open>\<open>getLogger\<close>: which monitor a log id names; a model's own logger is that of its process.\<close>

datatype logger = MuxLogger | ProxyLogger | UpstreamLogger | ProcessLogger string string

definition getLogger :: "proxyManager \<Rightarrow> string \<Rightarrow> logger option" where
  "getLogger pm logMonitorId =
     (if logMonitorId = [] then Some MuxLogger
      else if logMonitorId = ''proxy'' then Some ProxyLogger
      else if logMonitorId = ''upstream'' then Some UpstreamLogger
      else case findModelInPath (pm_config pm) (''/'' @ logMonitorId) of
        None \<Rightarrow> None
      | Some (_, name, _) \<Rightarrow>
          map_option (\<lambda>(ID, g). ProcessLogger ID name) (find (\<lambda>(_, g). snd (GetMember g name)) (pm_groups pm)))"

subsection \<open>Forms (proxyOAIPostFormHandler)\<close>

definition defaultMaxFormBodyBytes :: int where
  "defaultMaxFormBodyBytes = push_bit 20 100"

definition maxFormBodyBytes :: "int \<Rightarrow> int" where
  "maxFormBodyBytes configured = (if configured > 0 then configured else defaultMaxFormBodyBytes)"

text \<open>
  A parsed form: the values of the query, and the fields and files of the body; a file can fail to open, which is
  \<open>None\<close>. \<open>FormValue\<close> is the first value of a name, the query's before the body's.
\<close>

record multipartForm =
  mf_query :: "(string \<times> string list) list"
  mf_Value :: "(string \<times> string list) list"
  mf_File :: "(string \<times> (string \<times> string option) list) list"

datatype form_parse = TooBig | BadForm | ParsedForm multipartForm

definition FormValue :: "multipartForm \<Rightarrow> string \<Rightarrow> string" where
  "FormValue f name =
     (case (case map_of (mf_query f) name of None \<Rightarrow> [] | Some vs \<Rightarrow> vs)
         @ (case map_of (mf_Value f) name of None \<Rightarrow> [] | Some vs \<Rightarrow> vs) of
        [] \<Rightarrow> [] | v # _ \<Rightarrow> v)"

text \<open>The target of a form: a pinned peer, a local model or a peer that lists the model, with its model id.\<close>

definition form_target :: "string \<Rightarrow> string \<Rightarrow> proxyManager \<Rightarrow> proxyManager \<times> (int + nextHandler \<times> string)" where
  "form_target pinnedPeerID requestedModel pm =
     (if pinnedPeerID = [] then
        (case RealModelName (pm_config pm) requestedModel of
           Some localID \<Rightarrow>
             (case swapProcessGroup localID (pm_groups pm) of
                (gs, None) \<Rightarrow> (pm\<lparr>pm_groups := gs\<rparr>, Inl 500)
              | (gs, Some pg) \<Rightarrow> (pm\<lparr>pm_groups := gs\<rparr>, Inr (NextLocal (pg_id pg), localID)))
         | None \<Rightarrow>
             if (case pm_peers pm of None \<Rightarrow> False | Some pp \<Rightarrow> HasPeerModel pp requestedModel)
             then (pm, Inr (NextPeer, requestedModel))
             else (pm, Inl 400))
      else (pm, Inr (NextPinned pinnedPeerID, requestedModel)))"

definition route_form :: "poll \<Rightarrow> string \<Rightarrow> proxyManager \<Rightarrow> proxyManager \<times> (int + nextHandler \<times> string \<times> string)" where
  "route_form w requestedModel pm =
     (case (case pm_peers pm of
              None \<Rightarrow> (pm, Inr ([], requestedModel))
            | Some pp \<Rightarrow>
                (case ResolveAddress w requestedModel pp of
                   (pp, Inl e) \<Rightarrow> (pm\<lparr>pm_peers := Some pp\<rparr>, Inl (addrErrorCode (Some e)))
                 | (pp, Inr res) \<Rightarrow> (pm\<lparr>pm_peers := Some pp\<rparr>, Inr (PeerID res, Model res)))) of
        (pm, Inl code) \<Rightarrow> (pm, Inl code)
      | (pm, Inr (pinnedPeerID, requestedModel)) \<Rightarrow>
          (case form_target pinnedPeerID requestedModel pm of
             (pm, Inl code) \<Rightarrow> (pm, Inl code)
           | (pm, Inr (next, modelID)) \<Rightarrow> (pm, Inr (next, modelID, requestedModel))))"

text \<open>The fields and files of the new form; \<open>None\<close> when a file cannot be opened.\<close>

definition form_fields :: "Config \<Rightarrow> string \<Rightarrow> string \<Rightarrow> multipartForm \<Rightarrow> (string \<times> string) list" where
  "form_fields c modelID requestedModel f =
     concat (map (\<lambda>(key, values). map (\<lambda>v. (key,
        if key = ''model''
        then (let useModelName = UseModelName (model_config c modelID) in
              if useModelName \<noteq> [] then useModelName else requestedModel)
        else v)) values) (mf_Value f))"

fun copy_files :: "string \<Rightarrow> (string \<times> string option) list \<Rightarrow> (string \<times> string \<times> string) list option" where
  "copy_files key [] = Some []"
| "copy_files key ((name, content) # fs) =
     (case content of None \<Rightarrow> None
      | Some b \<Rightarrow> map_option ((#) (key, name, b)) (copy_files key fs))"

fun form_files :: "(string \<times> (string \<times> string option) list) list \<Rightarrow> (string \<times> string \<times> string) list option" where
  "form_files [] = Some []"
| "form_files ((key, fs) # rest) =
     (case copy_files key fs of None \<Rightarrow> None
      | Some xs \<Rightarrow> map_option ((@) xs) (form_files rest))"

text \<open>\<open>mkform\<close> is the multipart writer: the content type with its boundary, and the bytes.\<close>

record formJob =
  fj_next :: nextHandler
  fj_model :: string
  fj_fields :: "(string \<times> string) list"
  fj_files :: "(string \<times> string \<times> string) list"
  fj_body :: string
  fj_headers :: http_headers

definition proxyOAIPostFormHandler :: "(int \<Rightarrow> string)
    \<Rightarrow> ((string \<times> string) list \<Rightarrow> (string \<times> string \<times> string) list \<Rightarrow> string \<times> string) \<Rightarrow> (int \<Rightarrow> form_parse)
    \<Rightarrow> int \<Rightarrow> poll \<Rightarrow> httpReq \<Rightarrow> proxyManager \<Rightarrow> proxyManager \<times> (int + formJob)" where
  "proxyOAIPostFormHandler dec mkform parse configured w req pm =
     (case parse (maxFormBodyBytes configured) of
        TooBig \<Rightarrow> (pm, Inl 413)
      | BadForm \<Rightarrow> (pm, Inl 400)
      | ParsedForm f \<Rightarrow>
          (let requestedModel = FormValue f ''model'' in
           if requestedModel = [] then (pm, Inl 400)
           else case route_form w requestedModel pm of
             (pm, Inl code) \<Rightarrow> (pm, Inl code)
           | (pm, Inr (next, modelID, requestedModel)) \<Rightarrow>
               (let fields = form_fields (pm_config pm) modelID requestedModel f in
                case form_files (mf_File f) of
                  None \<Rightarrow> (pm, Inl 500)
                | Some files \<Rightarrow>
                    (case mkform fields files of (contentType, body) \<Rightarrow>
                       (pm, Inr \<lparr>fj_next = next, fj_model = modelID, fj_fields = fields, fj_files = files, fj_body = body,
                         fj_headers = (rq_headers req)(''content-type'' \<mapsto> contentType,
                           ''content-length'' \<mapsto> dec (int (length body)))\<rparr>)))))"

subsection \<open>Unloads\<close>

text \<open>A stop of one local process; \<open>None\<close> when its group is missing, \<open>Some\<close> of the error otherwise.\<close>

definition stop_local :: "string \<Rightarrow> proxyManager \<Rightarrow> proxyManager \<times> int" where
  "stop_local localID pm =
     (case findGroupByModelName (pm_groups pm) localID of
        None \<Rightarrow> (pm, 500)
      | Some pg \<Rightarrow>
          (case StopProcess localID StopImmediately pg of
             (pg, Some err) \<Rightarrow> (pm\<lparr>pm_groups := AList.update (pg_id pg) pg (pm_groups pm)\<rparr>, 500)
           | (pg, None) \<Rightarrow> (pm\<lparr>pm_groups := AList.update (pg_id pg) pg (pm_groups pm)\<rparr>, 200)))"

definition unloadAllModels :: "proxyManager \<Rightarrow> proxyManager \<times> int" where
  "unloadAllModels pm = (pm\<lparr>pm_groups := pm_StopProcesses StopImmediately (pm_groups pm)\<rparr>, 200)"

definition apiUnloadSingleModelHandler :: "string \<Rightarrow> proxyManager \<Rightarrow> proxyManager \<times> int" where
  "apiUnloadSingleModelHandler model pm =
     (case RealModelName (pm_config pm) (TrimPrefix model ''/'') of
        None \<Rightarrow> (pm, 404)
      | Some realModelName \<Rightarrow> stop_local realModelName pm)"

text \<open>
  The answer to an unload: a status of our own, a peer's answer as it is, or its normalised form. \<open>dispatch\<close> is the
  request to the peer: \<open>None\<close> when it fails, otherwise the buffered status, headers and body.
\<close>

datatype unload_answer = UnStatus int | AlreadyUnloaded | PassedThrough int "(string \<times> string) list" string

definition forwardUnloadNormalized :: "(int \<times> (string \<times> string) list \<times> string) option \<Rightarrow> unload_answer" where
  "forwardUnloadNormalized dispatched =
     (case dispatched of
        None \<Rightarrow> UnStatus 502
      | Some (code, hs, body) \<Rightarrow>
          if code \<ge> 400 \<and> Contains (ToLower body) ''not running'' then AlreadyUnloaded
          else PassedThrough code hs body)"

definition rebody :: "'b jsonLib \<Rightarrow> (int \<Rightarrow> string) \<Rightarrow> 'b \<Rightarrow> http_headers \<Rightarrow> http_headers" where
  "rebody lib dec body h = h(''transfer-encoding'' := None, ''content-length'' := Some (dec (int (length (jl_bytes lib body)))))"

definition unload_by_name :: "(nextHandler \<Rightarrow> string \<Rightarrow> 'b \<Rightarrow> (int \<times> (string \<times> string) list \<times> string) option)
    \<Rightarrow> string \<Rightarrow> 'b \<Rightarrow> proxyManager \<Rightarrow> proxyManager \<times> unload_answer" where
  "unload_by_name dispatch requestedModel body pm =
     (case RealModelName (pm_config pm) requestedModel of
        Some localID \<Rightarrow> (case stop_local localID pm of (pm, code) \<Rightarrow> (pm, UnStatus code))
      | None \<Rightarrow>
          if (case pm_peers pm of None \<Rightarrow> False | Some pp \<Rightarrow> HasPeerModel pp requestedModel)
          then (pm, forwardUnloadNormalized (dispatch NextPeer requestedModel body))
          else (pm, UnStatus 404))"

definition routerUnloadHandler :: "'b jsonLib \<Rightarrow> (nextHandler \<Rightarrow> string \<Rightarrow> 'b \<Rightarrow> (int \<times> (string \<times> string) list \<times> string) option)
    \<Rightarrow> poll \<Rightarrow> 'b \<Rightarrow> proxyManager \<Rightarrow> proxyManager \<times> unload_answer" where
  "routerUnloadHandler lib dispatch w body pm =
     (let requestedModel = jl_String lib ''model'' body in
      if requestedModel = [] then (case unloadAllModels pm of (pm, code) \<Rightarrow> (pm, UnStatus code))
      else case pm_peers pm of
        None \<Rightarrow> unload_by_name dispatch requestedModel body pm
      | Some pp \<Rightarrow>
          (case ResolveAddress w requestedModel pp of
             (pp, Inl e) \<Rightarrow> (pm\<lparr>pm_peers := Some pp\<rparr>, UnStatus (addrErrorCode (Some e)))
           | (pp, Inr res) \<Rightarrow>
               (let pm = pm\<lparr>pm_peers := Some pp\<rparr> in
                case (if Rewrote res then jl_Set lib ''model'' (VStr (Model res)) body else Some body) of
                  None \<Rightarrow> (pm, UnStatus 500)
                | Some body \<Rightarrow>
                    if PeerID res \<noteq> []
                    then (pm, forwardUnloadNormalized (dispatch (NextPinned (PeerID res)) (Model res) body))
                    else unload_by_name dispatch (Model res) body pm)))"

subsection \<open>The shortest model in a path\<close>

definition segs_name :: "string list \<Rightarrow> string" where
  "segs_name ws = Join (filter (\<lambda>w. w \<noteq> []) ws) ''/''"

lemma Join_snoc: "Join (ws @ [w]) sep = (if ws = [] then w else Join ws sep @ sep @ w)"
  by (induction ws rule: induct_list012) auto

lemma segs_name_snoc:
  "segs_name (ws @ [w]) = (if w = [] then segs_name ws else if segs_name ws = [] then w else segs_name ws @ ''/'' @ w)"
proof -
  have "Join vs ''/'' = [] \<longleftrightarrow> vs = []" if "\<forall>v\<in>set vs. v \<noteq> []" for vs
    using that by (induction vs rule: induct_list012) auto
  from this [of "filter (\<lambda>w. w \<noteq> []) ws"] show ?thesis by (auto simp: segs_name_def Join_snoc)
qed

lemma path_search_spec:
  "case path_search real (segs_name pre) post of
     None \<Rightarrow> \<forall>n. n < length post \<longrightarrow> post ! n \<noteq> [] \<longrightarrow> real (segs_name (pre @ take (Suc n) post)) = None
   | Some (name, modelID, rest) \<Rightarrow> \<exists>n < length post. post ! n \<noteq> [] \<and> name = segs_name (pre @ take (Suc n) post)
       \<and> real name = Some modelID \<and> rest = ''/'' @ Join (drop (Suc n) post) ''/''
       \<and> (\<forall>m < n. post ! m \<noteq> [] \<longrightarrow> real (segs_name (pre @ take (Suc m) post)) = None)"
proof (induction post arbitrary: pre)
  case (Cons w post)
  note IH = Cons.IH [of "pre @ [w]"]
  show ?case
  proof (cases "w = []")
    case True
    then have "path_search real (segs_name pre) (w # post) = path_search real (segs_name (pre @ [w])) post"
      by (simp add: segs_name_snoc)
    with IH True show ?thesis
      by (cases "path_search real (segs_name (pre @ [w])) post") (simp_all add: All_less_Suc2 Ex_less_Suc2 split_beta)
  next
    case w: False
    show ?thesis
    proof (cases "real (segs_name (pre @ [w]))")
      case (Some modelID)
      then show ?thesis using w by (auto simp: segs_name_snoc Let_def intro: exI [of _ 0])
    next
      case None
      then have "path_search real (segs_name pre) (w # post) = path_search real (segs_name (pre @ [w])) post"
        using w by (simp add: segs_name_snoc Let_def)
      with IH None show ?thesis
        by (cases "path_search real (segs_name (pre @ [w])) post") (auto simp: All_less_Suc2 Ex_less_Suc2 split_beta)
    qed
  qed
qed simp

text \<open>The segments that were used find the same model again, whatever follows them.\<close>

lemma path_search_again:
  "path_search real acc ps = Some (name, modelID, rest) \<Longrightarrow>
     \<exists>ws. ws \<noteq> [] \<and> set ws \<subseteq> set ps - {[]} \<and> name = Join ((if acc = [] then [] else [acc]) @ ws) ''/''
       \<and> (\<forall>tl. path_search real acc (ws @ tl) = Some (name, modelID, ''/'' @ Join tl ''/''))"
proof (induction ps arbitrary: acc)
  case (Cons p ps)
  let ?acc = "if acc = [] then p else acc @ ''/'' @ p"
  show ?case
  proof (cases "p = [] \<or> real ?acc = None")
    case False
    then show ?thesis using Cons.prems by (intro exI [of _ "[p]"]) (auto simp: Let_def)
  next
    case True
    show ?thesis
    proof (cases "p = []")
      case True
      with Cons.IH [of acc] Cons.prems show ?thesis by auto
    next
      case p: False
      then have "path_search real ?acc ps = Some (name, modelID, rest)" using True Cons.prems by (auto simp: Let_def)
      from Cons.IH [OF this] obtain ws where ws: "ws \<noteq> []" "set ws \<subseteq> set ps - {[]}"
        "name = Join ((if ?acc = [] then [] else [?acc]) @ ws) ''/''"
        "\<And>tl. path_search real ?acc (ws @ tl) = Some (name, modelID, ''/'' @ Join tl ''/'')" by blast
      then show ?thesis using p True
        by (intro exI [of _ "p # ws"]) (auto simp: Let_def Join_Cons)
    qed
  qed
qed simp

lemma findModelInPath_again:
  assumes "findModelInPath c path = Some (name, modelID, rest)"
  shows "findModelInPath c (''/'' @ name @ ''/'') = Some (name, modelID, ''/'')"
proof -
  obtain ws where ws: "ws \<noteq> []" "set ws \<subseteq> set (Split (TrimSpace path) (CHR ''/'')) - {[]}" "name = Join ws ''/''"
    "\<And>tl. path_search (RealModelName c) [] (ws @ tl) = Some (name, modelID, ''/'' @ Join tl ''/'')"
    using path_search_again [OF assms [unfolded findModelInPath_def]] by auto
  have sl: "list_all (\<lambda>w. CHR ''/'' \<notin> set w) ws" using ws(2) by (auto simp: list_all_iff dest: Split_no_sep)
  have trim: "TrimSpace (''/'' @ name @ ''/'') = ''/'' @ name @ ''/''"
    by (rule TrimSpace_noop) (simp_all add: is_space_def)
  have "Split (Join vs ''/'' @ ''/'') (CHR ''/'') = vs @ [[]]"
    if "vs \<noteq> []" "list_all (\<lambda>w. CHR ''/'' \<notin> set w) vs" for vs
    using that by (induction vs rule: induct_list012) (simp_all add: Split_append_sep)
  from this [OF ws(1) sl]
  have "Split (TrimSpace (''/'' @ name @ ''/'')) (CHR ''/'') = [] # ws @ [[]]" using trim by (simp add: ws(3))
  then show ?thesis using ws(4) [of "[[]]"] by (simp add: findModelInPath_def)
qed



subsection \<open>Forms are routed as JSON requests are\<close>

lemma form_by_name:
  "case (route_by_name lib name body pm, form_target [] name pm) of
     ((pm1, Inl c1), (pm2, Inl c2)) \<Rightarrow> c1 = 500 \<or> c1 = c2 \<and> pm1 = pm2
   | ((pm1, Inl c1), (pm2, Inr _)) \<Rightarrow> c1 = 500
   | ((pm1, Inr _), (pm2, Inl c2)) \<Rightarrow> False
   | ((pm1, Inr (n1, m1, _)), (pm2, Inr (n2, m2))) \<Rightarrow> pm1 = pm2 \<and> n1 = n2 \<and> m1 = m2"
  by (simp add: route_by_name_def route_local_def form_target_def Let_def split: option.split prod.split)

lemma copy_files_all: "copy_files key fs = Some xs \<Longrightarrow> map (\<lambda>(k, n, b). (k, n, Some b)) xs = map (Pair key) fs"
  by (induction fs arbitrary: xs) (auto split: option.splits)

lemma form_files_all:
  "form_files fs = Some xs \<Longrightarrow> map (\<lambda>(k, n, b). (k, n, Some b)) xs = concat (map (\<lambda>(key, fs). map (Pair key) fs) fs)"
  by (induction fs arbitrary: xs) (auto split: option.splits dest!: copy_files_all)

lemma form_fields_others:
  "filter (\<lambda>(k, v). k \<noteq> ''model'') (form_fields c modelID name f) =
     filter (\<lambda>(k, v). k \<noteq> ''model'') (concat (map (\<lambda>(key, vs). map (Pair key) vs) (mf_Value f)))"
  "map fst (form_fields c modelID name f) = concat (map (\<lambda>(key, vs). map (\<lambda>_. key) vs) (mf_Value f))"
  by (auto simp: form_fields_def filter_concat map_concat comp_def filter_map split_beta intro!: arg_cong [of _ _ concat] map_cong)

text \<open>The model of the form finds what the model of the body does, but for the edits of the body.\<close>

lemma form_as_json:
  assumes json_name: "jl_String lib ''model'' body = raw" and ne: "raw \<noteq> []"
  shows "case (route_inference lib w body pm, route_form w raw pm) of
    ((pm1, Inl c1), (pm2, Inl c2)) \<Rightarrow> c1 = 500 \<or> c1 = c2 \<and> pm1 = pm2
  | ((pm1, Inl c1), (pm2, Inr _)) \<Rightarrow> c1 = 500
  | ((pm1, Inr _), (pm2, Inl c2)) \<Rightarrow> False
  | ((pm1, Inr (n1, m1, _)), (pm2, Inr (n2, m2, _))) \<Rightarrow> pm1 = pm2 \<and> n1 = n2 \<and> m1 = m2"
proof (cases "pm_peers pm")
  case None
  then show ?thesis
    using form_by_name [of lib raw body pm] ne
    by (cases "route_by_name lib raw body pm"; cases "snd (route_by_name lib raw body pm)";
        cases "form_target [] raw pm"; cases "snd (form_target [] raw pm)")
      (auto simp: route_inference_def json_name route_form_def)
next
  case (Some pp)
  obtain pp' r where r: "ResolveAddress w raw pp = (pp', r)" by fastforce
  show ?thesis
  proof (cases r)
    case (Inl e)
    then show ?thesis using Some r ne by (simp add: route_inference_def json_name route_form_def route_address_def)
  next
    case (Inr res)
    let ?pm = "pm\<lparr>pm_peers := Some pp'\<rparr>"
    obtain bo where bo: "(if Rewrote res then jl_Set lib ''model'' (VStr (Model res)) body else Some body) = bo" by blast
    have json: "route_inference lib w body pm =
       (case bo of None \<Rightarrow> (?pm, Inl 500)
        | Some b \<Rightarrow>
            if PeerID res \<noteq> [] then
              (case apply_filters lib (PeerFilters pp' (PeerID res)) b of
                 None \<Rightarrow> (?pm, Inl 500) | Some b \<Rightarrow> (?pm, Inr (NextPinned (PeerID res), Model res, b)))
            else route_by_name lib (Model res) b ?pm)"
      using Some r Inr ne bo by (simp add: route_inference_def json_name route_address_def Let_def)
    have form: "route_form w raw pm =
       (case form_target (PeerID res) (Model res) ?pm of
          (pm, Inl code) \<Rightarrow> (pm, Inl code) | (pm, Inr (next, modelID)) \<Rightarrow> (pm, Inr (next, modelID, Model res)))"
      using Some r Inr by (simp add: route_form_def)
    obtain pm2 t where t: "form_target (PeerID res) (Model res) ?pm = (pm2, t)" by fastforce
    show ?thesis
    proof (cases bo)
      case None
      then show ?thesis by (cases t) (auto simp: json form t)
    next
      case (Some b)
      show ?thesis
      proof (cases "PeerID res = []")
        case True
        obtain pm1 j where j: "route_by_name lib (Model res) b ?pm = (pm1, j)" by fastforce
        have t': "form_target [] (Model res) ?pm = (pm2, t)" using t True by simp
        from form_by_name [of lib "Model res" b ?pm, unfolded j t'] True Some j t'
        show ?thesis by (cases j; cases t) (auto simp: json form)
      next
        case False
        then show ?thesis
          using Some by (cases "apply_filters lib (PeerFilters pp' (PeerID res)) b") (simp_all add: json form form_target_def)
      qed
    qed
  qed
qed

lemma route_form_config: "pm_config (fst (route_form w name pm)) = pm_config pm"
proof -
  have t: "pm_config (fst (form_target ID name pm)) = pm_config pm" for ID name pm
    by (simp add: form_target_def split: option.split prod.split)
  have "pm_config (fst (case form_target ID m q of
      (pm, Inl code) \<Rightarrow> (pm, Inl code) | (pm, Inr (next, modelID)) \<Rightarrow> (pm, Inr (next, modelID, m)))) = pm_config q" for ID m q
    using t [of ID m q] by (cases "form_target ID m q") (simp split: sum.split)
  then show ?thesis by (simp add: route_form_def split: option.split prod.split sum.split)
qed

lemma form_fields_model:
  "\<exists>name. \<forall>v. (''model'', v) \<in> set (form_fields c m q f) \<longrightarrow> v = name
     \<and> (UseModelName (model_config c m) \<noteq> [] \<longrightarrow> v = UseModelName (model_config c m))"
  by (rule exI [of _ "if UseModelName (model_config c m) \<noteq> [] then UseModelName (model_config c m) else q"])
    (auto simp: form_fields_def Let_def)


definition sample_form :: multipartForm where
  "sample_form = \<lparr>mf_query = [], mf_Value = [(''model'', [''b'']), (''language'', [''de''])],
     mf_File = [(''file'', [(''a.wav'', Some ''RIFF'')])]\<rparr>"


subsection \<open>What an unload does\<close>

lemma StopProcess_effect:
  assumes "group_ok g" "StopProcess m st g = (g', err)"
  shows "pg_id g' = pg_id g" "\<forall>k. k \<noteq> m \<longrightarrow> map_of (processes g') k = map_of (processes g) k"
    and "err = None \<Longrightarrow> \<exists>p. map_of (processes g') m = Some p \<and> \<not> proc_up p"
    and "err = Some e \<Longrightarrow> g' = g \<and> map_of (processes g) m = None"
proof -
  have q: "member.all_quiet (processes g)" using assms(1) by (simp add: group_ok_def)
  have down: "\<not> proc_up (stop_with st p)" if "map_of (processes g) m = Some p" for p
    by (rule member.stop_down [OF member.quiet_member [OF q that]])
  show "pg_id g' = pg_id g" "\<forall>k. k \<noteq> m \<longrightarrow> map_of (processes g') k = map_of (processes g) k"
    "err = None \<Longrightarrow> \<exists>p. map_of (processes g') m = Some p \<and> \<not> proc_up p"
    "err = Some e \<Longrightarrow> g' = g \<and> map_of (processes g) m = None"
    using assms(2) down by (auto simp: StopProcess_def on_process_def Let_def split: option.splits if_splits)
qed

definition only_stopped :: "string \<Rightarrow> proxyManager \<Rightarrow> proxyManager \<Rightarrow> int \<Rightarrow> bool" where
  "only_stopped m pm pm' code \<longleftrightarrow> pm_config pm' = pm_config pm \<and>
     (case findGroupByModelName (pm_groups pm) m of
        None \<Rightarrow> code = 500 \<and> pm_groups pm' = pm_groups pm
      | Some g \<Rightarrow>
          (\<forall>ID. ID \<noteq> pg_id g \<longrightarrow> map_of (pm_groups pm') ID = map_of (pm_groups pm) ID)
        \<and> (\<exists>g'. map_of (pm_groups pm') (pg_id g) = Some g' \<and> pg_id g' = pg_id g
             \<and> (\<forall>k. k \<noteq> m \<longrightarrow> map_of (processes g') k = map_of (processes g) k)
             \<and> (if map_of (processes g) m = None then code = 500 \<and> g' = g
                else code = 200 \<and> (\<exists>p. map_of (processes g') m = Some p \<and> \<not> proc_up p))))"

lemma stop_local_effect:
  assumes "groups_ok (pm_groups pm)" "stop_local m pm = (pm', code)"
  shows "only_stopped m pm pm' code" "groups_ok (pm_groups pm')" "pm_peers pm' = pm_peers pm"
proof -
  have "only_stopped m pm pm' code \<and> groups_ok (pm_groups pm') \<and> pm_peers pm' = pm_peers pm"
  proof (cases "findGroupByModelName (pm_groups pm) m")
    case None
    then show ?thesis using assms by (auto simp: stop_local_def only_stopped_def)
  next
    case (Some g)
    note g = findGroup_Some [OF Some assms(1)]
    have ok: "group_ok g" using groups_ok_member [OF assms(1)] g by blast
    obtain g' err where st: "StopProcess m StopImmediately g = (g', err)" by fastforce
    note eff = StopProcess_effect [OF ok st]
    have pm': "pm' = pm\<lparr>pm_groups := AList.update (pg_id g) g' (pm_groups pm)\<rparr>" "code = (if err = None then 200 else 500)"
      using assms(2) Some st eff(1) by (auto simp: stop_local_def split: option.splits)
    have err: "err = None \<longleftrightarrow> map_of (processes g) m \<noteq> None"
      using st by (auto simp: StopProcess_def Let_def split: option.splits)
    have "groups_ok (AList.update (pg_id g) g' (pm_groups pm))"
      using groups_ok_update [OF assms(1) eff(1)] group_ok_StopProcess [OF ok, of m StopImmediately] by (simp add: st)
    moreover have "only_stopped m pm pm' code"
      using Some err eff by (cases err) (auto simp: only_stopped_def pm')
    ultimately show ?thesis by (simp add: pm')
  qed
  then show "only_stopped m pm pm' code" "groups_ok (pm_groups pm')" "pm_peers pm' = pm_peers pm" by blast+
qed

lemma stop_all_down:
  assumes "groups_ok gs" "(ID, g) \<in> set (pm_StopProcesses StopImmediately gs)" "(k, p) \<in> set (processes g)"
  shows "\<not> proc_up p"
proof -
  obtain g0 where g0: "(ID, g0) \<in> set gs" "g = StopProcesses StopImmediately g0"
    using assms(2) by (auto simp: pm_StopProcesses_def)
  then have "group_ok g0" using groups_ok_member [OF assms(1)] by blast
  with g0(2) have "member.all_down (processes g)" using StopProcesses_down by (metis group_ok_def)
  then show ?thesis using assms(3) by (auto simp: member.all_down_def)
qed

text \<open>A name that is not pinned: a local model is stopped, a peer's is handed on, and anything else is unknown.\<close>

lemma unload_by_name_effect:
  assumes "groups_ok (pm_groups pm)" "pm_groups pm0 = pm_groups pm" "pm_config pm0 = pm_config pm"
  shows "case unload_by_name dispatch m b pm0 of (pm', answer) \<Rightarrow>
      groups_ok (pm_groups pm') \<and> pm_config pm' = pm_config pm
    \<and> (case RealModelName (pm_config pm) m of
         Some localID \<Rightarrow> \<exists>code. answer = UnStatus code \<and> only_stopped localID pm pm' code
       | None \<Rightarrow> pm_groups pm' = pm_groups pm
           \<and> (if \<exists>pp. pm_peers pm0 = Some pp \<and> HasPeerModel pp m
              then \<exists>b. answer = forwardUnloadNormalized (dispatch NextPeer m b) else answer = UnStatus 404))"
proof (cases "RealModelName (pm_config pm) m")
  case None
  then show ?thesis using assms by (auto simp: unload_by_name_def split: option.split)
next
  case (Some localID)
  obtain pm' code where st: "stop_local localID pm0 = (pm', code)" by fastforce
  have same: "only_stopped localID pm0 pm' code = only_stopped localID pm pm' code"
    by (simp only: only_stopped_def assms)
  have "groups_ok (pm_groups pm0)" using assms by simp
  note eff = stop_local_effect [OF this st, unfolded same]
  have "pm_config pm' = pm_config pm" using eff(1) by (simp add: only_stopped_def)
  with eff assms Some show ?thesis by (auto simp: unload_by_name_def st)
qed



end
