(* ===== verification/Model_Listing.thy ===== *)
theory Model_Listing
  imports Inference_Routing "HOL-Library.Multiset"
begin

section \<open>What the proxy reports (listModelsHandler in proxy/proxymanager.go, getModelStatus in proxy/proxymanager_api.go)\<close>

text \<open>
  The list of models an OpenAI client sees, the state of every model the web interface shows, and the
  running processes. Go's \<open>sort.Slice\<close> is not stable, so the sort is an argument with its law; the clock and
  what the peers would answer to a poll are arguments as elsewhere. Reading a peer's loaded state may refresh
  the cache, so the handler threads the peer proxy through every read, as the code does.
\<close>

subsection \<open>Records of the list\<close>

text \<open>
  The keys of the JSON object that vary; \<open>object\<close> and \<open>owned_by\<close> are constants. A missing key is \<open>None\<close>,
  \<open>le_loaded\<close> is the presence of the status \<open>loaded\<close>, and \<open>le_meta\<close> is the map under \<open>meta.llamaswap\<close>.
\<close>

record listEntry =
  le_id :: string
  le_created :: int
  le_name :: "string option"
  le_description :: "string option"
  le_meta :: "(string \<times> any) list option"
  le_loaded :: bool
  le_arch :: "(string list \<times> string list) option"

definition newRecord :: "int \<Rightarrow> string \<Rightarrow> ModelConfig \<Rightarrow> listEntry" where
  "newRecord createdTime modelId mc =
     \<lparr>le_id = modelId, le_created = createdTime,
      le_name = (let name = TrimSpace (Name mc) in if name \<noteq> [] then Some name else None),
      le_description = (let desc = TrimSpace (Description mc) in if desc \<noteq> [] then Some desc else None),
      le_meta = (if length (Metadata mc) > 0 then Some (Metadata mc) else None),
      le_loaded = False, le_arch = None\<rparr>"

lemma newRecord_id [simp]: "le_id (newRecord t ID mc) = ID"
  by (simp add: newRecord_def)

text \<open>One round of the loop over the configured models; the list is the order of one iteration of the map.\<close>

definition model_entries :: "int \<Rightarrow> Config \<Rightarrow> string \<times> ModelConfig \<Rightarrow> listEntry list" where
  "model_entries createdTime c entry =
     (case entry of (ID, mc) \<Rightarrow>
        if Unlisted mc then []
        else newRecord createdTime ID mc #
          (if IncludeAliasesInList c
           then map (\<lambda>alias. newRecord createdTime alias mc) (filter (\<lambda>alias. alias \<noteq> []) (map TrimSpace (Aliases mc)))
           else []))"

definition local_entries :: "int \<Rightarrow> Config \<Rightarrow> listEntry list" where
  "local_entries createdTime c = concat (map (model_entries createdTime c) (Models c))"

text \<open>Keys set in the map under \<open>meta.llamaswap\<close>, when the record has one.\<close>

definition meta_set :: "(string \<times> any) list \<Rightarrow> listEntry \<Rightarrow> listEntry" where
  "meta_set kvs rec =
     (case le_meta rec of
        None \<Rightarrow> rec
      | Some ls \<Rightarrow> rec\<lparr>le_meta := Some (foldl (\<lambda>ls kv. AList.update (fst kv) (snd kv) ls) ls kvs)\<rparr>)"

definition modality_keys :: "modelModality \<Rightarrow> (string \<times> any) list" where
  "modality_keys md = [(''input_modalities'', VList (map VStr (mod_In md))), (''output_modalities'', VList (map VStr (mod_Out md)))]"

definition dim_keys :: "modelDims \<Rightarrow> (string \<times> any) list" where
  "dim_keys d = [(''n_ctx'', VInt (NCtx d)), (''n_ctx_train'', VInt (NCtxTrain d)), (''weights_bytes'', VInt (WeightBytes d)),
     (''n_params'', VInt (NParams d)), (''n_embd'', VInt (NEmbd d)), (''n_layer'', VInt (NLayer d)),
     (''n_head_kv'', VInt (NHeadKV d)), (''n_embd_k_gqa'', VInt (NEmbdKGqa d)), (''n_embd_v_gqa'', VInt (NEmbdVGqa d)),
     (''cache_type_k'', VStr (CacheTypeK d)), (''cache_type_v'', VStr (CacheTypeV d))]"

text \<open>One model of one peer.\<close>

definition peer_model_config :: "string \<Rightarrow> string \<Rightarrow> ModelConfig" where
  "peer_model_config peerID modelID =
     zeroModel\<lparr>Name := peerID @ '': '' @ modelID, Metadata := [(''peerID'', VStr peerID)]\<rparr>"

definition peer_entry :: "poll \<Rightarrow> int \<Rightarrow> string \<Rightarrow> string \<Rightarrow> PeerProxy \<Rightarrow> PeerProxy \<times> listEntry" where
  "peer_entry w createdTime peerID modelID p =
     (let rec = newRecord createdTime modelID (peer_model_config peerID modelID) in
      case IsPeerModelLoaded w peerID modelID p of (p, up) \<Rightarrow>
      let rec = (if up then rec\<lparr>le_loaded := True\<rparr> else rec);
          rec = meta_set [(''node_name'', VStr peerID)] rec in
      case PeerModelModality w peerID modelID p of (p, md) \<Rightarrow>
      let rec = (case md of
                   None \<Rightarrow> rec
                 | Some md \<Rightarrow> meta_set (modality_keys md) (rec\<lparr>le_arch := Some (mod_In md, mod_Out md)\<rparr>)) in
      case PeerModelDims w peerID modelID p of (p, dim) \<Rightarrow>
      (p, case dim of None \<Rightarrow> rec | Some d \<Rightarrow> meta_set (dim_keys d) rec))"

fun peer_entries :: "poll \<Rightarrow> int \<Rightarrow> string \<Rightarrow> string list \<Rightarrow> PeerProxy \<Rightarrow> PeerProxy \<times> listEntry list" where
  "peer_entries w createdTime peerID [] p = (p, [])"
| "peer_entries w createdTime peerID (m # ms) p =
     (case peer_entry w createdTime peerID m p of (p, rec) \<Rightarrow>
      case peer_entries w createdTime peerID ms p of (p, recs) \<Rightarrow> (p, rec # recs))"

fun all_peer_entries :: "poll \<Rightarrow> int \<Rightarrow> (string \<times> PeerConfig) list \<Rightarrow> PeerProxy \<Rightarrow> PeerProxy \<times> listEntry list" where
  "all_peer_entries w createdTime [] p = (p, [])"
| "all_peer_entries w createdTime ((peerID, peer) # ps) p =
     (case peer_entries w createdTime peerID (peer_Models peer) p of (p, recs) \<Rightarrow>
      case all_peer_entries w createdTime ps p of (p, rest) \<Rightarrow> (p, recs @ rest))"

text \<open>The addresses of one node: \<open>addAddr\<close> keeps the addresses it has seen.\<close>

definition address_entry :: "int \<Rightarrow> string \<Rightarrow> string \<Rightarrow> bool \<Rightarrow> listEntry" where
  "address_entry createdTime peerID addr up =
     (let rec = newRecord createdTime addr (zeroModel\<lparr>Name := ''node '' @ peerID,
                  Metadata := [(''peerID'', VStr peerID), (''nodeAddress'', VBool True)]\<rparr>)
      in if up then rec\<lparr>le_loaded := True\<rparr> else rec)"

definition addAddr :: "int \<Rightarrow> string \<Rightarrow> string \<times> bool \<Rightarrow> string set \<times> listEntry list \<Rightarrow> string set \<times> listEntry list" where
  "addAddr createdTime peerID a st =
     (case (a, st) of ((addr, up), (seen, recs)) \<Rightarrow>
        if addr \<in> seen then (seen, recs)
        else (insert addr seen, recs @ [address_entry createdTime peerID addr up]))"

definition node_entries :: "poll \<Rightarrow> int \<Rightarrow> string \<Rightarrow> PeerProxy \<Rightarrow> PeerProxy \<times> listEntry list" where
  "node_entries w createdTime peerID p =
     (let st = addAddr createdTime peerID (anyAlias @ ''@'' @ peerID, False) ({}, []) in
      case LoadedModels w peerID p of (p, ms) \<Rightarrow>
        (p, snd (fold (\<lambda>m. addAddr createdTime peerID (m @ ''@'' @ peerID, True)) ms st)))"

fun all_node_entries :: "poll \<Rightarrow> int \<Rightarrow> string list \<Rightarrow> PeerProxy \<Rightarrow> PeerProxy \<times> listEntry list" where
  "all_node_entries w createdTime [] p = (p, [])"
| "all_node_entries w createdTime (peerID # IDs) p =
     (case node_entries w createdTime peerID p of (p, recs) \<Rightarrow>
      case all_node_entries w createdTime IDs p of (p, rest) \<Rightarrow> (p, recs @ rest))"

text \<open>The handler: the manager with the cache it leaves, the CORS headers, and the list.\<close>

definition listModelsHandler :: "(listEntry list \<Rightarrow> listEntry list) \<Rightarrow> poll \<Rightarrow> int \<Rightarrow> http_headers \<Rightarrow> proxyManager
    \<Rightarrow> proxyManager \<times> (string \<times> string) list \<times> listEntry list" where
  "listModelsHandler sortSlice w createdTime h pm =
     (let own = local_entries createdTime (pm_config pm) in
      case pm_peers pm of
        None \<Rightarrow> (pm, corsEchoOrigin h, sortSlice own)
      | Some pp \<Rightarrow>
          (let pp = WarmLoaded w pp in
           case all_peer_entries w createdTime (peers pp) pp of (pp, recs) \<Rightarrow>
           case all_node_entries w createdTime (peerOrder pp) pp of (pp, addrs) \<Rightarrow>
             (pm\<lparr>pm_peers := Some pp\<rparr>, corsEchoOrigin h, sortSlice (own @ recs @ addrs))))"

subsection \<open>Model states and running processes\<close>

record modelStatus =
  st_Id :: string
  st_Name :: string
  st_Description :: string
  st_State :: string
  st_Unlisted :: bool
  st_PeerID :: string

fun stateStr :: "ProcessState \<Rightarrow> string" where
  "stateStr StateReady = ''ready''"
| "stateStr StateStarting = ''starting''"
| "stateStr StateStopping = ''stopping''"
| "stateStr StateShutdown = ''shutdown''"
| "stateStr StateStopped = ''stopped''"

definition model_state :: "groups \<Rightarrow> string \<Rightarrow> string" where
  "model_state gs modelID =
     (case findGroupByModelName gs modelID of
        None \<Rightarrow> ''unknown''
      | Some g \<Rightarrow> (case map_of (processes g) modelID of None \<Rightarrow> ''unknown'' | Some p \<Rightarrow> stateStr (pstate p)))"

definition getModelStatus :: "proxyManager \<Rightarrow> modelStatus list" where
  "getModelStatus pm =
     map (\<lambda>modelID. let mc = model_config (pm_config pm) modelID in
        \<lparr>st_Id = modelID, st_Name = Name mc, st_Description = Description mc,
         st_State = model_state (pm_groups pm) modelID, st_Unlisted = Unlisted mc, st_PeerID = []\<rparr>)
       (sort (map fst (Models (pm_config pm))))
   @ (case pm_peers pm of
        None \<Rightarrow> []
      | Some pp \<Rightarrow> concat (map (\<lambda>(peerID, peer). map (\<lambda>modelID.
          \<lparr>st_Id = modelID, st_Name = [], st_Description = [], st_State = [], st_Unlisted = False, st_PeerID = peerID\<rparr>)
          (peer_Models peer)) (peers pp)))"

record runningEntry =
  run_model :: string
  run_state :: ProcessState
  run_cmd :: string
  run_proxy :: string
  run_ttl :: int
  run_name :: string
  run_description :: string

definition listRunningProcesses :: "groups \<Rightarrow> runningEntry list" where
  "listRunningProcesses gs = concat (map (\<lambda>(_, g). concat (map (\<lambda>(_, p).
     if pstate p = StateReady
     then [\<lparr>run_model = p_ID p, run_state = pstate p, run_cmd = Cmd (p_config p), run_proxy = Proxy (p_config p),
            run_ttl = UnloadAfter (p_config p), run_name = Name (p_config p), run_description = Description (p_config p)\<rparr>]
     else []) (processes g))) gs)"


subsection \<open>The reads of one request see one state\<close>

text \<open>Any number of reads at one instant leaves the proxy as it is but for the cache, and every snapshot as it was.\<close>

definition reads :: "poll \<Rightarrow> PeerProxy \<Rightarrow> PeerProxy \<Rightarrow> bool" where
  "reads w p q \<longleftrightarrow> same_state p q \<and> (\<forall>ID. snap w q ID = snap w p ID)"

lemma reads_refl [simp, intro]: "reads w p p"
  by (simp add: reads_def)

lemma reads_trans: "reads w p q \<Longrightarrow> reads w q r \<Longrightarrow> reads w p r"
  by (auto simp: reads_def intro: same_state_trans)

lemma reads_load [simp, intro]: "reads w p (fst (peer_load w ID p))"
  by (simp add: reads_def peer_load_same snap_stable)

lemma readsD:
  assumes "reads w p q"
  shows "peers q = peers p" "peerOrder q = peerOrder p" "modelPeers q = modelPeers p" "snap w q ID = snap w p ID"
  using assms same_stateD [of p q] by (auto simp: reads_def)

lemma reads_LoadedModels: "reads w p (fst (LoadedModels w ID p))"
  and reads_IsPeerModelLoaded: "reads w p (fst (IsPeerModelLoaded w ID m p))"
  and reads_PeerModelModality: "reads w p (fst (PeerModelModality w ID m p))"
  and reads_PeerModelDims: "reads w p (fst (PeerModelDims w ID m p))"
  by (auto simp: LoadedModels_def IsPeerModelLoaded_def PeerModelModality_def PeerModelDims_def split_beta split: option.split)

lemma snd_LoadedModels: "map_of (peers p) ID \<noteq> None \<Longrightarrow> snd (LoadedModels w ID p) = order (snap w p ID)"
  and snd_IsPeerModelLoaded: "map_of (peers p) ID \<noteq> None \<Longrightarrow> snd (IsPeerModelLoaded w ID m p) = (m \<in> all_loaded (snap w p ID))"
  and snd_PeerModelModality: "map_of (peers p) ID \<noteq> None \<Longrightarrow> snd (PeerModelModality w ID m p) = map_of (modalities (snap w p ID)) m"
  and snd_PeerModelDims: "map_of (peers p) ID \<noteq> None \<Longrightarrow> snd (PeerModelDims w ID m p) = dims (snap w p ID) m"
  by (auto simp: LoadedModels_def IsPeerModelLoaded_def PeerModelModality_def PeerModelDims_def snap_def split_beta)

lemma reads_WarmLoaded: "reads w p (WarmLoaded w p)"
proof -
  have "reads w p (fold (\<lambda>ID p. fst (peer_load w ID p)) IDs p)" for IDs
    by (induction IDs arbitrary: p) (auto intro: reads_trans)
  then show ?thesis by (simp add: WarmLoaded_def)
qed

subsection \<open>The list as a function of the snapshots\<close>

text \<open>The record of a peer's model, from the peer's snapshot alone.\<close>

definition peer_record :: "int \<Rightarrow> string \<Rightarrow> peerLoadedSet \<Rightarrow> string \<Rightarrow> listEntry" where
  "peer_record createdTime peerID s modelID =
     \<lparr>le_id = modelID, le_created = createdTime, le_name = Some (TrimSpace (peerID @ '': '' @ modelID)),
      le_description = None,
      le_meta = Some (foldl (\<lambda>ls kv. AList.update (fst kv) (snd kv) ls) [(''peerID'', VStr peerID)]
        ((''node_name'', VStr peerID)
          # (case map_of (modalities s) modelID of None \<Rightarrow> [] | Some md \<Rightarrow> modality_keys md)
          @ (case dims s modelID of None \<Rightarrow> [] | Some d \<Rightarrow> dim_keys d))),
      le_loaded = (modelID \<in> all_loaded s),
      le_arch = map_option (\<lambda>md. (mod_In md, mod_Out md)) (map_of (modalities s) modelID)\<rparr>"

definition node_records :: "int \<Rightarrow> string \<Rightarrow> peerLoadedSet \<Rightarrow> listEntry list" where
  "node_records createdTime peerID s =
     snd (fold (\<lambda>m. addAddr createdTime peerID (m @ ''@'' @ peerID, True)) (order s)
       (addAddr createdTime peerID (anyAlias @ ''@'' @ peerID, False) ({}, [])))"

definition listing :: "int \<Rightarrow> Config \<Rightarrow> (string \<times> PeerConfig) list \<Rightarrow> (string \<Rightarrow> peerLoadedSet) \<Rightarrow> listEntry list" where
  "listing createdTime c ps state =
     local_entries createdTime c
   @ concat (map (\<lambda>(peerID, peer). map (peer_record createdTime peerID (state peerID)) (peer_Models peer)) ps)
   @ concat (map (\<lambda>peerID. node_records createdTime peerID (state peerID)) (sort (map fst ps)))"

lemma TrimSpace_empty: "TrimSpace s = [] \<longleftrightarrow> (\<forall>c\<in>set s. is_space c)"
proof
  assume t: "TrimSpace s = []"
  have "dropWhile is_space s = []"
  proof (rule ccontr)
    assume ne: "dropWhile is_space s \<noteq> []"
    then have "hd (dropWhile is_space s) \<in> set (dropWhile is_space s)" by (rule hd_in_set)
    with t hd_dropWhile [OF ne] show False by (auto simp: TrimSpace_def dropWhile_eq_Nil_conv)
  qed
  then show "\<forall>c\<in>set s. is_space c" by (simp add: dropWhile_eq_Nil_conv)
next
  assume "\<forall>c\<in>set s. is_space c"
  then show "TrimSpace s = []" by (auto simp: TrimSpace_def dest: set_dropWhileD)
qed

lemma TrimSpace_name: "TrimSpace (ID @ '': '' @ m) \<noteq> []"
  by (auto simp: TrimSpace_empty is_space_def)

lemma peer_entry_eq:
  assumes "map_of (peers p) ID \<noteq> None"
  shows "snd (peer_entry w t ID m p) = peer_record t ID (snap w p ID) m \<and> reads w p (fst (peer_entry w t ID m p))"
proof -
  obtain p1 up where 1: "IsPeerModelLoaded w ID m p = (p1, up)" by fastforce
  obtain p2 md where 2: "PeerModelModality w ID m p1 = (p2, md)" by fastforce
  obtain p3 dim where 3: "PeerModelDims w ID m p2 = (p3, dim)" by fastforce
  have r: "reads w p p1" "reads w p1 p2" "reads w p2 p3"
    using reads_IsPeerModelLoaded [of w p ID m] reads_PeerModelModality [of w p1 ID m] reads_PeerModelDims [of w p2 ID m] 1 2 3
    by simp_all
  have r2: "reads w p p2" "reads w p p3" using r by (blast intro: reads_trans)+
  have k: "map_of (peers p1) ID \<noteq> None" "map_of (peers p2) ID \<noteq> None"
    using assms readsD(1) [OF r(1)] readsD(1) [OF r2(1)] by simp_all
  have v: "up = (m \<in> all_loaded (snap w p ID))" "md = map_of (modalities (snap w p ID)) m" "dim = dims (snap w p ID) m"
    using snd_IsPeerModelLoaded [OF assms, of w m] snd_PeerModelModality [OF k(1), of w m] snd_PeerModelDims [OF k(2), of w m]
      1 2 3 readsD(4) [OF r(1)] readsD(4) [OF r2(1)] by simp_all
  have z: "TrimSpace (Description zeroModel) = []" by (simp add: zeroModel_def modelDefaults_def)
  show ?thesis
    using r2(2) TrimSpace_name [of ID m]
    by (auto simp: peer_entry_def 1 2 3 v Let_def newRecord_def peer_model_config_def meta_set_def peer_record_def z
        split: option.split)
qed

lemma peer_entries_eq:
  assumes "map_of (peers p) ID \<noteq> None"
  shows "snd (peer_entries w t ID ms p) = map (peer_record t ID (snap w p ID)) ms \<and> reads w p (fst (peer_entries w t ID ms p))"
  using assms
proof (induction ms arbitrary: p)
  case (Cons m ms)
  note e = peer_entry_eq [OF Cons.prems, of w t m]
  have "map_of (peers (fst (peer_entry w t ID m p))) ID \<noteq> None"
    using Cons.prems readsD(1) [OF conjunct2 [OF e]] by simp
  from Cons.IH [OF this] e show ?case
    using readsD(4) [OF conjunct2 [OF e]] by (auto simp: split_beta intro: reads_trans)
qed simp

lemma all_peer_entries_eq:
  assumes "\<forall>(ID, peer) \<in> set ps. map_of (peers p) ID \<noteq> None"
  shows "snd (all_peer_entries w t ps p) =
      concat (map (\<lambda>(ID, peer). map (peer_record t ID (snap w p ID)) (peer_Models peer)) ps)
    \<and> reads w p (fst (all_peer_entries w t ps p))"
  using assms
proof (induction ps arbitrary: p)
  case (Cons a ps)
  obtain ID peer where a: "a = (ID, peer)" by fastforce
  have "map_of (peers p) ID \<noteq> None" using Cons.prems a by simp
  note e = peer_entries_eq [OF this, of w t "peer_Models peer"]
  have "\<forall>(ID, peer) \<in> set ps. map_of (peers (fst (peer_entries w t ID' (peer_Models peer') p))) ID \<noteq> None"
    if "reads w p (fst (peer_entries w t ID' (peer_Models peer') p))" for ID' peer'
    using Cons.prems readsD(1) [OF that] by auto
  from Cons.IH [OF this [OF conjunct2 [OF e]]] e show ?case
    using readsD(4) [OF conjunct2 [OF e]] by (auto simp: a split_beta intro: reads_trans)
qed simp

lemma all_node_entries_eq:
  assumes "\<forall>ID \<in> set IDs. map_of (peers p) ID \<noteq> None"
  shows "snd (all_node_entries w t IDs p) = concat (map (\<lambda>ID. node_records t ID (snap w p ID)) IDs)
    \<and> reads w p (fst (all_node_entries w t IDs p))"
  using assms
proof (induction IDs arbitrary: p)
  case (Cons ID IDs)
  have k: "map_of (peers p) ID \<noteq> None" using Cons.prems by simp
  have e: "snd (node_entries w t ID p) = node_records t ID (snap w p ID)" "reads w p (fst (node_entries w t ID p))"
    using snd_LoadedModels [OF k] reads_LoadedModels [of w p ID]
    by (simp_all add: node_entries_def node_records_def split_beta Let_def)
  have "\<forall>ID' \<in> set IDs. map_of (peers (fst (node_entries w t ID p))) ID' \<noteq> None"
    using Cons.prems readsD(1) [OF e(2)] by simp
  from Cons.IH [OF this] e show ?case
    using readsD(4) [OF e(2)] by (auto simp: split_beta intro: reads_trans)
qed simp


subsection \<open>Names that can be listed and asked for\<close>

text \<open>A name with no address syntax in it: no \<open>@\<close>, no blanks around it, no wildcard, no capability expression.\<close>

definition plain_name :: "string \<Rightarrow> bool" where
  "plain_name s \<longleftrightarrow> CHR ''@'' \<notin> set s \<and> TrimSpace s = s \<and> \<not> isWildcard s \<and> parseCapability s = Inr None"

lemma plain_name_ends:
  assumes "plain_name s"
  shows "s \<noteq> []" "\<not> is_space (hd s)" "\<not> is_space (last s)"
  using assms TrimSpace_ends [of s] by (auto simp: plain_name_def isWildcard_def)

lemma splitAddress_node:
  assumes "CHR ''@'' \<notin> set m" "TrimSpace m = m" "m \<noteq> []" "plain_name ID"
  shows "splitAddress (m @ ''@'' @ ID) = Inr (m, ID, True)"
proof -
  have m: "\<not> is_space (hd m)" using TrimSpace_ends [of m] assms(2,3) by simp
  have "TrimSpace (m @ ''@'' @ ID) = m @ ''@'' @ ID"
    by (rule TrimSpace_noop) (use m assms(3) plain_name_ends [OF assms(4)] in auto)
  moreover have "filter (\<lambda>c. c = CHR ''@'') m = []" "filter (\<lambda>c. c = CHR ''@'') ID = []"
    using assms(1,4) by (auto simp: filter_empty_conv plain_name_def)
  moreover have "cut (m @ CHR ''@'' # ID) (CHR ''@'') = Some (m, ID)" using assms(1) by simp
  ultimately show ?thesis using assms(2,4) by (simp add: splitAddress_def plain_name_def)
qed

lemma resolve_plain:
  assumes "plain_name s"
  shows "snd (ResolveAddress w s p) = Inr \<lparr>PeerID = [], Model = s, Rewrote = False\<rparr>"
proof -
  have "splitAddress s = Inr (s, [], False)" using assms splitAddress_no_at [of s] by (simp add: plain_name_def)
  then show ?thesis using assms by (simp add: ResolveAddress_def plain_name_def isWildcard_def)
qed

lemma resolve_pinned:
  assumes "plain_name m" "plain_name ID" "map_of (peers p) ID \<noteq> None" "m \<in> all_loaded (snap w p ID)"
  shows "snd (ResolveAddress w (m @ ''@'' @ ID) p) = Inr \<lparr>PeerID = ID, Model = m, Rewrote = True\<rparr>"
proof -
  have "splitAddress (m @ ''@'' @ ID) = Inr (m, ID, True)"
    using splitAddress_node [of m ID] assms(1,2) plain_name_ends(1) [OF assms(1)] by (simp add: plain_name_def)
  then show ?thesis
    using assms by (auto simp: ResolveAddress_def plain_name_def resolve_node_def peerServesModel_def snap_def split_beta)
qed

lemma resolve_any:
  assumes "plain_name ID" "map_of (peers p) ID \<noteq> None"
  shows "snd (ResolveAddress w (anyAlias @ ''@'' @ ID) p) =
    (let picked = hd (order (snap w p ID) @ peer_Models (peer_of p ID) @ [[]])
     in if picked = [] then Inl (NodeEmpty ID) else Inr \<lparr>PeerID = ID, Model = picked, Rewrote = True\<rparr>)"
proof -
  have a: "CHR ''@'' \<notin> set anyAlias" "TrimSpace anyAlias = anyAlias" "anyAlias \<noteq> []" "isWildcard anyAlias"
    "parseCapability anyAlias = Inr None" by code_simp+
  have "splitAddress (anyAlias @ ''@'' @ ID) = Inr (anyAlias, ID, True)"
    by (rule splitAddress_node [OF a(1-3) assms(1)])
  then show ?thesis
    using assms a(4,5)
    by (auto simp: ResolveAddress_def plain_name_def resolve_node_def pickModelForPeer_def snap_def peer_of_def split_beta Let_def
        split: list.split)
qed

text \<open>What a load establishes about aliases: each is in the map, for the model that lists it.\<close>

lemma load_model_Aliases:
  assumes "load_model urlOK c k m p = Inr (m', p')"
  shows "Aliases m' = Aliases m"
proof -
  have s: "Aliases (fold subst_model ms m) = Aliases m" for ms m
    by (induction ms arbitrary: m) (simp_all add: subst_model_def Let_def)
  from assms obtain m1 where a: "assign_port k p (prepared c k m) = Inr (m1, p')"
    and m': "m' = m1\<lparr>SendLoadingState := (case SendLoadingState m1 of None \<Rightarrow> Some (cfg_SendLoadingState c) | s \<Rightarrow> s)\<rparr>"
    by (rule load_model_Inr)
  have "Aliases m1 = Aliases (prepared c k m)" using a by (auto simp: assign_port_def Let_def split: if_splits)
  then show ?thesis by (simp add: m' prepared_def s)
qed

lemma fill_model_aliases:
  assumes "fold_err (add_alias name) as m = Inr m'"
  shows "(\<forall>a \<in> set as. m' a = Some name) \<and> m \<subseteq>\<^sub>m m'"
  using assms
proof (induction as arbitrary: m)
  case (Cons a as)
  then have 1: "m a = None" "fold_err (add_alias name) as (m(a \<mapsto> name)) = Inr m'"
    by (auto simp: add_alias_def [where m = m] split: if_splits)
  note IH = Cons.IH [OF 1(2)]
  then have "m' a = Some name" by (force simp: map_le_def)
  moreover have "m \<subseteq>\<^sub>m m(a \<mapsto> name)" using 1(1) by (auto simp: map_le_def)
  moreover have "m \<subseteq>\<^sub>m m'" using map_le_trans [OF \<open>m \<subseteq>\<^sub>m m(a \<mapsto> name)\<close>] IH by blast
  ultimately show ?case using IH by auto
qed simp

lemma fill_aliases_map:
  assumes "fill_aliases ms = Inr al"
  shows "\<forall>(name, mc) \<in> set ms. \<forall>a \<in> set (Aliases mc). al a = Some name"
proof -
  have "(\<forall>(name, mc) \<in> set ms. \<forall>a \<in> set (Aliases mc). al a = Some name) \<and> m \<subseteq>\<^sub>m al"
    if "fold_err (\<lambda>(modelName, mc) m. fold_err (add_alias modelName) (Aliases mc) m) ms m = Inr al" for m
    using that
  proof (induction ms arbitrary: m)
    case (Cons x ms)
    obtain name mc where x: "x = (name, mc)" by fastforce
    obtain m1 where 1: "fold_err (add_alias name) (Aliases mc) m = Inr m1"
      "fold_err (\<lambda>(modelName, mc) m. fold_err (add_alias modelName) (Aliases mc) m) ms m1 = Inr al"
      using Cons.prems x by auto
    note f = fill_model_aliases [OF 1(1)] and IH = Cons.IH [OF 1(2)]
    have "al a = Some name" if "a \<in> set (Aliases mc)" for a
      using f IH that by (force simp: map_le_def)
    moreover have "m \<subseteq>\<^sub>m al" using map_le_trans f IH by blast
    ultimately show ?case using IH x by auto
  qed simp
  with assms show ?thesis by (simp add: fill_aliases_def)
qed

definition aliases_known :: "Config \<Rightarrow> bool" where
  "aliases_known c \<longleftrightarrow> list_all (\<lambda>(name, mc). list_all (\<lambda>a. aliases c a = Some name) (Aliases mc)) (Models c)"

lemma load_aliases_known:
  assumes "finishConfig urlOK c = Inr c'" "distinct (map fst (Models c))"
  shows "aliases_known c'"
proof -
  let ?ids = "sort (map fst (Models c))"
  from assms(1) obtain al models next1 mu where p: "fill_aliases (Models c) = Inr al"
    "load_models urlOK c = Inr (models, next1)" "Models c' = models" "aliases c' = al"
    by (rule finishConfig_phases)
  have d: "distinct ?ids" using assms(2) by simp
  have "\<forall>k \<in> set ?ids. map_of (Models c) k = map_of (Models c) k" by simp
  note loop = model_loop [OF p(2) [unfolded load_models_def] d this]
  have keys: "map fst models = map fst (Models c)" using loop by blast
  have "aliases c' a = Some k" if km: "(k, m) \<in> set models" and a: "a \<in> set (Aliases m)" for k m a
  proof -
    have m: "map_of models k = Some m" using km assms(2) keys by (simp add: map_of_eq_Some_iff)
    have k: "k \<in> set ?ids" using km keys by (metis fst_conv image_eqI set_map set_sort)
    then obtain m0 where m0: "map_of (Models c) k = Some m0"
      by (cases "map_of (Models c) k") (simp_all add: map_of_eq_None_iff)
    with loop k m obtain q r where "load_model urlOK c k m0 q = Inr (m, r)" by fastforce
    from load_model_Aliases [OF this] a map_of_SomeD [OF m0] fill_aliases_map [OF p(1)] show ?thesis
      by (auto simp: p(4))
  qed
  then show ?thesis by (auto simp: aliases_known_def list_all_iff p(3))
qed

text \<open>What \<open>NewPeerProxy\<close> establishes: the sorted ids, and every model of a peer registered.\<close>

definition registered :: "PeerProxy \<Rightarrow> bool" where
  "registered p \<longleftrightarrow> peerOrder p = sort (map fst (peers p))
     \<and> list_all (\<lambda>(ID, peer). list_all (HasPeerModel p) (peer_Models peer)) (peers p)"

lemma registered_new:
  assumes "distinct (map fst ps)"
  shows "registered (NewPeerProxy ps)"
proof -
  let ?peer = "\<lambda>ID. case map_of ps ID of Some c \<Rightarrow> c | None \<Rightarrow> peerDefaults"
  have reg: "fold (register_model ID) ms mp m = mp m @ map (\<lambda>_. ID) (filter (\<lambda>x. x = m) ms)" for ID ms mp m
    by (induction ms arbitrary: mp) (simp_all add: register_model_def)
  have one: "(mp m \<noteq> [] \<or> m \<in> set ms) \<longrightarrow> fold (register_model ID) ms mp m \<noteq> []" for ID ms mp m
    by (simp add: reg filter_empty_conv)
  have all_IDs: "(mp m \<noteq> [] \<or> (\<exists>ID \<in> set IDs. m \<in> set (peer_Models (?peer ID)))) \<longrightarrow>
      fold (\<lambda>ID mp. fold (register_model ID) (peer_Models (?peer ID)) mp) IDs mp m \<noteq> []" for IDs mp m
  proof (induction IDs arbitrary: mp)
    case (Cons ID IDs)
    show ?case
      unfolding fold_Cons comp_def list.set
      using Cons.IH [of "fold (register_model ID) (peer_Models (?peer ID)) mp"] one [of mp m "peer_Models (?peer ID)" ID]
      by blast
  qed simp
  have "modelPeers (NewPeerProxy ps) m \<noteq> []" if "(ID, peer) \<in> set ps" "m \<in> set (peer_Models peer)" for ID peer m
  proof -
    have "?peer ID = peer" using that(1) assms by (simp add: map_of_eq_Some_iff)
    then show ?thesis
      using all_IDs [of "\<lambda>_. []" m "sort (map fst ps)"] that by (force simp: NewPeerProxy_def Let_def)
  qed
  then show ?thesis
    by (auto simp: registered_def HasPeerModel_def list_all_iff) (simp_all add: NewPeerProxy_def Let_def)
qed


subsection \<open>The addresses of one node\<close>

lemma address_entry_id [simp]: "le_id (address_entry t peerID addr up) = addr"
  by (simp add: address_entry_def Let_def)

lemma addAddr_fold:
  assumes "fst st = set (map le_id (snd st))" "distinct (map le_id (snd st))"
  shows "let st' = fold (\<lambda>m. addAddr t ID (f m, True)) ms st in
    fst st' = set (map le_id (snd st')) \<and> distinct (map le_id (snd st'))
    \<and> set (map le_id (snd st')) = set (map le_id (snd st)) \<union> f ` set ms"
  using assms
proof (induction ms arbitrary: st)
  case (Cons m ms)
  let ?st = "addAddr t ID (f m, True) st"
  have 1: "fst ?st = set (map le_id (snd ?st))" "distinct (map le_id (snd ?st))"
    "set (map le_id (snd ?st)) = insert (f m) (set (map le_id (snd st)))"
    using Cons.prems by (auto simp: addAddr_def split: prod.splits if_splits)
  from Cons.IH [OF 1(1,2)] 1(3) show ?case by (simp add: Let_def)
qed simp

text \<open>Each node is listed once as a wildcard, and once under every model it has loaded.\<close>

lemma node_records_ids:
  "distinct (map le_id (node_records t ID s))
   \<and> set (map le_id (node_records t ID s)) = insert (anyAlias @ ''@'' @ ID) ((\<lambda>m. m @ ''@'' @ ID) ` set (order s))"
proof -
  let ?st = "addAddr t ID (anyAlias @ ''@'' @ ID, False) ({}, [])"
  have "fst ?st = set (map le_id (snd ?st))" "distinct (map le_id (snd ?st))"
    "set (map le_id (snd ?st)) = {anyAlias @ ''@'' @ ID}"
    by (simp_all add: addAddr_def)
  with addAddr_fold [of ?st t ID "\<lambda>m. m @ ''@'' @ ID" "order s"] show ?thesis
    by (simp add: node_records_def Let_def)
qed

subsection \<open>The list is complete, and what it lists can be asked for\<close>

text \<open>How a request naming a listed id is resolved.\<close>

definition routable :: "poll \<Rightarrow> proxyManager \<Rightarrow> string \<Rightarrow> bool" where
  "routable w pm ID =
     (case (resolution w pm ID, pm_peers pm) of
        (Inr r, None) \<Rightarrow> Model r = ID \<and> RealModelName (pm_config pm) ID \<noteq> None
      | (Inr r, Some pp) \<Rightarrow>
          if PeerID r = [] then Model r = ID \<and> (RealModelName (pm_config pm) ID \<noteq> None \<or> HasPeerModel pp ID)
          else PeerID r \<in> set (peerOrder pp)
            \<and> (if ID = anyAlias @ ''@'' @ PeerID r
               then Model r = hd (order (snap w pp (PeerID r)) @ peer_Models (peer_of pp (PeerID r)) @ [[]])
               else ID = Model r @ ''@'' @ PeerID r \<and> Model r \<in> set (order (snap w pp (PeerID r))))
      | (Inl (NodeEmpty node), Some pp) \<Rightarrow> ID = anyAlias @ ''@'' @ node
            \<and> hd (order (snap w pp node) @ peer_Models (peer_of pp node) @ [[]]) = []
      | _ \<Rightarrow> False)"

text \<open>Every name that goes into the list is plain.\<close>

definition plain_names :: "poll \<Rightarrow> proxyManager \<Rightarrow> bool" where
  "plain_names w pm \<longleftrightarrow>
     list_all (\<lambda>(ID, mc). plain_name ID \<and> list_all plain_name (Aliases mc)) (Models (pm_config pm))
   \<and> (case pm_peers pm of
        None \<Rightarrow> True
      | Some pp \<Rightarrow> list_all (\<lambda>(ID, peer). plain_name ID \<and> list_all plain_name (peer_Models peer)
          \<and> list_all plain_name (order (snap w pp ID)) \<and> set (order (snap w pp ID)) \<subseteq> all_loaded (snap w pp ID)) (peers pp))"

lemma local_entries_known:
  assumes "aliases_known c" "list_all (\<lambda>(ID, mc). plain_name ID \<and> list_all plain_name (Aliases mc)) (Models c)"
    and "e \<in> set (local_entries t c)"
  shows "plain_name (le_id e) \<and> RealModelName c (le_id e) \<noteq> None"
proof -
  from assms(3) obtain ID mc where k: "(ID, mc) \<in> set (Models c)" and m: "e \<in> set (model_entries t c (ID, mc))"
    by (auto simp: local_entries_def)
  have e: "le_id e = ID \<or> (\<exists>a \<in> set (Aliases mc). le_id e = TrimSpace a)"
    using m by (auto simp: model_entries_def split: if_splits)
  have id: "map_of (Models c) ID \<noteq> None" using k by (auto simp: map_of_eq_None_iff intro: rev_image_eqI)
  have p: "plain_name ID" "\<forall>a \<in> set (Aliases mc). plain_name a \<and> aliases c a = Some ID"
    using assms(1,2) k by (auto simp: list_all_iff aliases_known_def)
  show ?thesis
  proof (cases "le_id e = ID")
    case True
    then show ?thesis using id p(1) by (auto simp: RealModelName_def)
  next
    case False
    then obtain a where "a \<in> set (Aliases mc)" "le_id e = a" using e p(2) by (auto simp: plain_name_def)
    then show ?thesis using p(2) by (auto simp: RealModelName_def split: option.split)
  qed
qed

lemma routable_plain:
  assumes "plain_name ID" "RealModelName (pm_config pm) ID \<noteq> None \<or> (\<exists>pp. pm_peers pm = Some pp \<and> HasPeerModel pp ID)"
  shows "routable w pm ID"
  using assms by (auto simp: routable_def resolution_def resolve_plain split: option.split)

lemma routable_address:
  assumes "pm_peers pm = Some pp" "registered pp" "plain_names w pm" "ID \<in> set (peerOrder pp)"
    and "addr = anyAlias @ ''@'' @ ID \<or> addr \<in> (\<lambda>m. m @ ''@'' @ ID) ` set (order (snap w pp ID))"
  shows "routable w pm addr"
proof -
  obtain peer where k: "(ID, peer) \<in> set (peers pp)" using assms(2,4) by (auto simp: registered_def)
  then have p: "plain_name ID" "\<forall>m \<in> set (order (snap w pp ID)). plain_name m \<and> m \<in> all_loaded (snap w pp ID)"
    using assms(1,3) by (auto simp: plain_names_def list_all_iff)
  have ne: "ID \<noteq> []" using plain_name_ends(1) [OF p(1)] .
  have known: "map_of (peers pp) ID \<noteq> None" using k by (auto simp: map_of_eq_None_iff intro: rev_image_eqI)
  show ?thesis
  proof (cases "addr = anyAlias @ ''@'' @ ID")
    case True
    then show ?thesis
      using resolve_any [OF p(1) known, of w] assms(1,4) ne
      by (simp add: routable_def resolution_def Let_def split: if_split)
  next
    case False
    then obtain m where m: "m \<in> set (order (snap w pp ID))" "addr = m @ ''@'' @ ID" using assms(5) by auto
    then show ?thesis
      using resolve_pinned [of m ID pp w] p known assms(1,4) ne False
      by (auto simp: routable_def resolution_def)
  qed
qed

text \<open>
  C24. The list of models: one record per listed model, per trimmed alias of one where those are included, per
  model of a peer and per node address - exactly those computed from the peers' snapshots at the start of the
  request, though each read may refresh the cache - sorted by id; nothing but the cache of loaded models
  changes. Whatever is listed can be asked for: with a configuration whose aliases are all known (as every
  loaded one's are) and names without address syntax, a request for a listed id resolves to a local model or
  alias, to a model a peer lists, to the model and node of a listed address, which that node has loaded, or,
  for \<open>any@node\<close>, to the first model of that node - refused only when the node has none.
\<close>

theorem listing_routable:
  assumes sorts: "\<And>recs. mset (sortSlice recs) = mset recs \<and> sorted (map le_id (sortSlice recs))"
    and reg: "\<forall>pp. pm_peers pm = Some pp \<longrightarrow> registered pp"
  shows "case listModelsHandler sortSlice w t h pm of (pm', cors, recs) \<Rightarrow>
     sorted (map le_id recs)
   \<and> mset recs = mset (case pm_peers pm of
        None \<Rightarrow> local_entries t (pm_config pm)
      | Some pp \<Rightarrow> listing t (pm_config pm) (peers pp) (snap w pp))
   \<and> pm_config pm' = pm_config pm \<and> pm_groups pm' = pm_groups pm
   \<and> rel_option same_state (pm_peers pm) (pm_peers pm')
   \<and> (aliases_known (pm_config pm) \<and> plain_names w pm \<longrightarrow> list_all (routable w pm) (map le_id recs))"
proof (cases "pm_peers pm")
  case None
  have "list_all (routable w pm) (map le_id recs)"
    if "mset recs = mset (local_entries t (pm_config pm))" "aliases_known (pm_config pm)" "plain_names w pm" for recs
    using local_entries_known [of "pm_config pm" _ t] routable_plain [of _ pm w] that mset_eq_setD [OF that(1)]
    by (auto simp: list_all_iff plain_names_def)
  with None sorts show ?thesis by (simp add: listModelsHandler_def Let_def)
next
  case (Some pp)
  let ?c = "pm_config pm" and ?pw = "WarmLoaded w pp"
  have r: "registered pp" using reg Some by simp
  have w: "reads w pp ?pw" by (rule reads_WarmLoaded)
  have mem: "map_of (peers pp) ID \<noteq> None" if "ID \<in> fst ` set (peers pp)" for ID
    using that by (simp add: map_of_eq_None_iff)
  obtain p1 recs where 1: "all_peer_entries w t (peers ?pw) ?pw = (p1, recs)" by fastforce
  obtain p2 addrs where 2: "all_node_entries w t (peerOrder p1) p1 = (p2, addrs)" by fastforce
  have "\<forall>(ID, peer) \<in> set (peers ?pw). map_of (peers ?pw) ID \<noteq> None" using mem readsD(1) [OF w] by force
  from all_peer_entries_eq [OF this, of w t] 1 have e1:
    "recs = concat (map (\<lambda>(ID, peer). map (peer_record t ID (snap w pp ID)) (peer_Models peer)) (peers pp))" "reads w pp p1"
    using readsD(1,4) [OF w] by (simp_all add: reads_trans [OF w])
  have o': "peerOrder p1 = sort (map fst (peers pp))" using readsD(2) [OF e1(2)] r by (simp add: registered_def)
  have "\<forall>ID \<in> set (peerOrder p1). map_of (peers p1) ID \<noteq> None" using mem readsD(1) [OF e1(2)] o' by simp
  from all_node_entries_eq [OF this, of w t] 2 have e2:
    "addrs = concat (map (\<lambda>ID. node_records t ID (snap w pp ID)) (sort (map fst (peers pp))))" "reads w pp p2"
    using readsD(4) [OF e1(2)] o' by (simp_all add: reads_trans [OF e1(2)])
  let ?all = "listing t ?c (peers pp) (snap w pp)"
  have l: "local_entries t ?c @ recs @ addrs = ?all" by (simp add: listing_def e1 e2)
  have ok: "routable w pm (le_id e)" if ctx: "aliases_known ?c" "plain_names w pm" "e \<in> set ?all" for e
  proof -
    have pl: "list_all (\<lambda>(ID, mc). plain_name ID \<and> list_all plain_name (Aliases mc)) (Models ?c)"
      using ctx(2) by (simp add: plain_names_def)
    consider "e \<in> set (local_entries t ?c)" | ID peer where "(ID, peer) \<in> set (peers pp)" "le_id e \<in> set (peer_Models peer)"
      | ID where "ID \<in> set (peerOrder pp)" "e \<in> set (node_records t ID (snap w pp ID))"
      using ctx(3) r by (auto simp: listing_def registered_def peer_record_def)
    then show ?thesis
    proof cases
      case 1
      then show ?thesis using local_entries_known [OF ctx(1) pl] routable_plain by blast
    next
      case 2
      then have "plain_name (le_id e)" "HasPeerModel pp (le_id e)"
        using ctx(2) Some r by (auto simp: plain_names_def registered_def list_all_iff)
      then show ?thesis using Some routable_plain by blast
    next
      case 3
      have "le_id e \<in> set (map le_id (node_records t ID (snap w pp ID)))" using 3(2) by simp
      then show ?thesis
        unfolding conjunct2 [OF node_records_ids] insert_iff by (rule routable_address [OF Some r ctx(2) 3(1)])
    qed
  qed
  have h: "listModelsHandler sortSlice w t h pm = (pm\<lparr>pm_peers := Some p2\<rparr>, corsEchoOrigin h, sortSlice ?all)"
    by (simp add: listModelsHandler_def Some Let_def 1 2 l)
  show ?thesis
    using sorts [of ?all] ok e2(2) mset_eq_setD [of "sortSlice ?all" ?all] Some
    by (auto simp: h reads_def list_all_iff)
qed


text \<open>Two local models and a peer that has one model loaded.\<close>

definition listing_poll :: poll where
  "listing_poll = \<lparr>p_now = 1, p_answer = (\<lambda>_. Some ((emptySet 1)\<lparr>order := [''m''], all_loaded := {''m''}, served_names := {''m''}\<rparr>))\<rparr>"

definition listing_manager :: proxyManager where
  "listing_manager = sample_manager\<lparr>pm_peers := Some (NewPeerProxy [(''gem'', gem_peer)])\<rparr>"

theorem listing_routable_witness:
  "let (pm', cors, recs) = listModelsHandler (sort_key le_id) listing_poll 0 (\<lambda>_. None) listing_manager in
     set (map le_id recs) = {''a'', ''b'', ''m'', ''any@gem'', ''m@gem''} \<and> sorted (map le_id recs)
   \<and> list_all (routable listing_poll listing_manager) (map le_id recs)"
proof -
  let ?pp = "NewPeerProxy [(''gem'', gem_peer)]"
  have sorts: "mset (sort_key le_id recs) = mset recs \<and> sorted (map le_id (sort_key le_id recs))" for recs :: "listEntry list"
    by simp
  have pm: "pm_peers listing_manager = Some ?pp" "pm_config listing_manager = swap_config"
    by (simp_all add: listing_manager_def sample_manager_def)
  have reg: "\<forall>pp. pm_peers listing_manager = Some pp \<longrightarrow> registered pp" using pm registered_new by simp
  have models: "Models swap_config = [(''a'', race_model), (''b'', race_model)]" "Aliases race_model = []" "Unlisted race_model = False"
    by (simp_all add: swap_config_def sample_config_def race_model_def modelDefaults_def)
  have pp: "peers ?pp = [(''gem'', gem_peer)]" "peer_Models gem_peer = [''m'']"
    by (simp_all add: NewPeerProxy_def gem_peer_def Let_def)
  have s: "order (snap listing_poll ?pp ''gem'') = [''m'']" "all_loaded (snap listing_poll ?pp ''gem'') = {''m''}"
    by (simp_all add: snap_def peer_load_def peerLoaded_def fresh_entry_def listing_poll_def NewPeerProxy_def Let_def)
  have pl: "plain_name ''a''" "plain_name ''b''" "plain_name ''m''" "plain_name ''gem''" by code_simp+
  have known: "aliases_known (pm_config listing_manager)" "plain_names listing_poll listing_manager"
    by (simp_all add: aliases_known_def plain_names_def pm models pl pp s)
  obtain pm' cors recs where h: "listModelsHandler (sort_key le_id) listing_poll 0 (\<lambda>_. None) listing_manager = (pm', cors, recs)"
    using prod_cases3 by blast
  note ok = listing_routable [OF sorts reg, where w = listing_poll and t = 0 and h = "\<lambda>_. None"]
  have m: "mset recs = mset (listing 0 swap_config [(''gem'', gem_peer)] (snap listing_poll ?pp))"
    using ok by (simp add: h pm pp)
  have "set (map le_id (node_records 0 ''gem'' (snap listing_poll ?pp ''gem''))) = {''any@gem'', ''m@gem''}"
    using node_records_ids [of 0 "''gem''" "snap listing_poll ?pp ''gem''"] by (auto simp: s anyAlias_def)
  then have "set (map le_id recs) = {''a'', ''b'', ''m'', ''any@gem'', ''m@gem''}"
    using mset_eq_setD [OF m] by (auto simp: listing_def local_entries_def model_entries_def models pp peer_record_def image_Un)
  with ok known show ?thesis by (simp add: h)
qed

text \<open>
  An alias with blanks around it is listed trimmed and kept as it is in the alias map, so the listed name is not known; an alias
  that is another model's id loads, and the name means that model.
\<close>

lemma blank_alias_not_known:
  assumes "aliases c alias = Some ID" "aliases c (TrimSpace alias) = None" "map_of (Models c) (TrimSpace alias) = None"
    and "(ID, mc) \<in> set (Models c)" "alias \<in> set (Aliases mc)" "TrimSpace alias \<noteq> []" "IncludeAliasesInList c" "\<not> Unlisted mc"
  shows "TrimSpace alias \<in> set (map le_id (local_entries t c)) \<and> RealModelName c (TrimSpace alias) = None"
proof -
  have "newRecord t (TrimSpace alias) mc \<in> set (model_entries t c (ID, mc))"
    using assms(5-8) by (auto simp: model_entries_def)
  then have "newRecord t (TrimSpace alias) mc \<in> set (local_entries t c)" using assms(4) by (force simp: local_entries_def)
  then have "TrimSpace alias \<in> set (map le_id (local_entries t c))" by force
  then show ?thesis using assms(2,3) by (simp add: RealModelName_def)
qed

lemma alias_shadowed:
  "map_of (Models c) alias \<noteq> None \<Longrightarrow> aliases c alias = Some ID \<Longrightarrow> RealModelName c alias = Some alias"
  by (auto simp: RealModelName_def)

subsection \<open>States and running processes\<close>

text \<open>The states: one row per configured model in the order of the ids, then the peers' models.\<close>

lemma getModelStatus_rows:
  "map (\<lambda>r. (st_Id r, st_State r)) (filter (\<lambda>r. st_PeerID r = []) (getModelStatus pm)) =
     map (\<lambda>ID. (ID, model_state (pm_groups pm) ID)) (sort (map fst (Models (pm_config pm))))"
  if "\<forall>pp. pm_peers pm = Some pp \<longrightarrow> [] \<notin> fst ` set (peers pp)"
proof -
  have "filter (\<lambda>r. st_PeerID r = []) (concat (map (\<lambda>(peerID, peer). map (\<lambda>modelID.
          \<lparr>st_Id = modelID, st_Name = [], st_Description = [], st_State = [], st_Unlisted = False, st_PeerID = peerID\<rparr>)
          (peer_Models peer)) ps)) = []" if "[] \<notin> fst ` set ps" for ps
    using that by (induction ps) (auto simp: filter_empty_conv)
  with that show ?thesis
    by (auto simp: getModelStatus_def Let_def comp_def filter_map split: option.split)
qed

text \<open>The running list reports the processes that are ready, and nothing else.\<close>

lemma listRunningProcesses_ready:
  "map run_model (listRunningProcesses gs) = runningProcesses gs"
  "\<forall>r \<in> set (listRunningProcesses gs). run_state r = StateReady"
proof -
  have one: "map run_model (concat (map (\<lambda>(_, p). if pstate p = StateReady
     then [\<lparr>run_model = p_ID p, run_state = pstate p, run_cmd = Cmd (p_config p), run_proxy = Proxy (p_config p),
            run_ttl = UnloadAfter (p_config p), run_name = Name (p_config p), run_description = Description (p_config p)\<rparr>]
     else []) ps)) = map (p_ID \<circ> snd) (filter (\<lambda>(_, p). pstate p = StateReady) ps)" for ps :: "(string \<times> Process) list"
    by (induction ps) auto
  show "map run_model (listRunningProcesses gs) = runningProcesses gs"
    unfolding listRunningProcesses_def runningProcesses_def
    by (induction gs) (auto simp: one)
  show "\<forall>r \<in> set (listRunningProcesses gs). run_state r = StateReady"
    by (auto simp: listRunningProcesses_def split: if_splits)
qed

end
