(* ===== verification/Loading_Stream.thy ===== *)
theory Loading_Stream
  imports Process_Lifecycle
begin

section \<open>The loading stream (statusResponseWriter in proxy/process.go)\<close>

text \<open>
  While a model loads, a streaming chat request is answered at once with status 200 and a stream of progress
  messages written by a goroutine of its own; when the process is up, the handler waits for that goroutine and
  then lets the upstream's answer follow on the same connection. The two goroutines, the clock, the process's
  state, a client that goes away and the choices of \<open>math/rand\<close> are the steps of a transition relation. A
  written event is kept as its text (\<open>FromStatus\<close>; \<open>event_bytes\<close> gives its bytes, with the JSON encoding as an
  argument), bytes of the upstream as they are.
\<close>

subsection \<open>What is written\<close>

definition loadingRemarks :: "string list" where
  "loadingRemarks = [
   ''Still faster than your last standup meeting...'',
   ''Reticulating splines...'',
   ''Waking up the hamsters...'',
   ''Teaching the model manners...'',
   ''Convincing the GPU to participate...'',
   ''Loading weights (they'' @ [CHR 0x27] @ ''re heavy)...'',
   ''Herding electrons...'',
   ''Compiling excuses for the delay...'',
   ''Downloading more RAM...'',
   ''Asking the model nicely to boot up...'',
   ''Bribing CUDA with cookies...'',
   ''Still loading (blame VRAM)...'',
   ''The model is fashionably late...'',
   ''Warming up those tensors...'',
   ''Making the neural net do push-ups...'',
   ''Your patience is appreciated (really)...'',
   ''Almost there (probably)...'',
   ''Loading like it'' @ [CHR 0x27] @ ''s 1999...'',
   ''The model forgot where it put its keys...'',
   ''Quantum tunneling through layers...'',
   ''Negotiating with the PCIe bus...'',
   ''Defrosting frozen parameters...'',
   ''Teaching attention heads to focus...'',
   ''Running the matrix (slowly)...'',
   ''Untangling transformer blocks...'',
   ''Calibrating the flux capacitor...'',
   ''Spinning up the probability wheels...'',
   ''Waiting for the GPU to wake from its nap...'',
   ''Converting caffeine to compute...'',
   ''Allocating virtual patience...'',
   ''Performing arcane CUDA rituals...'',
   ''The model is stuck in traffic...'',
   ''Inflating embeddings...'',
   ''Summoning computational demons...'',
   ''Pleading with the OOM killer...'',
   ''Calculating the meaning of life (still at 42)...'',
   ''Training the training wheels...'',
   ''Optimizing the optimizer...'',
   ''Bootstrapping the bootstrapper...'',
   ''Loading loading screen...'',
   ''Processing processing logs...'',
   ''Buffering buffer overflow jokes...'',
   ''The model hit snooze...'',
   ''Debugging the debugger...'',
   ''Compiling the compiler...'',
   ''Parsing the parser (meta)...'',
   ''Tokenizing tokens...'',
   ''Encoding the encoder...'',
   ''Hashing hash browns...'',
   ''Forking spoons (not forks)...'',
   ''The model is contemplating existence...'',
   ''Transcending dimensional barriers...'',
   ''Invoking elder tensor gods...'',
   ''Unfurling probability clouds...'',
   ''Synchronizing parallel universes...'',
   ''The GPU is having second thoughts...'',
   ''Recalibrating reality matrices...'',
   ''Time is an illusion, loading doubly so...'',
   ''Convincing bits to flip themselves...'',
   ''The model is reading its own documentation...'']"

datatype chunk = FromStatus string | FromUpstream string

fun from_status :: "chunk \<Rightarrow> bool" where
  "from_status (FromStatus d) = True"
| "from_status (FromUpstream b) = False"

text \<open>The event \<open>sendData\<close> writes; \<open>enc\<close> is the JSON encoding of the message with this delta.\<close>

definition event_bytes :: "(string \<Rightarrow> string) \<Rightarrow> string \<Rightarrow> string" where
  "event_bytes enc d = ''data: '' @ enc d @ [CHR 0x0A, CHR 0x0A]"

text \<open>Where the two goroutines are: the remark counter, the pause before the next remark and the time of the last one.\<close>

datatype updater = UpdNone | UpdSpawned | UpdLoop nat int int | UpdClosing "string list" | UpdDone

datatype loading = HdNew | HdStart | HdWait bool | HdServe | HdEnd | HdPanic

record srwState =
  sw_hasWritten :: bool
  sw_code :: "int option"
  sw_out :: "chunk list"
  sw_connected :: bool
  sw_wg :: nat
  sw_cancelled :: bool
  sw_updater :: updater
  sw_handler :: loading

definition newSrw :: srwState where
  "newSrw = \<lparr>sw_hasWritten = False, sw_code = None, sw_out = [], sw_connected = True, sw_wg = 0,
     sw_cancelled = False, sw_updater = UpdNone, sw_handler = HdNew\<rparr>"

text \<open>A write to a connection the client has left fails, and \<open>sendData\<close> panics: the second component is \<open>False\<close>.\<close>

definition sendData :: "string \<Rightarrow> srwState \<Rightarrow> srwState \<times> bool" where
  "sendData d s = (if sw_connected s then (s\<lparr>sw_out := sw_out s @ [FromStatus d]\<rparr>, True) else (s, False))"

definition sendLine :: "string \<Rightarrow> srwState \<Rightarrow> srwState \<times> bool" where
  "sendLine line s = sendData (line @ [CHR 0x0A]) s"

definition srw_WriteHeader :: "int \<Rightarrow> srwState \<Rightarrow> srwState" where
  "srw_WriteHeader statusCode s =
     (if sw_hasWritten s then s else s\<lparr>sw_hasWritten := True, sw_code := Some statusCode\<rparr>)"

text \<open>Five heavy horizontal bars, in UTF-8.\<close>

definition ruler :: string where
  "ruler = concat (replicate 5 [CHR 0xE2, CHR 0x94, CHR 0x81])"

definition newStatusResponseWriter :: "string \<Rightarrow> srwState \<Rightarrow> srwState \<times> bool" where
  "newStatusResponseWriter ID s =
     (case sendLine ruler (srw_WriteHeader 200 s) of
        (s, False) \<Rightarrow> (s, False)
      | (s, True) \<Rightarrow> sendLine (''llama-swap loading model: '' @ ID) s)"

text \<open>The lines the goroutine writes as it leaves; \<open>secs\<close> is the printed duration.\<close>

definition closing_lines :: "string \<Rightarrow> string list" where
  "closing_lines secs = [[CHR 0x0A] @ ''Done! ('' @ secs @ ''s)'', ruler, '' '']"

text \<open>
  One tick: leave when the process is ready, otherwise a remark when its time has come or a dot. A panic of the write
  leaves the loop as a return does. \<open>n\<close> is the new random pause in seconds.
\<close>

definition updater_tick :: "string list \<Rightarrow> bool \<Rightarrow> int \<Rightarrow> int \<Rightarrow> string \<Rightarrow> nat \<times> int \<times> int \<Rightarrow> srwState \<Rightarrow> srwState" where
  "updater_tick remarks up now n secs loop s =
     (case loop of (ri, nextRemarkIn, lastRemarkTime) \<Rightarrow>
        if up then s\<lparr>sw_updater := UpdClosing (closing_lines secs)\<rparr>
        else if now - lastRemarkTime \<ge> nextRemarkIn then
          (case sendLine ([CHR 0x0A] @ remarks ! (ri mod length remarks)) s of
             (s, ok) \<Rightarrow> s\<lparr>sw_updater := (if ok then UpdLoop (ri + 1) (n * second) now else UpdClosing (closing_lines secs))\<rparr>)
        else
          (case sendData ''.'' s of
             (s, ok) \<Rightarrow> s\<lparr>sw_updater := (if ok then UpdLoop ri nextRemarkIn lastRemarkTime else UpdClosing (closing_lines secs))\<rparr>))"

text \<open>The deferred lines: a failed write is a panic that is recovered, and the rest is not written.\<close>

definition updater_close :: "string \<Rightarrow> string list \<Rightarrow> srwState \<Rightarrow> srwState" where
  "updater_close line rest s =
     (case sendLine line s of (s, ok) \<Rightarrow> s\<lparr>sw_updater := UpdClosing (if ok then rest else [])\<rparr>)"

text \<open>When a request gets the stream.\<close>

definition wantsLoading :: "ModelConfig \<Rightarrow> bool \<Rightarrow> string \<Rightarrow> bool" where
  "wantsLoading mc isStreaming path =
     (SendLoadingState mc = Some True \<and> isStreaming \<and> HasPrefix path ''/v1/chat/completions'')"

subsection \<open>The two goroutines\<close>

text \<open>What happens, one atomic action each; \<open>Started\<close> is the return of \<open>start\<close> with its error text.\<close>

datatype sw_act =
    Created | CreateFailed | Registered int int | Ticked bool int int string | CancelSeen string | LineWritten | Left
  | Started | StartFailed string | StartFailedGone string | Completed | TimedOut
  | AnsweredHeader int | Answered string | Disconnected

text \<open>
  \<open>remarks\<close> is the shuffled copy. The updater counts itself in only once it runs (\<open>Registered\<close>), and the handler's wait
  returns whenever the count is zero.
\<close>

inductive sw_step :: "string \<Rightarrow> string list \<Rightarrow> srwState \<Rightarrow> sw_act \<Rightarrow> srwState \<Rightarrow> bool" for ID remarks where
  created: "sw_handler s = HdNew \<Longrightarrow> newStatusResponseWriter ID s = (s', True) \<Longrightarrow>
     sw_step ID remarks s Created (s'\<lparr>sw_handler := HdStart, sw_updater := UpdSpawned\<rparr>)"
| create_failed: "sw_handler s = HdNew \<Longrightarrow> newStatusResponseWriter ID s = (s', False) \<Longrightarrow>
     sw_step ID remarks s CreateFailed (s'\<lparr>sw_handler := HdPanic\<rparr>)"
| registered: "sw_updater s = UpdSpawned \<Longrightarrow> 2 \<le> n \<Longrightarrow> n \<le> 5 \<Longrightarrow>
     sw_step ID remarks s (Registered n now) (s\<lparr>sw_wg := sw_wg s + 1, sw_updater := UpdLoop 0 (n * second) now\<rparr>)"
| ticked: "sw_updater s = UpdLoop ri nxt lst \<Longrightarrow> 5 \<le> n \<Longrightarrow> n \<le> 9 \<Longrightarrow>
     sw_step ID remarks s (Ticked up now n secs) (updater_tick remarks up now n secs (ri, nxt, lst) s)"
| cancel_seen: "sw_updater s = UpdLoop ri nxt lst \<Longrightarrow> sw_cancelled s \<Longrightarrow>
     sw_step ID remarks s (CancelSeen secs) (s\<lparr>sw_updater := UpdClosing (closing_lines secs)\<rparr>)"
| line_written: "sw_updater s = UpdClosing (line # rest) \<Longrightarrow>
     sw_step ID remarks s LineWritten (updater_close line rest s)"
| left: "sw_updater s = UpdClosing [] \<Longrightarrow>
     sw_step ID remarks s Left (s\<lparr>sw_wg := sw_wg s - 1, sw_updater := UpdDone\<rparr>)"
| started: "sw_handler s = HdStart \<Longrightarrow>
     sw_step ID remarks s Started (s\<lparr>sw_cancelled := True, sw_handler := HdWait True\<rparr>)"
| start_failed: "sw_handler s = HdStart \<Longrightarrow>
     sendData (''Unable to swap model err: unable to start process: '' @ err @ [CHR 0x0A]) (s\<lparr>sw_cancelled := True\<rparr>) = (s', True) \<Longrightarrow>
     sw_step ID remarks s (StartFailed err) (s'\<lparr>sw_handler := HdWait False\<rparr>)"
| start_failed_gone: "sw_handler s = HdStart \<Longrightarrow>
     sendData (''Unable to swap model err: unable to start process: '' @ err @ [CHR 0x0A]) (s\<lparr>sw_cancelled := True\<rparr>) = (s', False) \<Longrightarrow>
     sw_step ID remarks s (StartFailedGone err) (s'\<lparr>sw_handler := HdPanic\<rparr>)"
| completed: "sw_handler s = HdWait ok \<Longrightarrow> sw_wg s = 0 \<Longrightarrow>
     sw_step ID remarks s Completed (s\<lparr>sw_handler := (if ok then HdServe else HdEnd)\<rparr>)"
| timed_out: "sw_handler s = HdWait ok \<Longrightarrow>
     sw_step ID remarks s TimedOut (s\<lparr>sw_handler := (if ok then HdServe else HdEnd)\<rparr>)"
| answered_header: "sw_handler s = HdServe \<Longrightarrow>
     sw_step ID remarks s (AnsweredHeader code) (srw_WriteHeader code s)"
| answered: "sw_handler s = HdServe \<Longrightarrow> sw_connected s \<Longrightarrow>
     sw_step ID remarks s (Answered b) (s\<lparr>sw_out := sw_out s @ [FromUpstream b]\<rparr>)"
| disconnected: "sw_step ID remarks s Disconnected (s\<lparr>sw_connected := False\<rparr>)"

inductive sw_run :: "string \<Rightarrow> string list \<Rightarrow> sw_act list \<Rightarrow> srwState \<Rightarrow> bool" for ID remarks where
  sw_start: "sw_run ID remarks [] newSrw"
| sw_next: "sw_run ID remarks as s \<Longrightarrow> sw_step ID remarks s a s' \<Longrightarrow> sw_run ID remarks (as @ [a]) s'"

inductive_simps sw_step_simps:
  "sw_step ID remarks s Created s'" "sw_step ID remarks s (Registered n now) s'" "sw_step ID remarks s (Ticked up now n secs) s'"
  "sw_step ID remarks s (CancelSeen secs) s'" "sw_step ID remarks s LineWritten s'" "sw_step ID remarks s Left s'"
  "sw_step ID remarks s Started s'" "sw_step ID remarks s (StartFailed err) s'" "sw_step ID remarks s Completed s'"
  "sw_step ID remarks s (Answered b) s'" "sw_step ID remarks s (AnsweredHeader code) s'" "sw_step ID remarks s TimedOut s'"

inductive_cases sw_snoc: "sw_run ID remarks (as @ [a]) s"


subsection \<open>Order of the messages\<close>

fun is_registered :: "sw_act \<Rightarrow> bool" where
  "is_registered (Registered n t) = True"
| "is_registered a = False"

text \<open>The updater has counted itself in before the handler's wait returns.\<close>

definition registers_first :: "sw_act list \<Rightarrow> bool" where
  "registers_first as = list_ex is_registered (takeWhile (\<lambda>a. a \<noteq> Completed) as)"

definition banner :: "string \<Rightarrow> chunk list" where
  "banner ID = [FromStatus (ruler @ [CHR 0x0A]), FromStatus (''llama-swap loading model: '' @ ID @ [CHR 0x0A])]"

fun counted_in :: "updater \<Rightarrow> bool" where
  "counted_in (UpdLoop ri nxt lst) = True"
| "counted_in (UpdClosing ls) = True"
| "counted_in u = False"

fun has_begun :: "updater \<Rightarrow> bool" where
  "has_begun UpdNone = False"
| "has_begun UpdSpawned = False"
| "has_begun u = True"

text \<open>All progress messages come before all bytes of the upstream.\<close>

definition status_first :: "chunk list \<Rightarrow> bool" where
  "status_first out \<longleftrightarrow> out = filter from_status out @ filter (\<lambda>c. \<not> from_status c) out"

lemma status_first_status: "list_all from_status out \<Longrightarrow> status_first out"
  by (simp add: status_first_def filter_id_conv list_all_iff filter_empty_conv)

lemma status_first_Nil [simp]: "status_first []"
  by (simp add: status_first_def)

lemma status_first_upstream: "status_first out \<Longrightarrow> status_first (out @ [FromUpstream b])"
  by (simp add: status_first_def)

text \<open>What holds after the actions \<open>as\<close>: of the updater's count, and of the output in each phase of the handler.\<close>

fun lines_left :: "updater \<Rightarrow> nat" where
  "lines_left (UpdClosing ls) = length ls"
| "lines_left u = 0"

definition count_ok :: "sw_act list \<Rightarrow> srwState \<Rightarrow> bool" where
  "count_ok as s \<longleftrightarrow> sw_wg s = (if counted_in (sw_updater s) then 1 else 0)
     \<and> list_ex is_registered as = has_begun (sw_updater s) \<and> lines_left (sw_updater s) \<le> 3"

definition streaming :: "string \<Rightarrow> srwState \<Rightarrow> bool" where
  "streaming ID s \<longleftrightarrow> sw_hasWritten s \<and> sw_code s = Some 200 \<and> take 2 (sw_out s) = banner ID \<and> sw_updater s \<noteq> UpdNone"

fun phase_ok :: "string \<Rightarrow> sw_act list \<Rightarrow> srwState \<Rightarrow> loading \<Rightarrow> bool" where
  "phase_ok ID as s HdNew \<longleftrightarrow> sw_out s = [] \<and> \<not> sw_hasWritten s \<and> sw_updater s = UpdNone
     \<and> Completed \<notin> set as \<and> TimedOut \<notin> set as"
| "phase_ok ID as s HdStart \<longleftrightarrow> streaming ID s \<and> list_all from_status (sw_out s) \<and> Completed \<notin> set as \<and> TimedOut \<notin> set as"
| "phase_ok ID as s (HdWait ok) \<longleftrightarrow> streaming ID s \<and> list_all from_status (sw_out s) \<and> Completed \<notin> set as
     \<and> TimedOut \<notin> set as \<and> sw_cancelled s"
| "phase_ok ID as s HdServe \<longleftrightarrow> streaming ID s
     \<and> (TimedOut \<notin> set as \<longrightarrow> Completed \<in> set as
          \<and> (registers_first as \<longrightarrow> sw_updater s = UpdDone \<and> status_first (sw_out s)))"
| "phase_ok ID as s HdEnd \<longleftrightarrow> streaming ID s \<and> list_all from_status (sw_out s)"
| "phase_ok ID as s HdPanic \<longleftrightarrow> list_all from_status (sw_out s)"

definition sw_ok :: "string \<Rightarrow> sw_act list \<Rightarrow> srwState \<Rightarrow> bool" where
  "sw_ok ID as s \<longleftrightarrow> count_ok as s \<and> phase_ok ID as s (sw_handler s)"

lemma sendLine_fields [simp]:
  "sw_updater (fst (sendLine l s)) = sw_updater s" "sw_wg (fst (sendLine l s)) = sw_wg s"
  "sw_handler (fst (sendLine l s)) = sw_handler s" "sw_cancelled (fst (sendLine l s)) = sw_cancelled s"
  "sw_hasWritten (fst (sendLine l s)) = sw_hasWritten s" "sw_code (fst (sendLine l s)) = sw_code s"
  "sw_connected (fst (sendLine l s)) = sw_connected s"
  "sw_out (fst (sendLine l s)) = sw_out s @ (if sw_connected s then [FromStatus (l @ [CHR 0x0A])] else [])"
  "snd (sendLine l s) = sw_connected s"
  by (simp_all add: sendLine_def sendData_def)

text \<open>A step of the updater alone: it writes progress messages and changes its own place.\<close>

lemma updater_frame:
  assumes "s' = updater_tick remarks up now n secs (ri, nxt, lst) s \<or> s' = updater_close line rest s"
  shows "sw_wg s' = sw_wg s \<and> sw_handler s' = sw_handler s \<and> sw_cancelled s' = sw_cancelled s
    \<and> sw_hasWritten s' = sw_hasWritten s \<and> sw_code s' = sw_code s \<and> sw_connected s' = sw_connected s
    \<and> (\<exists>ds. sw_out s' = sw_out s @ map FromStatus ds) \<and> counted_in (sw_updater s')"
proof -
  have one: "\<exists>ds. [FromStatus d] = map FromStatus ds" for d by (rule exI [of _ "[d]"]) simp
  from assms show ?thesis
    by (elim disjE) (simp_all add: updater_tick_def updater_close_def sendLine_def sendData_def one)
qed

lemma take2_append: "take 2 xs = [a, b] \<Longrightarrow> take 2 (xs @ ys) = [a, b]"
  by (cases xs; cases "tl xs") auto

lemma updater_lines:
  "lines_left (sw_updater (updater_tick remarks up now n secs (ri, nxt, lst) s)) \<le> 3"
  "sw_updater (updater_close line rest s) = UpdClosing (if sw_connected s then rest else [])"
  by (simp_all add: updater_tick_def updater_close_def sendLine_def sendData_def closing_lines_def)

lemma banner_append: "take 2 xs = banner ID \<Longrightarrow> take 2 (xs @ ys) = banner ID"
  unfolding banner_def by (rule take2_append)

lemma banner_length: "take 2 xs = banner ID \<Longrightarrow> length xs \<ge> 2"
  by (drule arg_cong [of _ _ length]) (simp add: banner_def)

text \<open>A step of the updater keeps the invariant, as long as it stays counted in.\<close>

lemma counted_begun: "counted_in u \<Longrightarrow> has_begun u \<and> u \<noteq> UpdNone \<and> u \<noteq> UpdDone"
  by (cases u) simp_all

lemma registers_first_snoc: "Completed \<in> set as \<Longrightarrow> registers_first (as @ [a]) = registers_first as"
  by (simp add: registers_first_def takeWhile_append1)

lemma sw_ok_updater:
  assumes ok: "sw_ok ID as s" and u: "counted_in (sw_updater s)" "counted_in (sw_updater s')" "lines_left (sw_updater s') \<le> 3"
    and s': "sw_wg s' = sw_wg s" "sw_handler s' = sw_handler s" "sw_cancelled s' = sw_cancelled s"
      "sw_hasWritten s' = sw_hasWritten s" "sw_code s' = sw_code s" "sw_out s' = sw_out s @ map FromStatus ds"
    and a: "\<not> is_registered a" "a \<noteq> Completed" "a \<noteq> TimedOut"
  shows "sw_ok ID (as @ [a]) s'"
proof -
  note b = counted_begun [OF u(1)] counted_begun [OF u(2)]
  have c: "count_ok (as @ [a]) s'" using ok u b s'(1) a(1) by (simp add: sw_ok_def count_ok_def)
  have st: "list_all from_status (map FromStatus ds)" by (simp add: list_all_iff)
  have t: "streaming ID s'" if "streaming ID s"
    using that b s' banner_append [of "sw_out s" ID] unfolding streaming_def by metis
  have p: "phase_ok ID as s (sw_handler s)" using ok by (simp add: sw_ok_def)
  have "phase_ok ID (as @ [a]) s' (sw_handler s)"
  proof (cases "sw_handler s")
    case HdServe
    then show ?thesis using p t b a registers_first_snoc [of as a] by auto
  qed (use p t b a st s' in auto)
  with c s'(2) show ?thesis by (simp add: sw_ok_def)
qed


lemma sw_run_ok: "sw_run ID remarks as s \<Longrightarrow> sw_ok ID as s"
proof (induction rule: sw_run.induct)
  case sw_start
  show ?case by (simp add: sw_ok_def newSrw_def count_ok_def)
next
  case (sw_next as s a s')
  note ok = \<open>sw_ok ID as s\<close>
  then have c: "count_ok as s" and p: "phase_ok ID as s (sw_handler s)" by (simp_all add: sw_ok_def)
  show ?case
    using \<open>sw_step ID remarks s a s'\<close>
  proof cases
    case (created s1)
    then show ?thesis
      using c p
      by (auto simp: sw_ok_def count_ok_def streaming_def newStatusResponseWriter_def srw_WriteHeader_def sendLine_def sendData_def
          banner_def split: if_splits prod.splits)
  next
    case (create_failed s1)
    then show ?thesis
      using c p
      by (auto simp: sw_ok_def count_ok_def newStatusResponseWriter_def srw_WriteHeader_def sendLine_def sendData_def
          split: if_splits prod.splits)
  next
    case (registered n now)
    then show ?thesis
      using c p registers_first_snoc [of as a]
      by (cases "sw_handler s") (auto simp: sw_ok_def count_ok_def streaming_def)
  next
    case (ticked ri nxt lst n up now secs)
    with updater_frame [of s' remarks up now n secs ri nxt lst s] obtain ds where
      f: "sw_out s' = sw_out s @ map FromStatus ds" "counted_in (sw_updater s')" "sw_wg s' = sw_wg s" "sw_handler s' = sw_handler s"
        "sw_cancelled s' = sw_cancelled s" "sw_hasWritten s' = sw_hasWritten s" "sw_code s' = sw_code s" by blast
    show ?thesis
      by (rule sw_ok_updater [OF ok _ f(2) _ f(3-7,1)]) (use ticked updater_lines in auto)
  next
    case (cancel_seen ri nxt lst secs)
    show ?thesis
      by (rule sw_ok_updater [OF ok, where ds = "[]"]) (use cancel_seen in \<open>simp_all add: closing_lines_def\<close>)
  next
    case (line_written line rest)
    with updater_frame [of s' remarks _ _ _ _ _ _ _ s line rest] obtain ds where
      f: "sw_out s' = sw_out s @ map FromStatus ds" "counted_in (sw_updater s')" "sw_wg s' = sw_wg s" "sw_handler s' = sw_handler s"
        "sw_cancelled s' = sw_cancelled s" "sw_hasWritten s' = sw_hasWritten s" "sw_code s' = sw_code s" by blast
    show ?thesis
      by (rule sw_ok_updater [OF ok _ f(2) _ f(3-7,1)]) (use line_written updater_lines c in \<open>auto simp: count_ok_def\<close>)
  next
    case left
    then show ?thesis
      using c p registers_first_snoc [of as Left]
      by (cases "sw_handler s") (auto simp: sw_ok_def count_ok_def streaming_def)
  next
    case started
    then show ?thesis using c p by (auto simp: sw_ok_def count_ok_def streaming_def)
  next
    case (start_failed err s1)
    then obtain d where s1: "s1 = s\<lparr>sw_cancelled := True, sw_out := sw_out s @ [FromStatus d]\<rparr>"
      by (auto simp: sendData_def split: if_splits)
    have st: "streaming ID s" "list_all from_status (sw_out s)" using p start_failed by simp_all
    have "2 \<le> length (sw_out s)" using st(1) banner_length by (simp add: streaming_def)
    then show ?thesis
      using c p st start_failed(1-3) by (simp add: s1 sw_ok_def count_ok_def streaming_def)
  next
    case (start_failed_gone err s1)
    then show ?thesis using c p by (auto simp: sw_ok_def count_ok_def sendData_def split: if_splits)
  next
    case (completed ok)
    have "registers_first (as @ [Completed]) = list_ex is_registered as" if "Completed \<notin> set as"
    proof -
      have "takeWhile (\<lambda>a. a \<noteq> Completed) (as @ [Completed]) = as" using that by (induction as) auto
      then show ?thesis by (simp add: registers_first_def)
    qed
    with completed c p show ?thesis
      by (cases "sw_updater s") (auto simp: sw_ok_def count_ok_def streaming_def status_first_status)
  next
    case (timed_out ok)
    then show ?thesis using c p by (auto simp: sw_ok_def count_ok_def streaming_def)
  next
    case (answered_header code)
    then show ?thesis using c p registers_first_snoc [of as a]
      by (auto simp: sw_ok_def count_ok_def streaming_def srw_WriteHeader_def)
  next
    case (answered b)
    then show ?thesis using c p registers_first_snoc [of as a] banner_length [of "sw_out s" ID]
      by (auto simp: sw_ok_def count_ok_def streaming_def status_first_upstream)
  next
    case disconnected
    then show ?thesis using c p registers_first_snoc [of as a]
      by (cases "sw_handler s") (auto simp: sw_ok_def count_ok_def streaming_def)
  qed
qed


text \<open>Once the start has returned, the updater leaves in at most six actions of its own, whatever it was doing.\<close>

lemma closing_leaves:
  assumes "sw_run ID remarks as s" "sw_updater s = UpdClosing ls"
  shows "\<exists>bs s'. length bs \<le> length ls + 1 \<and> sw_run ID remarks (as @ bs) s' \<and> sw_updater s' = UpdDone
    \<and> sw_handler s' = sw_handler s"
  using assms
proof (induction "length ls" arbitrary: as s ls rule: less_induct)
  case less
  show ?case
  proof (cases ls)
    case Nil
    let ?s = "s\<lparr>sw_wg := sw_wg s - 1, sw_updater := UpdDone\<rparr>"
    have "sw_run ID remarks (as @ [Left]) ?s"
      by (rule sw_next [OF less.prems(1)]) (simp add: sw_step_simps less.prems(2) Nil)
    then have "length [Left] \<le> length ls + 1 \<and> sw_run ID remarks (as @ [Left]) ?s \<and> sw_updater ?s = UpdDone
        \<and> sw_handler ?s = sw_handler s" by simp
    then show ?thesis by blast
  next
    case (Cons line rest)
    let ?s = "updater_close line rest s" and ?ls = "if sw_connected s then rest else []"
    have r: "sw_run ID remarks (as @ [LineWritten]) ?s"
      by (rule sw_next [OF less.prems(1)]) (simp add: sw_step_simps less.prems(2) Cons)
    have "length ?ls < length ls" by (simp add: Cons)
    from less.hyps [OF this r updater_lines(2)] obtain bs s' where
      b: "length bs \<le> length ?ls + 1" "sw_run ID remarks ((as @ [LineWritten]) @ bs) s'" "sw_updater s' = UpdDone"
        "sw_handler s' = sw_handler ?s" by blast
    have "sw_handler ?s = sw_handler s" by (simp add: updater_close_def split_beta)
    with b have "length (LineWritten # bs) \<le> length ls + 1 \<and> sw_run ID remarks (as @ LineWritten # bs) s'
        \<and> sw_updater s' = UpdDone \<and> sw_handler s' = sw_handler s" by (simp add: Cons split: if_splits)
    then show ?thesis by blast
  qed
qed

lemma loop_leaves:
  assumes "sw_run ID remarks as s" "sw_updater s = UpdLoop ri nxt lst" "sw_cancelled s"
  shows "\<exists>bs s'. length bs \<le> 5 \<and> sw_run ID remarks (as @ bs) s' \<and> sw_updater s' = UpdDone \<and> sw_handler s' = sw_handler s"
proof -
  let ?s = "s\<lparr>sw_updater := UpdClosing (closing_lines [])\<rparr>"
  have "sw_run ID remarks (as @ [CancelSeen []]) ?s"
    by (rule sw_next [OF assms(1)]) (simp add: sw_step_simps assms(2,3))
  from closing_leaves [OF this, of "closing_lines []"] obtain bs s' where
    b: "length bs \<le> length (closing_lines []) + 1" "sw_run ID remarks ((as @ [CancelSeen []]) @ bs) s'" "sw_updater s' = UpdDone"
      "sw_handler s' = sw_handler ?s" by auto
  have "length (CancelSeen [] # bs) \<le> 5 \<and> sw_run ID remarks (as @ CancelSeen [] # bs) s' \<and> sw_updater s' = UpdDone
      \<and> sw_handler s' = sw_handler s" using b by (simp add: closing_lines_def)
  then show ?thesis by blast
qed


text \<open>A stream whose start has returned.\<close>

definition waiting :: "string \<Rightarrow> srwState" where
  "waiting ID = newSrw\<lparr>sw_hasWritten := True, sw_code := Some 200, sw_out := banner ID, sw_updater := UpdSpawned,
     sw_handler := HdWait True, sw_cancelled := True\<rparr>"

lemma waiting_run: "sw_run ID remarks [Created, Started] (waiting ID)"
proof -
  note st = sw_step_simps newStatusResponseWriter_def srw_WriteHeader_def sendLine_def sendData_def newSrw_def
  have "sw_run ID remarks [] newSrw" by (rule sw_start)
  from sw_next [OF this, where a = Created] have "sw_run ID remarks ([] @ [Created])
    (newSrw\<lparr>sw_hasWritten := True, sw_code := Some 200, sw_out := banner ID, sw_updater := UpdSpawned, sw_handler := HdStart\<rparr>)"
    by (simp add: st banner_def)
  from sw_next [OF this, where a = Started] show ?thesis by (simp add: st waiting_def)
qed


text \<open>
  What the hypothesis is for: the goroutine counts itself in only once it runs, so when the start returns at once - the
  process has come up in between - the wait can find a count of zero, and the closing lines land inside the
  upstream's answer.
\<close>

lemma early_wait:
  "\<exists>s. sw_run ID remarks [Created, Started, Completed, Answered b, Registered 2 0, CancelSeen secs, LineWritten] s
     \<and> sw_out s = banner ID @ [FromUpstream b, FromStatus (hd (closing_lines secs) @ [CHR 0x0A])] \<and> \<not> status_first (sw_out s)"
proof -
  note st = sw_step_simps newStatusResponseWriter_def srw_WriteHeader_def sendLine_def sendData_def updater_close_def newSrw_def
    let ?w = "waiting ID"
  have "sw_step ID remarks ?w Completed (?w\<lparr>sw_handler := (if True then HdServe else HdEnd)\<rparr>)"
    by (rule sw_step.completed) (simp_all add: waiting_def newSrw_def)
  from sw_next [OF waiting_run this] have "sw_run ID remarks [Created, Started, Completed]
    (newSrw\<lparr>sw_hasWritten := True, sw_code := Some 200, sw_out := banner ID, sw_updater := UpdSpawned, sw_handler := HdServe, sw_cancelled := True\<rparr>)"
    by (simp add: waiting_def newSrw_def)
  from sw_next [OF this, where a = "Answered b"] have "sw_run ID remarks [Created, Started, Completed, Answered b]
    (newSrw\<lparr>sw_hasWritten := True, sw_code := Some 200, sw_out := banner ID @ [FromUpstream b], sw_updater := UpdSpawned, sw_handler := HdServe, sw_cancelled := True\<rparr>)"
    by (simp add: st)
  from sw_next [OF this, where a = "Registered 2 0"] have "sw_run ID remarks [Created, Started, Completed, Answered b, Registered 2 0]
    (newSrw\<lparr>sw_hasWritten := True, sw_code := Some 200, sw_out := banner ID @ [FromUpstream b], sw_wg := 1,
       sw_updater := UpdLoop 0 (2 * second) 0, sw_handler := HdServe, sw_cancelled := True\<rparr>)"
    by (simp add: st)
  from sw_next [OF this, where a = "CancelSeen secs"] have
    "sw_run ID remarks [Created, Started, Completed, Answered b, Registered 2 0, CancelSeen secs]
    (newSrw\<lparr>sw_hasWritten := True, sw_code := Some 200, sw_out := banner ID @ [FromUpstream b], sw_wg := 1,
       sw_updater := UpdClosing (closing_lines secs), sw_handler := HdServe, sw_cancelled := True\<rparr>)"
    by (simp add: st)
  note last_run = this
  let ?s = "newSrw\<lparr>sw_hasWritten := True, sw_code := Some 200,
       sw_out := banner ID @ [FromUpstream b, FromStatus (hd (closing_lines secs) @ [CHR 0x0A])], sw_wg := 1,
       sw_updater := UpdClosing (tl (closing_lines secs)), sw_handler := HdServe, sw_cancelled := True\<rparr>"
  from sw_next [OF last_run, where a = LineWritten] have
    r: "sw_run ID remarks [Created, Started, Completed, Answered b, Registered 2 0, CancelSeen secs, LineWritten] ?s"
    by (simp add: st closing_lines_def)
  have o: "sw_out ?s = banner ID @ [FromUpstream b, FromStatus (hd (closing_lines secs) @ [CHR 0x0A])]"
    by (simp add: newSrw_def)
  have "\<not> status_first (sw_out ?s)" unfolding o by (simp add: status_first_def banner_def)
  with r o show ?thesis by blast
qed

subsection \<open>Stopping the command, asking for its health\<close>

text \<open>
  How the upstream command is asked to stop: \<open>execs\<close> is the outcome of running the stop command to its end, \<open>signals\<close> that of
  sending SIGTERM, \<open>pid\<close> the running process, if any. The second component is the command that was run.
\<close>

definition cmdStopUpstreamProcess ::
  "(string \<Rightarrow> string list) \<Rightarrow> (string list \<Rightarrow> bool) \<Rightarrow> bool \<Rightarrow> int option \<Rightarrow> ModelConfig \<Rightarrow> bool \<times> string list option" where
  "cmdStopUpstreamProcess shlexSplit execs signals pid mc =
     (case pid of
        None \<Rightarrow> (False, None)
      | Some n \<Rightarrow>
          if CmdStop mc \<noteq> [] then
            (case SanitizeCommand shlexSplit (ReplaceAll (CmdStop mc) ''${PID}'' (itoa n)) of
               None \<Rightarrow> (False, None)
             | Some stopArgs \<Rightarrow> (execs stopArgs, Some stopArgs))
          else (signals, None))"

definition checkHealthEndpoint :: "(string \<Rightarrow> int option) \<Rightarrow> string \<Rightarrow> bool" where
  "checkHealthEndpoint respond healthURL =
     (case respond healthURL of None \<Rightarrow> False | Some statusCode \<Rightarrow> statusCode = 200)"

end
