(* ===== verification/Manager_Start.thy ===== *)
theory Manager_Start
  imports Model_Listing Metrics_Monitor Credit_Allowance
begin

section \<open>Starting and shutting down a manager (New, Shutdown in proxy/proxymanager.go)\<close>

text \<open>
  \<open>New\<close> puts the components together: loggers, peers with their admission and affinity, the usage meter, the debit log with its
  emitter, the credit gate with its ledger and price book, and the process groups; then the preload loop runs. What
  it reads from outside - the files, the JSON decoders, \<open>time.ParseDuration\<close> - is the record \<open>startWorld\<close>.
\<close>

subsection \<open>Loggers\<close>

text \<open>Where a log monitor writes: nowhere, to the standard output, or into the combined log.\<close>

datatype sink = Discard | Stdout | ToMux

record loggers =
  muxLogger :: "sink \<times> LogMonitor"
  upstreamLogger :: "sink \<times> LogMonitor"
  proxyLogger :: "sink \<times> LogMonitor"

definition log_sinks :: "string \<Rightarrow> sink \<times> sink \<times> sink" where
  "log_sinks logToStdout =
     (if logToStdout = ''none'' then (Discard, Discard, Discard)
      else if logToStdout = ''both'' then (Stdout, ToMux, ToMux)
      else if logToStdout = ''upstream'' then (Stdout, ToMux, Discard)
      else (Stdout, Discard, ToMux))"

definition configuredLevel :: "string \<Rightarrow> int" where
  "configuredLevel logLevel =
     (let l = ToLower (TrimSpace logLevel) in
      if l = ''debug'' then LevelDebug else if l = ''info'' then LevelInfo
      else if l = ''warn'' then LevelWarn else if l = ''error'' then LevelError else LevelInfo)"

text \<open>Go's layout constants.\<close>

definition timeFormats :: "(string \<times> string) list" where
  "timeFormats =
     [(''ansic'', ''Mon Jan _2 15:04:05 2006''),
      (''unixdate'', ''Mon Jan _2 15:04:05 MST 2006''),
      (''rubydate'', ''Mon Jan 02 15:04:05 -0700 2006''),
      (''rfc822'', ''02 Jan 06 15:04 MST''),
      (''rfc822z'', ''02 Jan 06 15:04 -0700''),
      (''rfc850'', ''Monday, 02-Jan-06 15:04:05 MST''),
      (''rfc1123'', ''Mon, 02 Jan 2006 15:04:05 MST''),
      (''rfc1123z'', ''Mon, 02 Jan 2006 15:04:05 -0700''),
      (''rfc3339'', ''2006-01-02T15:04:05Z07:00''),
      (''rfc3339nano'', ''2006-01-02T15:04:05.999999999Z07:00''),
      (''kitchen'', ''3:04PM''),
      (''stamp'', ''Jan _2 15:04:05''),
      (''stampmilli'', ''Jan _2 15:04:05.000''),
      (''stampmicro'', ''Jan _2 15:04:05.000000''),
      (''stampnano'', ''Jan _2 15:04:05.000000000'')]"

definition newLoggers :: "Config \<Rightarrow> loggers" where
  "newLoggers c =
     (let (mux, up, px) = log_sinks (LogToStdout c);
          set_level = (\<lambda>l. SetLogLevel l (configuredLevel (LogLevel c)));
          set_format = (\<lambda>l. case map_of timeFormats (ToLower (TrimSpace (LogTimeFormat c))) of
                               None \<Rightarrow> l | Some f \<Rightarrow> SetLogTimeFormat l f)
      in \<lparr>muxLogger = (mux, NewLogMonitorWriter),
          upstreamLogger = (up, set_format (set_level NewLogMonitorWriter)),
          proxyLogger = (px, set_format (set_level NewLogMonitorWriter))\<rparr>)"

subsection \<open>The manager\<close>

record startWorld =
  nw_url :: "string \<Rightarrow> bool"
  nw_duration :: "string \<Rightarrow> int option"
  nw_unmarshal :: "string \<Rightarrow> DebitEvent option"
  nw_readErr :: bool
  nw_truncErr :: bool
  nw_openErr :: bool
  nw_decode :: "string \<Rightarrow> usagePersist option"
  nw_files :: usageFiles

record 'f manager =
  mg_pm :: proxyManager
  mg_loggers :: loggers
  mg_pipeline :: "'f pipeline"
  mg_limiter :: rateLimiter
  mg_log :: debitLog
  mg_gate :: creditGate
  mg_feed :: allowanceIngester
  mg_open :: bool
  buildDate :: string
  commit :: string
  version :: string

text \<open>The peers, with admission control and affinity where configured.\<close>

definition configuredQueueTimeout :: "startWorld \<Rightarrow> string \<Rightarrow> int" where
  "configuredQueueTimeout nw s =
     (let s = TrimSpace s in
      if s \<noteq> [] then (case nw_duration nw s of Some d \<Rightarrow> d | None \<Rightarrow> 0) else 0)"

definition newPeers :: "startWorld \<Rightarrow> Config \<Rightarrow> PeerProxy" where
  "newPeers nw c =
     (let pp = NewPeerProxy (Peers c);
          pp = (if MaxInflightPerPeer c > 0
                then setAdmission (MaxInflightPerPeer c) (configuredQueueTimeout nw (QueueTimeout c)) pp else pp)
      in if aff_Enabled (PeerAffinity c) then setAffinity (PeerAffinity c) pp else pp)"

definition newGate :: "Config \<Rightarrow> creditGate" where
  "newGate c =
     (newCreditGate (CreditGateEnforce c) (Some newCreditLedger) (Some (fst (priceBookFromConfig (CreditRates c)))))
       \<lparr>failOpen := CreditGateCanaryFailOpen c\<rparr>"

text \<open>\<open>New\<close> up to the start of the preload goroutine, with the disk of the debit log.\<close>

definition New :: "startWorld \<Rightarrow> Config \<Rightarrow> disk \<Rightarrow> 'f manager \<times> disk" where
  "New nw c d =
     (case newDebitLog (nw_unmarshal nw) (DebitLogPath c) (nw_readErr nw) (nw_truncErr nw) (nw_openErr nw) d of
        (dLog, d) \<Rightarrow>
          (\<lparr>mg_pm = \<lparr>pm_config = c, pm_groups = newGroups (nw_url nw) c, pm_peers = Some (newPeers nw c)\<rparr>,
            mg_loggers = newLoggers c,
            mg_pipeline = \<lparr>pl_metrics = newMetricsMonitor (configuredMaxMetrics (MetricsMaxInMemory c)),
              pl_usage = NewUsageMeter (nw_decode nw) (nw_files nw) (UsagePath c),
              pl_emitter = (if enabled dLog then Some (newDebitEmitter (DebitLogBufSize c)) else None)\<rparr>,
            mg_limiter = newRateLimiter (RateLimitPerMin c) (RateLimitOverrides c),
            mg_log = dLog, mg_gate = newGate c, mg_feed = newAllowanceIngester, mg_open = True,
            buildDate = ''unknown'', commit = ''abcd1234'', version = ''0''\<rparr>, d))"

definition SetVersion :: "string \<Rightarrow> string \<Rightarrow> string \<Rightarrow> 'f manager \<Rightarrow> 'f manager" where
  "SetVersion buildDate' commit' version' m = m\<lparr>buildDate := buildDate', commit := commit', version := version'\<rparr>"

text \<open>
  The preload loop, run in the background: \<open>serve\<close> is the request of one model on its process. The events are the
  \<open>ModelPreloadedEvent\<close>s; the outcome of the request is not looked at.
\<close>

definition preload_one :: "Config \<Rightarrow> (string \<Rightarrow> Process_Groups.call) \<Rightarrow> string \<Rightarrow> groups \<times> (string \<times> bool) list \<Rightarrow> groups \<times> (string \<times> bool) list" where
  "preload_one c serve preloadModelName st =
     (case st of (gs, evs) \<Rightarrow>
        (case RealModelName c preloadModelName of
           None \<Rightarrow> (gs, evs)
         | Some modelID \<Rightarrow>
             (case local_request (serve_call (serve modelID)) modelID gs of
                (gs, None) \<Rightarrow> (gs, evs @ [(modelID, False)])
              | (gs, Some _) \<Rightarrow> (gs, evs @ [(modelID, True)]))))"

definition preload :: "(string \<Rightarrow> Process_Groups.call) \<Rightarrow> 'f manager \<Rightarrow> 'f manager \<times> (string \<times> bool) list" where
  "preload serve m =
     (let pm = mg_pm m in
      case fold (preload_one (pm_config pm) serve) (Preload (pm_config pm)) (pm_groups pm, []) of
        (gs, evs) \<Rightarrow> (m\<lparr>mg_pm := pm\<lparr>pm_groups := gs\<rparr>\<rparr>, evs))"

text \<open>
  \<open>Shutdown\<close> with nothing else running: the groups, then the emitter's \<open>Close\<close>, which waits for its writer (\<open>app\<close> appends to
  the log on its disk), then the log.
\<close>

definition close_emitter :: "(debitLog \<times> disk \<Rightarrow> DebitEvent \<Rightarrow> (debitLog \<times> disk) \<times> bool) \<Rightarrow> debitEmitter \<times> debitLog \<times> disk
    \<Rightarrow> debitEmitter \<times> debitLog \<times> disk" where
  "close_emitter app s =
     em_run app s (EClose # EAppend # concat (replicate (length (ch (fst s))) [EReceive, EAppend]))"

definition Shutdown :: "(debitLog \<times> disk \<Rightarrow> DebitEvent \<Rightarrow> (debitLog \<times> disk) \<times> bool) \<Rightarrow> 'f manager \<Rightarrow> disk \<Rightarrow> 'f manager \<times> disk" where
  "Shutdown app m d =
     (let pm = mg_pm m; pl = mg_pipeline m; m = m\<lparr>mg_pm := pm\<lparr>pm_groups := pm_Shutdown (pm_groups pm)\<rparr>\<rparr> in
      case (case pl_emitter pl of
              None \<Rightarrow> (None, mg_log m, d)
            | Some e \<Rightarrow> (case close_emitter app (e, mg_log m, d) of (e, dl, d) \<Rightarrow> (Some e, dl, d))) of
        (em, dl, d) \<Rightarrow>
          (m\<lparr>mg_pipeline := pl\<lparr>pl_emitter := em\<rparr>, mg_log := Debit_Log.close dl, mg_open := False\<rparr>, d))"


subsection \<open>What starting establishes\<close>

lemma Shutdown_alone_down: "quiet_process p \<Longrightarrow> \<not> proc_up (Shutdown_alone p)"
  by (cases "pstate p") (auto simp: Shutdown_alone_def alone_defs quiet_process_def proc_up_def split: option.splits)

lemma pm_Shutdown_down:
  assumes "groups_ok gs"
  shows "list_all (\<lambda>(_, g). list_all (\<lambda>(_, p). \<not> proc_up p) (processes g)) (pm_Shutdown gs)"
proof -
  have "\<not> proc_up (Shutdown_alone p)" if "(ID, g) \<in> set gs" "(k, p) \<in> set (processes g)" for ID g k p
    using groups_ok_member [OF assms that(1)] that(2) Shutdown_alone_down [of p]
    by (auto simp: group_ok_def member.all_quiet_def)
  then show ?thesis by (auto simp: pm_Shutdown_def group_Shutdown_def list_all_iff)
qed

lemma configured_peers [simp]:
  "HasPeerModel (setAdmission l t p) = HasPeerModel p" "HasPeerModel (setAffinity a p) = HasPeerModel p"
  "peers (setAdmission l t p) = peers p" "peers (setAffinity a p) = peers p"
  "peerOrder (setAdmission l t p) = peerOrder p" "peerOrder (setAffinity a p) = peerOrder p"
  by (auto simp: HasPeerModel_def setAdmission_def setAffinity_def Let_def)

lemma registered_peers: "distinct (map fst (Peers c)) \<Longrightarrow> registered (newPeers nw c)"
  using registered_new [of "Peers c"] by (simp add: newPeers_def registered_def Let_def)

text \<open>The members of the groups, which requests do not change.\<close>

definition members_of :: "groups \<Rightarrow> (string \<times> string list) list" where
  "members_of gs = map (\<lambda>(ID, g). (ID, pg_members g)) gs"

lemma members_keys: "fst ` set (members_of gs) = fst ` set gs"
  by (simp add: members_of_def image_image split_beta)

lemma findGroup_members:
  "findGroupByModelName gs m = None \<longleftrightarrow> (\<forall>(ID, ms) \<in> set (members_of gs). m \<notin> set ms)"
  by (auto simp: findGroupByModelName_def find_None_iff HasMember_def members_of_def)

lemma on_process_members [simp]: "pg_members (on_process k f g) = pg_members g" "pg_id (on_process k f g) = pg_id g"
  by (simp_all add: on_process_def split: option.split)

lemma StopProcesses_members [simp]: "pg_members (StopProcesses st g) = pg_members g"
  by (simp add: StopProcesses_def)

lemma group_ProxyRequest_members: "pg_members (fst (group_ProxyRequest serve m g)) = pg_members g"
  by (simp add: group_ProxyRequest_def Let_def split: option.split)

lemma members_update:
  "map_of gs k = Some g \<Longrightarrow> pg_members g' = pg_members g \<Longrightarrow> members_of (AList.update k g' gs) = members_of gs"
  by (induction gs) (auto simp: members_of_def split: if_splits)

lemma swap_members: "swapProcessGroup m gs = (gs', r) \<Longrightarrow> members_of gs' = members_of gs"
  by (auto simp: swapProcessGroup_def members_of_def split: option.splits if_splits)

lemma local_request_members:
  assumes "groups_ok gs"
  shows "members_of (fst (local_request serve m gs)) = members_of gs
    \<and> (snd (local_request serve m gs) = None \<longleftrightarrow> findGroupByModelName gs m = None)"
proof (cases "findGroupByModelName gs m")
  case None
  then show ?thesis by (simp add: local_request_def swapProcessGroup_def)
next
  case (Some pg)
  obtain gs' where s: "swapProcessGroup m gs = (gs', Some pg)" using Some by (simp add: swapProcessGroup_def)
  have ID: "(pg_id pg, pg) \<in> set gs"
    using findGroup_Some [OF Some assms] by auto
  have "fst ` set gs' = fst ` set gs"
    using swap_members [OF s] by (metis members_keys)
  then have "pg_id pg \<in> fst ` set gs'" using ID by force
  then obtain pg' where g: "map_of gs' (pg_id pg) = Some pg'"
    by (cases "map_of gs' (pg_id pg)") (auto simp: map_of_eq_None_iff)
  obtain pg'' r where r: "group_ProxyRequest serve m pg' = (pg'', r)" by fastforce
  have "pg_members pg'' = pg_members pg'" using group_ProxyRequest_members [of serve m pg'] r by simp
  then show ?thesis
    using Some swap_members [OF s] members_update [OF g]
    by (simp add: local_request_def s g r)
qed

text \<open>The preload loop: the invariant of the groups is kept, and each name that resolves gives one event.\<close>

lemma preload_loop:
  assumes "groups_ok gs" "list_all (\<lambda>n. RealModelName c n \<noteq> Some []) names"
  shows "case fold (preload_one c serve) names (gs, evs) of (gs', evs') \<Rightarrow>
    groups_ok gs' \<and> members_of gs' = members_of gs
    \<and> evs' = evs @ map (\<lambda>ID. (ID, findGroupByModelName gs ID \<noteq> None)) (List.map_filter (RealModelName c) names)"
  using assms
proof (induction names arbitrary: gs evs)
  case (Cons n names)
  show ?case
  proof (cases "RealModelName c n")
    case None
    then show ?thesis using Cons.IH [OF Cons.prems(1), of evs] Cons.prems(2) by (simp add: preload_one_def map_filter_simps)
  next
    case (Some ID)
    obtain gs1 r where r: "local_request (serve_call (serve ID)) ID gs = (gs1, r)" by fastforce
    have ne: "ID \<noteq> []" using Cons.prems(2) Some by auto
    have 1: "groups_ok gs1" using groups_ok_request [OF Cons.prems(1) ne, of "serve ID"] r by simp
    have m: "members_of gs1 = members_of gs" "r = None \<longleftrightarrow> findGroupByModelName gs ID = None"
      using local_request_members [OF Cons.prems(1), of "serve_call (serve ID)" ID] r by simp_all
    have f: "(findGroupByModelName gs1 k = None) = (findGroupByModelName gs k = None)" for k
      by (simp add: findGroup_members m(1))
    show ?thesis
      using Cons.IH [OF 1, of "evs @ [(ID, r \<noteq> None)]"] Cons.prems(2) m f
      by (cases r) (auto simp: preload_one_def Some r map_filter_simps split: prod.splits)
  qed
qed (simp add: map_filter_simps)


lemma closed_emitter:
  assumes "close_emitter app (e, dl, d) = (e', dl', d')"
  shows "writer_done e'" "Emit e' ev = e'"
proof -
  show w: "writer_done e'"
    using Close_drains [of app e "(dl, d)"] assms by (simp add: close_emitter_def split_beta)
  then show "Emit e' ev = e'" by (simp add: Emit_def writer_done_def)
qed

lemma closed_log: "\<not> enabled (Debit_Log.close dl)"
  by (simp add: enabled_def Debit_Log.close_def)

definition nothing_up :: "groups \<Rightarrow> bool" where
  "nothing_up gs \<longleftrightarrow> list_all (\<lambda>(_, g). list_all (\<lambda>(_, p). \<not> proc_up p) (processes g)) gs"

lemma set_map_filter_Some: "y \<in> set (List.map_filter f xs) \<longleftrightarrow> (\<exists>x \<in> set xs. f x = Some y)"
  by (induction xs) (auto simp: map_filter_simps split: option.splits)

lemma nothing_up_new: "nothing_up (newGroups urlOK c)"
proof -
  have "list_all (\<lambda>(_, p). \<not> proc_up p) (processes g)" if "(ID, g) \<in> set (newGroups urlOK c)" for ID g
  proof -
    have "\<exists>x. NewProcessGroup urlOK x c = Some g"
      using that by (auto simp: newGroups_def set_map_filter_Some split: prod.splits)
    moreover have "member.all_down ([] :: (string \<times> Process) list)" by (simp add: member.all_down_def member.all_quiet_def)
    ultimately have "member.all_down (processes g)"
      using new_members_down by (auto simp: NewProcessGroup_def split: option.splits)
    then show ?thesis by (auto simp: member.all_down_def list_all_iff)
  qed
  then show ?thesis unfolding nothing_up_def list_all_iff by fastforce
qed

text \<open>
  C21. The life of a manager. Starting establishes what the components rely on: the groups are well-formed with every
  process down, the peers are registered in sorted order with their slots free and bounded exactly when a
  bound is configured, the ledger and its feed are empty and consistent, and there is an emitter exactly when the debit log is
  open. The preload keeps the groups well-formed, touches nothing else, and reports one event per configured name that
  resolves, in order - successful exactly when some group has the model, whatever its load came to. And after
  whatever requests and stops followed, \<open>Shutdown\<close> leaves no process up, the emitter drained and deaf, and the log closed.
\<close>

theorem manager_lifecycle:
  fixes pl :: "'f pipeline"
  assumes "distinct (map fst (Groups c))" "distinct (map fst (Peers c))"
    and names: "list_all (\<lambda>n. RealModelName c n \<noteq> Some []) (Preload c)" and ops: "list_all named ops"
  shows "case (New nw c d :: 'f manager \<times> disk) of (m, d1) \<Rightarrow>
    (case preload serve m of (m1, evs) \<Rightarrow>
      (case Shutdown app (m1\<lparr>mg_pm := (mg_pm m1)\<lparr>pm_groups := fold group_do ops (pm_groups (mg_pm m1))\<rparr>, mg_pipeline := pl\<rparr>) d2 of
        (m2, d3) \<Rightarrow>
         groups_ok (pm_groups (mg_pm m)) \<and> nothing_up (pm_groups (mg_pm m))
       \<and> (case pm_peers (mg_pm m) of
            None \<Rightarrow> False
          | Some pp \<Rightarrow> registered pp \<and> adm_ok (admission pp, Map.empty) \<and> maxInflight (admission pp) = max 0 (MaxInflightPerPeer c))
       \<and> (case g_ledger (mg_gate m) of None \<Rightarrow> False | Some l \<Rightarrow> feed_ok (mg_feed m) l)
       \<and> (pl_emitter (mg_pipeline m) = None \<longleftrightarrow> \<not> enabled (mg_log m))
       \<and> groups_ok (pm_groups (mg_pm m1)) \<and> m1\<lparr>mg_pm := mg_pm m\<rparr> = m
       \<and> evs = map (\<lambda>ID. (ID, findGroupByModelName (pm_groups (mg_pm m)) ID \<noteq> None)) (List.map_filter (RealModelName c) (Preload c))
       \<and> nothing_up (pm_groups (mg_pm m2)) \<and> \<not> enabled (mg_log m2) \<and> \<not> mg_open m2
       \<and> (case pl_emitter (mg_pipeline m2) of None \<Rightarrow> pl_emitter pl = None | Some e \<Rightarrow> writer_done e \<and> Emit e ev = e)))"
proof -
  obtain m :: "'f manager" and d1 where m: "New nw c d = (m, d1)" by fastforce
  obtain m1 evs where m1: "preload serve m = (m1, evs)" by fastforce
  let ?m = "m1\<lparr>mg_pm := (mg_pm m1)\<lparr>pm_groups := fold group_do ops (pm_groups (mg_pm m1))\<rparr>, mg_pipeline := pl\<rparr>"
  obtain m2 d3 where m2: "Shutdown app ?m d2 = (m2, d3)" by fastforce
  have fields: "pm_groups (mg_pm m) = newGroups (nw_url nw) c" "pm_config (mg_pm m) = c" "pm_peers (mg_pm m) = Some (newPeers nw c)"
    "mg_gate m = newGate c" "mg_feed m = newAllowanceIngester"
    "pl_emitter (mg_pipeline m) = None \<longleftrightarrow> \<not> enabled (mg_log m)"
    using m by (auto simp: New_def split: prod.splits)
  have gs: "groups_ok (pm_groups (mg_pm m))" unfolding fields(1) by (rule newGroups_ok [OF assms(1)])
  have up: "nothing_up (pm_groups (mg_pm m))" unfolding fields(1) by (rule nothing_up_new)
  have adm: "admission (newPeers nw c) = newPeerAdmission (max 0 (MaxInflightPerPeer c))
      (if MaxInflightPerPeer c > 0 then configuredQueueTimeout nw (QueueTimeout c) else 0) (sort (map fst (Peers c)))"
    by (simp add: newPeers_def setAdmission_def setAffinity_def NewPeerProxy_def Let_def max_def)
  have "maxInflight (newPeerAdmission k qt ids) = k" for k qt ids by (simp add: newPeerAdmission_def)
  then have peers_ok: "registered (newPeers nw c)" "adm_ok (admission (newPeers nw c), Map.empty)"
    "maxInflight (admission (newPeers nw c)) = max 0 (MaxInflightPerPeer c)"
    using registered_peers [OF assms(2)] new_ok adm by simp_all
  have led: "g_ledger (newGate c) = Some newCreditLedger" by (simp add: newGate_def newCreditGate_def)
  obtain gs' evs' where f: "fold (preload_one c serve) (Preload c) (pm_groups (mg_pm m), []) = (gs', evs')" by fastforce
  note loop = preload_loop [OF gs names, where serve = serve and evs = "[]"]
  have 1: "m1 = m\<lparr>mg_pm := (mg_pm m)\<lparr>pm_groups := gs'\<rparr>\<rparr>" "evs = evs'"
    using m1 f by (simp_all add: preload_def fields(2) Let_def)
  have 2: "groups_ok gs'"
    "evs' = map (\<lambda>ID. (ID, findGroupByModelName (pm_groups (mg_pm m)) ID \<noteq> None)) (List.map_filter (RealModelName c) (Preload c))"
    using loop f by simp_all
  have ok: "groups_ok (pm_groups (mg_pm ?m))" using groups_ok_run [OF 2(1) ops] 1 by simp
  have 3: "nothing_up (pm_groups (mg_pm m2))" "\<not> enabled (mg_log m2)" "\<not> mg_open m2"
    using pm_Shutdown_down [OF ok] m2
    by (auto simp: Shutdown_def Let_def nothing_up_def closed_log split: prod.splits)
  have 4: "case pl_emitter (mg_pipeline m2) of None \<Rightarrow> pl_emitter pl = None | Some e \<Rightarrow> writer_done e \<and> Emit e ev = e"
    using m2 closed_emitter by (cases "pl_emitter pl") (auto simp: Shutdown_def Let_def split: prod.splits)
  show ?thesis
    unfolding m m1 m2 prod.case
    using gs up peers_ok led feed_ok_new fields 1 2 3 4 by simp
qed


definition quiet_world :: startWorld where
  "quiet_world = \<lparr>nw_url = (\<lambda>_. True), nw_duration = (\<lambda>_. None), nw_unmarshal = (\<lambda>_. None), nw_readErr = False,
     nw_truncErr = False, nw_openErr = False, nw_decode = (\<lambda>_. None), nw_files = \<lparr>uf_main = None, uf_tmp = None\<rparr>\<rparr>"

definition preload_config :: Config where
  "preload_config = swap_config\<lparr>Preload := [''b'', ''none'', ''a''], Peers := [], CreditRates := []\<rparr>"

theorem manager_lifecycle_witness:
  "case (New quiet_world preload_config None :: int manager \<times> disk) of (m, d) \<Rightarrow>
     (case preload (\<lambda>_. Process_Groups.sample_call) m of (m1, evs) \<Rightarrow> evs = [(''b'', True), (''a'', True)] \<and> groups_ok (pm_groups (mg_pm m1)))"
proof -
  let ?c = preload_config
  have c: "distinct (map fst (Groups ?c))" "distinct (map fst (Peers ?c))"
    by (simp_all add: preload_config_def swap_config_def sample_config_def)
  have real: "RealModelName ?c ''b'' = Some ''b''" "RealModelName ?c ''a'' = Some ''a''" "RealModelName ?c ''none'' = None"
    by (simp_all add: RealModelName_def preload_config_def swap_config_def sample_config_def)
  then have names: "list_all (\<lambda>n. RealModelName ?c n \<noteq> Some []) (Preload ?c)" by (simp add: preload_config_def)
  have pre: "List.map_filter (RealModelName ?c) (Preload ?c) = [''b'', ''a'']"
    using real by (simp add: preload_config_def map_filter_simps)
  have grp: "findGroupByModelName (newGroups (nw_url quiet_world) ?c) ''a'' \<noteq> None"
    "findGroupByModelName (newGroups (nw_url quiet_world) ?c) ''b'' \<noteq> None"
    by (simp_all add: findGroupByModelName_def newGroups_def preload_config_def swap_config_def sample_config_def
        NewProcessGroup_def HasMember_def map_filter_simps)
  have gs: "pm_groups (mg_pm (fst (New quiet_world ?c None :: int manager \<times> disk))) = newGroups (nw_url quiet_world) ?c"
    by (simp add: New_def split: prod.split)
  from manager_lifecycle [OF c names, where ops = "[]" and nw = quiet_world and d = None
      and serve = "\<lambda>_. Process_Groups.sample_call" and app = "\<lambda>s ev. (s, True)"
      and pl = "mg_pipeline (fst (New quiet_world ?c None :: int manager \<times> disk))"] grp gs pre
  show ?thesis by (auto split: prod.splits)
qed

end
