(* ===== verification/Admin_Handlers.thy ===== *)
theory Admin_Handlers
  imports Manager_Start Request_Paths
begin

section \<open>Administrative endpoints and event streams\<close>

text \<open>
  The usage and debit endpoints of proxy/usage_meter.go and proxy/proxymanager.go, which only the configured readers may
  call, and the streams of proxy/proxymanager_api.go and proxy/proxymanager_loghandlers.go, which publishers fill through
  a bounded buffer without ever waiting. An answer is a status, or what the handler prints as JSON.
\<close>

subsection \<open>Usage\<close>

definition usageHandler :: "Config \<Rightarrow> ginCtx \<Rightarrow> UsageMeter option \<Rightarrow> int + usageSnapshot option" where
  "usageHandler c ctx meter =
     (if \<not> usageReaderAllowed (UsageReaders c) (gc_client ctx) then Inl 403
      else Inr (map_option um_Snapshot meter))"

text \<open>The reset clears under the mutex and then flushes; \<open>written\<close> and \<open>renames\<close> are the outcome of the file operations.\<close>

definition usageResetHandler :: "(usagePersist \<Rightarrow> string option) \<Rightarrow> nat option \<Rightarrow> bool \<Rightarrow> Config \<Rightarrow> ginCtx
    \<Rightarrow> UsageMeter option \<times> usageFiles \<Rightarrow> (UsageMeter option \<times> usageFiles) \<times> (int + bool)" where
  "usageResetHandler enc written renames c ctx st =
     (case st of (meter, f) \<Rightarrow>
        if \<not> usageReaderAllowed (UsageReaders c) (gc_client ctx) then (st, Inl 403)
        else case meter of
          None \<Rightarrow> (st, Inr True)
        | Some m \<Rightarrow>
            (case flush_take enc (um_clear m) of
               (m, None) \<Rightarrow> ((Some m, f), Inr True)
             | (m, Some b) \<Rightarrow> ((Some m, flush_write written renames b f), Inr True)))"

subsection \<open>Debits\<close>

text \<open>\<open>strconv.ParseUint(s, 10, 64)\<close>.\<close>

fun digits_value :: "nat \<Rightarrow> string \<Rightarrow> nat option" where
  "digits_value n [] = Some n"
| "digits_value n (c # s) =
     (let d = (of_char c :: nat) in
      if 48 \<le> d \<and> d \<le> 57 then digits_value (n * 10 + (d - 48)) s else None)"

definition ParseUint :: "string \<Rightarrow> nat option" where
  "ParseUint s =
     (if s = [] then None
      else case digits_value 0 s of None \<Rightarrow> None | Some n \<Rightarrow> if n < 18446744073709551616 then Some n else None)"

record debitsAnswer =
  da_enabled :: bool
  da_events :: "DebitEvent list"
  da_high_water :: nat
  da_counters :: "(int \<times> int \<times> int) option"

definition debitsPullHandler :: "Config \<Rightarrow> ginCtx \<Rightarrow> string \<Rightarrow> debitLog option \<Rightarrow> debitEmitter option \<Rightarrow> int + debitsAnswer" where
  "debitsPullHandler c ctx query dl em =
     (if \<not> usageReaderAllowed (UsageReaders c) (gc_client ctx) then Inl 403
      else case dl of
        None \<Rightarrow> Inr \<lparr>da_enabled = False, da_events = [], da_high_water = 0, da_counters = None\<rparr>
      | Some dl \<Rightarrow>
          if \<not> enabled dl then Inr \<lparr>da_enabled = False, da_events = [], da_high_water = 0, da_counters = None\<rparr>
          else
            let since = (if query \<noteq> [] then (case ParseUint query of Some v \<Rightarrow> v | None \<Rightarrow> 0) else 0);
                (events, head) = SinceWithHead dl since
            in Inr \<lparr>da_enabled = True, da_events = events, da_high_water = head,
                 da_counters = map_option (\<lambda>e. (droppedCount e, failedCount e, appendedCount e)) em\<rparr>)"

text \<open>The head a pull returned, sent back in decimal, is read as that number.\<close>

lemma digits_value_append: "digits_value n (s @ t) = (case digits_value n s of None \<Rightarrow> None | Some m \<Rightarrow> digits_value m t)"
  by (induction s arbitrary: n) (auto simp: Let_def)

lemma digit_char: "k < 10 \<Longrightarrow> (of_char (char_of (48 + k) :: char) :: nat) = 48 + k"
  by (simp add: of_char_of)

lemma digits_value_digits: "digits_value 0 (digits n) = Some n"
proof (induction n rule: digits.induct)
  case (1 n)
  show ?case
  proof (cases "n < 10")
    case True
    then show ?thesis by (simp add: digits.simps digit_char)
  next
    case False
    have m: "n mod 10 < 10" by simp
    from 1 [OF False] False show ?thesis
      by (subst digits.simps) (simp add: digits_value_append digit_char [OF m])
  qed
qed

lemma ParseUint_digits: "n < 18446744073709551616 \<Longrightarrow> ParseUint (digits n) = Some n"
proof -
  have "digits n \<noteq> []" by (subst digits.simps) simp
  then show "n < 18446744073709551616 \<Longrightarrow> ParseUint (digits n) = Some n"
    by (simp add: ParseUint_def digits_value_digits)
qed

text \<open>A reader that pulls with the cursor \<open>n\<close>, printed in decimal.\<close>

lemma pull_answer:
  assumes "usageReaderAllowed (UsageReaders c) (gc_client ctx)" "enabled dl" "n < 18446744073709551616"
  shows "debitsPullHandler c ctx (digits n) (Some dl) em = Inr \<lparr>da_enabled = True, da_events = Since dl n,
    da_high_water = highWater dl, da_counters = map_option (\<lambda>e. (droppedCount e, failedCount e, appendedCount e)) em\<rparr>"
proof -
  have "digits n \<noteq> []" by (subst digits.simps) simp
  then show ?thesis
    using assms by (simp add: debitsPullHandler_def ParseUint_digits SinceWithHead_def Since_def highWater_def)
qed

text \<open>
  C14. Pulling debits over HTTP: only a caller whose label is a configured reader (the admin, when none is configured)
  gets anything but 403. A reader that starts with any cursor the log has reached and sends back, in decimal, the head of
  each answer, receives every event above its cursor exactly once and in order, however many events are appended between its
  pulls; and a cursor that does not parse as a 64-bit number is answered with the whole log, never with less.
\<close>

theorem pulls_complete:
  assumes "log_ok marshal dl d" "\<forall>ev. marshal ev \<noteq> None" "cursor \<le> highWater dl" "highWater dl < 18446744073709551616"
  shows "if \<not> usageReaderAllowed (UsageReaders c) (gc_client ctx)
    then debitsPullHandler c ctx query log em = Inl 403
    else case debitsPullHandler c ctx (digits cursor) (Some dl) em of
        Inl code \<Rightarrow> False
      | Inr r1 \<Rightarrow>
          (case append_all marshal (dl, d) later of (dl', d') \<Rightarrow>
           case debitsPullHandler c ctx (digits (da_high_water r1)) (Some dl') em' of
             Inl code \<Rightarrow> False
           | Inr r2 \<Rightarrow>
               da_enabled r1 \<and> da_enabled r2
             \<and> map Seq (da_events r1 @ da_events r2) = [cursor + 1..<highWater dl' + 1]
             \<and> da_high_water r2 = highWater dl + length later
             \<and> da_events r1 @ da_events r2 = Since dl' cursor
             \<and> (ParseUint query = None \<longrightarrow>
                  (case debitsPullHandler c ctx query (Some dl') em' of
                     Inl code \<Rightarrow> False | Inr r \<Rightarrow> da_events r = Since dl' 0)))"
proof (cases "usageReaderAllowed (UsageReaders c) (gc_client ctx)")
  case False
  then show ?thesis by (simp add: debitsPullHandler_def)
next
  case True
  obtain dl' d' where a: "append_all marshal (dl, d) later = (dl', d')" by fastforce
  have en: "enabled dl" "enabled dl'"
    using assms(1) append_all_ok [OF _ assms(1), of later] assms(2) a by (auto simp: log_ok_def enabled_def)
  note p1 = pull_answer [OF True en(1)] and p2 = pull_answer [OF True en(2) assms(4)]
  have c: "cursor < 18446744073709551616" using assms(3,4) by simp
  note t = pull_complete [OF assms(1,3,2), of later, unfolded a Let_def SinceWithHead_def split_conv]
  have s: "map Seq (Since dl cursor) = [cursor + 1..<highWater dl + 1]"
    "map Seq (Since dl' (highWater dl)) = [highWater dl + 1..<highWater dl' + 1]"
    "Since dl' cursor = Since dl cursor @ Since dl' (highWater dl)" "highWater dl' = highWater dl + length later"
    using t by (simp_all add: Since_def SinceWithHead_def highWater_def)
  have "map Seq (Since dl cursor @ Since dl' (highWater dl)) = [cursor + 1..<highWater dl' + 1]"
    using s(1,2,4) assms(3) upt_add_eq_append [of "cursor + 1" "highWater dl + 1" "length later"] by simp
  moreover have "case debitsPullHandler c ctx query (Some dl') em' of Inl code \<Rightarrow> False | Inr r \<Rightarrow> da_events r = Since dl' 0"
    if "ParseUint query = None"
    using True en(2) that by (simp add: debitsPullHandler_def SinceWithHead_def Since_def)
  ultimately show ?thesis
    using True s(3,4) by (simp add: a p1 [OF c] p2)
qed


definition admin_ctx :: ginCtx where
  "admin_ctx = emptyCtx\<lparr>gc_client := ''admin''\<rparr>"

definition admin_config :: Config where
  "admin_config = swap_config\<lparr>UsageReaders := []\<rparr>"

theorem pulls_complete_witness:
  "let s = append_all line_marshal (newDebitLog line_unmarshal ''/log'' False False False None) [sample_event, sample_event];
       s' = append_all line_marshal s [sample_event] in
   case debitsPullHandler admin_config admin_ctx (digits 1) (Some (fst s)) None of
     Inl code \<Rightarrow> False
   | Inr r1 \<Rightarrow>
       (case debitsPullHandler admin_config admin_ctx (digits (da_high_water r1)) (Some (fst s')) None of
          Inl code \<Rightarrow> False
        | Inr r2 \<Rightarrow> map Seq (da_events r1 @ da_events r2) = [1 + 1..<highWater (fst s') + 1])"
proof -
  let ?new = "newDebitLog line_unmarshal ''/log'' False False False None"
  let ?s = "append_all line_marshal ?new [sample_event, sample_event]"
  have "log_ok line_marshal (fst ?new) (snd ?new)"
    by (simp add: newDebitLog_def load_def log_ok_def)
  from append_all_ok [OF _ this, of "[sample_event, sample_event]"]
  have ok: "log_ok line_marshal (fst ?s) (snd ?s)"
    by (simp add: case_prod_unfold line_marshal_def)
  have h: "highWater (fst ?s) = 2"
    by (simp add: newDebitLog_def load_def Append_def line_marshal_def Let_def highWater_def)
  have allowed: "usageReaderAllowed (UsageReaders admin_config) (gc_client admin_ctx)"
    by (simp add: usageReaderAllowed_def admin_config_def admin_ctx_def)
  from pulls_complete [OF ok line_marshal_total, where cursor = 1 and c = admin_config and ctx = admin_ctx and later = "[sample_event]"
      and query = "''x''" and log = None and em = None and em' = None]
  show ?thesis
    using allowed by (auto simp: h Let_def simp del: append_all.simps upt_Suc split: sum.splits prod.splits)
qed

subsection \<open>Streams\<close>

text \<open>
  A stream has a channel that publishers offer messages to without waiting - a full channel drops the message - and a loop
  that sends what it receives until the client or the manager goes away. When the context is done and there is room, Go's
  select may take either case: \<open>pick\<close>.
\<close>

record 'm eventStream =
  es_buf :: "'m list"
  es_sent :: "'m list"
  es_cancelled :: bool
  es_closed :: bool

definition newStream :: "'m eventStream" where
  "newStream = \<lparr>es_buf = [], es_sent = [], es_cancelled = False, es_closed = False\<rparr>"

definition es_offer :: "nat \<Rightarrow> bool \<Rightarrow> 'm \<Rightarrow> 'm eventStream \<Rightarrow> 'm eventStream" where
  "es_offer cap pick m s =
     (if length (es_buf s) < cap then (if es_cancelled s \<and> \<not> pick then s else s\<lparr>es_buf := es_buf s @ [m]\<rparr>) else s)"

definition es_send :: "'m eventStream \<Rightarrow> 'm eventStream" where
  "es_send s =
     (if es_closed s then s
      else case es_buf s of [] \<Rightarrow> s | m # ms \<Rightarrow> s\<lparr>es_buf := ms, es_sent := es_sent s @ [m]\<rparr>)"

definition es_cancel :: "'m eventStream \<Rightarrow> 'm eventStream" where
  "es_cancel s = s\<lparr>es_cancelled := True, es_closed := True\<rparr>"

datatype 'm stream_op = SOffer bool 'm | SSend | SCancel

fun es_do :: "nat \<Rightarrow> 'm stream_op \<Rightarrow> 'm eventStream \<Rightarrow> 'm eventStream" where
  "es_do cap (SOffer pick m) s = es_offer cap pick m s"
| "es_do cap SSend s = es_send s"
| "es_do cap SCancel s = es_cancel s"

fun offers :: "'m stream_op list \<Rightarrow> 'm list" where
  "offers [] = []"
| "offers (SOffer pick m # ops) = m # offers ops"
| "offers (op # ops) = offers ops"

text \<open>\<open>keeps_up\<close>: no offer meets a full channel or a cancelled context.\<close>

fun keeps_up :: "nat \<Rightarrow> 'm stream_op list \<Rightarrow> 'm eventStream \<Rightarrow> bool" where
  "keeps_up cap [] s = True"
| "keeps_up cap (op # ops) s =
     ((case op of SOffer pick m \<Rightarrow> length (es_buf s) < cap \<and> \<not> es_cancelled s | _ \<Rightarrow> True) \<and> keeps_up cap ops (es_do cap op s))"

locale bounded_stream =
  fixes cap :: nat
  assumes room: "0 < cap"
begin

definition waiting_ok :: "'m eventStream \<Rightarrow> bool" where
  "waiting_ok s \<longleftrightarrow> length (es_buf s) \<le> cap"

lemma stream_step: "waiting_ok s \<Longrightarrow> waiting_ok (es_do cap op s)"
  by (cases op) (auto simp: waiting_ok_def es_offer_def es_send_def es_cancel_def split: list.splits)

text \<open>What is sent and what waits is what was offered, in order, with nothing added.\<close>

lemma stream_subseq:
  "\<exists>ms. subseq ms (offers ops) \<and> es_sent (fold (es_do cap) ops s) @ es_buf (fold (es_do cap) ops s) = es_sent s @ es_buf s @ ms"
proof (induction ops arbitrary: s)
  case (Cons op ops)
  obtain ms where ms: "subseq ms (offers ops)" "es_sent (fold (es_do cap) ops (es_do cap op s)) @ es_buf (fold (es_do cap) ops (es_do cap op s))
      = es_sent (es_do cap op s) @ es_buf (es_do cap op s) @ ms" using Cons.IH [of "es_do cap op s"] by blast
  show ?case
  proof (cases op)
    case (SOffer pick m)
    show ?thesis
    proof (cases "length (es_buf s) < cap \<and> \<not> (es_cancelled s \<and> \<not> pick)")
      case True
      have "subseq (m # ms) (offers (op # ops))" using ms(1) by (simp add: SOffer)
      moreover have "es_sent (fold (es_do cap) (op # ops) s) @ es_buf (fold (es_do cap) (op # ops) s) = es_sent s @ es_buf s @ m # ms"
        using ms(2) True by (auto simp: SOffer es_offer_def)
      ultimately show ?thesis by blast
    next
      case False
      then have "subseq ms (offers (op # ops))" "es_do cap op s = s" using ms(1) by (auto simp: SOffer es_offer_def)
      with ms(2) show ?thesis by auto
    qed
  next
    case SSend
    then have "es_sent (es_do cap op s) @ es_buf (es_do cap op s) = es_sent s @ es_buf s" by (simp add: es_send_def split: list.split)
    with ms SSend show ?thesis by auto
  next
    case SCancel
    with ms show ?thesis by (auto simp: es_cancel_def)
  qed
qed (auto intro: exI [of _ "[]"])

lemma stream_complete:
  "keeps_up cap ops s \<Longrightarrow> es_sent (fold (es_do cap) ops s) @ es_buf (fold (es_do cap) ops s) = es_sent s @ es_buf s @ offers ops"
proof (induction ops arbitrary: s)
  case (Cons op ops)
  then have "es_sent (fold (es_do cap) ops (es_do cap op s)) @ es_buf (fold (es_do cap) ops (es_do cap op s))
      = es_sent (es_do cap op s) @ es_buf (es_do cap op s) @ offers ops" by simp
  then show ?case
    using Cons.prems by (cases op) (auto simp: es_offer_def es_send_def es_cancel_def split: list.splits)
qed simp

lemma stream_bounded: "waiting_ok s \<Longrightarrow> waiting_ok (fold (es_do cap) ops s)"
  by (induction ops arbitrary: s) (simp_all add: stream_step)

end

text \<open>The two streams: \<open>/api/events\<close> and \<open>/logs/stream\<close>.\<close>

definition eventsCap :: nat where "eventsCap = 25"

definition logsCap :: nat where "logsCap = 10"

interpretation api_events: bounded_stream eventsCap
  by unfold_locales (simp add: eventsCap_def)

interpretation log_stream: bounded_stream logsCap
  by unfold_locales (simp add: logsCap_def)

text \<open>The messages, by what the JSON text in each carries; encoding these values does not fail.\<close>

datatype messageEnvelope = ModelStatus "modelStatus list" | LogData string string | MetricsMsg string

text \<open>The subscriptions come first, then the initial batch is offered; \<open>before\<close> is what the subscriptions have offered by then.\<close>

definition apiSendEvents :: "messageEnvelope stream_op list \<Rightarrow> string \<Rightarrow> string \<Rightarrow> modelStatus list \<Rightarrow> string
    \<Rightarrow> messageEnvelope stream_op list \<Rightarrow> messageEnvelope eventStream" where
  "apiSendEvents before proxyHistory upstreamHistory models metricsJSON later =
     fold (es_do eventsCap)
       (before @ map (SOffer True) [LogData ''proxy'' proxyHistory, LogData ''upstream'' upstreamHistory, ModelStatus models, MetricsMsg metricsJSON]
        @ later) newStream"

text \<open>The monitor a log id names: the manager's own, or that of a model's process.\<close>

fun monitor_of :: "loggers \<Rightarrow> proxyManager \<Rightarrow> logger \<Rightarrow> LogMonitor option" where
  "monitor_of ls pm MuxLogger = Some (snd (muxLogger ls))"
| "monitor_of ls pm ProxyLogger = Some (snd (proxyLogger ls))"
| "monitor_of ls pm UpstreamLogger = Some (snd (upstreamLogger ls))"
| "monitor_of ls pm (ProcessLogger gid name) =
     (case map_of (pm_groups pm) gid of
        None \<Rightarrow> None
      | Some g \<Rightarrow> map_option processLogger (map_of (processes g) name))"

text \<open>
  The log stream: the history is written first, unless the query asks for none, and only then does the stream subscribe;
  \<open>later\<close> is what the subscription offers and the loop does. \<open>None\<close> is a panic on a missing process.
\<close>

definition streamLogsHandler :: "loggers \<Rightarrow> proxyManager \<Rightarrow> string \<Rightarrow> bool \<Rightarrow> string stream_op list \<Rightarrow> (int + string list) option" where
  "streamLogsHandler ls pm logMonitorID skipHistory later =
     (case getLogger pm (TrimPrefix logMonitorID ''/'') of
        None \<Rightarrow> Some (Inl 400)
      | Some lg \<Rightarrow>
          map_option (\<lambda>w. let history = lm_GetHistory w;
                first = (if \<not> skipHistory \<and> length history \<noteq> 0 then [history] else [])
             in Inr (first @ es_sent (fold (es_do logsCap) later newStream))) (monitor_of ls pm lg))"

definition sendLogsHandlers :: "string \<Rightarrow> LogMonitor \<Rightarrow> int + string" where
  "sendLogsHandlers accept mux = (if Contains accept ''text/html'' then Inl 302 else Inr (lm_GetHistory mux))"

text \<open>The initial batch always fits, and a client that keeps up gets every message, in order.\<close>

lemma events_initial:
  "es_buf (apiSendEvents [] p u models ms []) = [LogData ''proxy'' p, LogData ''upstream'' u, ModelStatus models, MetricsMsg ms]"
  by (simp add: apiSendEvents_def es_offer_def newStream_def eventsCap_def)

lemma events_delivered:
  fixes before later p u models ms
  defines "ops \<equiv> before @ map (SOffer True) [LogData ''proxy'' p, LogData ''upstream'' u, ModelStatus models, MetricsMsg ms] @ later"
  shows "subseq (es_sent (apiSendEvents before p u models ms later)) (offers ops)"
    and "length (es_buf (apiSendEvents before p u models ms later)) \<le> eventsCap"
    and "keeps_up eventsCap ops newStream \<Longrightarrow> Sublist.prefix (es_sent (apiSendEvents before p u models ms later)) (offers ops)"
proof -
  have s: "apiSendEvents before p u models ms later = fold (es_do eventsCap) ops newStream"
    by (simp only: apiSendEvents_def ops_def)
  obtain qs where q: "subseq qs (offers ops)"
    "es_sent (fold (es_do eventsCap) ops newStream) @ es_buf (fold (es_do eventsCap) ops newStream) = qs"
    using api_events.stream_subseq [of ops newStream] by (auto simp: newStream_def)
  then show "subseq (es_sent (apiSendEvents before p u models ms later)) (offers ops)"
    unfolding s by (metis subseq_order.trans subseq_rev_drop_many subseq_order.refl)
  show "length (es_buf (apiSendEvents before p u models ms later)) \<le> eventsCap"
    using api_events.stream_bounded [of newStream ops] unfolding s by (simp add: api_events.waiting_ok_def newStream_def)
  show "keeps_up eventsCap ops newStream \<Longrightarrow> Sublist.prefix (es_sent (apiSendEvents before p u models ms later)) (offers ops)"
    using api_events.stream_complete [of ops newStream] unfolding s by (simp add: newStream_def) (metis Sublist.prefixI)
qed

end
