(* ===== verification/Server_Main.thy ===== *)
theory Server_Main
  imports Manager_Start
begin

section \<open>The server: flags, file watching and hot reload (llama-swap.go)\<close>

text \<open>
  \<open>main\<close> decides from its flags what to listen on, and replaces the manager behind the HTTP server when the
  configuration file changes. A change is debounced by a timer whose callback runs in a goroutine of its own, so
  reloads are threads of atomic actions. Of a manager only its configuration and whether it has been shut down matter
  here; what starting and shutting down do is in \<open>Manager_Start\<close>. Times are in nanoseconds.
\<close>

subsection \<open>Start-up\<close>

record mainFlags =
  fl_listen :: string
  fl_certFile :: string
  fl_keyFile :: string
  fl_showVersion :: bool

datatype mainResult = Exit int | Listen bool string Config

text \<open>The configuration is read twice: once to check it, once by the first \<open>reloadProxyManager\<close>.\<close>

definition main_start :: "mainFlags \<Rightarrow> Config option \<Rightarrow> Config option \<Rightarrow> mainResult" where
  "main_start fl conf1 conf2 =
     (if fl_showVersion fl then Exit 0
      else case conf1 of
        None \<Rightarrow> Exit 1
      | Some _ \<Rightarrow>
          (let useTLS = (fl_certFile fl \<noteq> [] \<and> fl_keyFile fl \<noteq> []) in
           if (fl_certFile fl \<noteq> [] \<and> fl_keyFile fl = []) \<or> (fl_certFile fl = [] \<and> fl_keyFile fl \<noteq> []) then Exit 1
           else
             let addr = (if fl_listen fl = [] then (if useTLS then '':8443'' else '':8080'') else fl_listen fl)
             in case conf2 of None \<Rightarrow> Exit 1 | Some c \<Rightarrow> Listen useTLS addr c))"

text \<open>Which file events count as a change: the file itself, or the link a mounted Kubernetes config map swaps (\<open>dataPath\<close>).\<close>

datatype fsOp = FsCreate | FsWrite | FsRemove | FsRename | FsChmod

definition config_changed :: "string \<Rightarrow> string \<Rightarrow> string \<times> fsOp set \<Rightarrow> bool" where
  "config_changed absConfigPath dataPath ev =
     (case ev of (name, ops) \<Rightarrow>
        if name = absConfigPath \<and> (FsWrite \<in> ops \<or> FsCreate \<in> ops \<or> FsRemove \<in> ops) then True
        else if name = dataPath \<and> FsCreate \<in> ops then True
        else False)"

subsection \<open>Reloading\<close>

text \<open>Where a reload is: it has read the server's handler, loaded a configuration, shut that manager down.\<close>

datatype reload_pc = RBegin | RLoad nat | RShut nat Config | RNew Config | RDone

record server =
  sv_pms :: "(Config \<times> bool) list"
  sv_handler :: nat
  sv_timer :: "int option"
  sv_jobs :: "reload_pc list"
  sv_notices :: "int list"

text \<open>The server once the first manager is installed; the second component of a manager is whether it is still running.\<close>

definition started :: "Config \<Rightarrow> server" where
  "started c = \<lparr>sv_pms = [(c, True)], sv_handler = 0, sv_timer = None, sv_jobs = [], sv_notices = []\<rparr>"

datatype sv_act = Changed int | Fired int | Advance nat int "Config option"

text \<open>\<open>debounce\<close>: a change stops the timer and sets a new one, a second from now.\<close>

definition debounced :: "int \<Rightarrow> server \<Rightarrow> server" where
  "debounced now s = s\<lparr>sv_timer := Some (now + second)\<rparr>"

definition fire :: "int \<Rightarrow> server \<Rightarrow> server" where
  "fire now s =
     (case sv_timer s of
        None \<Rightarrow> s
      | Some t \<Rightarrow> if now < t then s else s\<lparr>sv_timer := None, sv_jobs := sv_jobs s @ [RBegin]\<rparr>)"

text \<open>One action of \<open>reloadProxyManager\<close>: \<open>conf\<close> is what a load finds, \<open>now\<close> the time.\<close>

definition reload_step :: "int \<Rightarrow> Config option \<Rightarrow> reload_pc \<Rightarrow> server \<Rightarrow> server \<times> reload_pc" where
  "reload_step now conf pc s =
     (case pc of
        RBegin \<Rightarrow> (s, RLoad (sv_handler s))
      | RLoad h \<Rightarrow> (s, case conf of None \<Rightarrow> RDone | Some c \<Rightarrow> RShut h c)
      | RShut h c \<Rightarrow> (s\<lparr>sv_pms := (sv_pms s)[h := (fst (sv_pms s ! h), False)]\<rparr>, RNew c)
      | RNew c \<Rightarrow> (s\<lparr>sv_pms := sv_pms s @ [(c, True)], sv_handler := length (sv_pms s),
                     sv_notices := sv_notices s @ [now + 3 * second]\<rparr>, RDone)
      | RDone \<Rightarrow> (s, RDone))"

definition advance :: "nat \<Rightarrow> int \<Rightarrow> Config option \<Rightarrow> server \<Rightarrow> server" where
  "advance i now conf s =
     (if i < length (sv_jobs s)
      then case reload_step now conf (sv_jobs s ! i) s of (s, pc) \<Rightarrow> s\<lparr>sv_jobs := (sv_jobs s)[i := pc]\<rparr>
      else s)"

fun sv_do :: "sv_act \<Rightarrow> server \<Rightarrow> server" where
  "sv_do (Changed now) s = debounced now s"
| "sv_do (Fired now) s = fire now s"
| "sv_do (Advance i now conf) s = advance i now conf s"

text \<open>Reloads that do not overlap: the timer fires only when no reload is under way.\<close>

fun calm :: "sv_act list \<Rightarrow> server \<Rightarrow> bool" where
  "calm [] s = True"
| "calm (a # as) s = ((case a of Fired now \<Rightarrow> list_all (\<lambda>j. j = RDone) (sv_jobs s) | _ \<Rightarrow> True) \<and> calm as (sv_do a s))"

fun changes :: "sv_act list \<Rightarrow> int list" where
  "changes [] = []"
| "changes (Changed t # as) = t # changes as"
| "changes (a # as) = changes as"

subsection \<open>One manager at a time\<close>

definition running_pms :: "server \<Rightarrow> nat list" where
  "running_pms s = filter (\<lambda>i. snd (sv_pms s ! i)) [0..<length (sv_pms s)]"

text \<open>The reload under way, if any: all but the last job are done.\<close>

definition current_job :: "server \<Rightarrow> reload_pc" where
  "current_job s = (if sv_jobs s = [] then RDone else last (sv_jobs s))"

fun job_ok :: "server \<Rightarrow> reload_pc \<Rightarrow> bool" where
  "job_ok s (RNew c) = (running_pms s = [])"
| "job_ok s (RShut h c) = (running_pms s = [sv_handler s] \<and> h = sv_handler s)"
| "job_ok s (RLoad h) = (running_pms s = [sv_handler s] \<and> h = sv_handler s)"
| "job_ok s pc = (running_pms s = [sv_handler s])"

definition server_ok :: "server \<Rightarrow> bool" where
  "server_ok s \<longleftrightarrow> sv_handler s < length (sv_pms s) \<and> list_all (\<lambda>j. j = RDone) (butlast (sv_jobs s)) \<and> job_ok s (current_job s)"

lemma running_started: "server_ok (started c)"
  by (simp add: server_ok_def started_def running_pms_def current_job_def)

lemma running_stop:
  assumes "running_pms s = [h]"
  shows "running_pms (s\<lparr>sv_pms := (sv_pms s)[h := (c, False)]\<rparr>) = []"
proof -
  have uniq: "i \<in> set (running_pms s) \<longleftrightarrow> i = h" for i using assms by simp
  have h: "h < length (sv_pms s)" using uniq [of h] by (simp add: running_pms_def)
  have only: "i = h" if "i < length (sv_pms s)" "snd (sv_pms s ! i)" for i
    using uniq [of i] that by (simp add: running_pms_def)
  have "\<not> snd ((sv_pms s)[h := (c, False)] ! i)" if "i < length (sv_pms s)" for i
    using only [OF that] h by (cases "i = h") auto
  then show ?thesis by (simp add: running_pms_def filter_empty_conv)
qed

lemma running_new:
  assumes "running_pms s = []"
  shows "running_pms (s\<lparr>sv_pms := sv_pms s @ [(c, True)], sv_handler := h, sv_notices := ns\<rparr>) = [length (sv_pms s)]"
proof -
  have "filter (\<lambda>i. snd ((sv_pms s @ [(c, True)]) ! i)) [0..<length (sv_pms s)] = running_pms s"
    unfolding running_pms_def by (rule filter_cong) (auto simp: nth_append)
  then show ?thesis using assms by (simp add: running_pms_def)
qed

lemma running_jobs [simp]: "running_pms (s\<lparr>sv_jobs := js\<rparr>) = running_pms s" "running_pms (s\<lparr>sv_timer := t\<rparr>) = running_pms s"
  by (simp_all add: running_pms_def)


lemma last_done: "list_all (\<lambda>j. j = RDone) js \<Longrightarrow> js \<noteq> [] \<Longrightarrow> last js = RDone"
  by (simp add: list_all_iff)

lemma last_update: "js \<noteq> [] \<Longrightarrow> js[length js - 1 := x] = butlast js @ [x]"
  by (cases js rule: rev_cases) simp_all

text \<open>The step of the reload under way.\<close>

lemma reload_step_ok:
  assumes "reload_step now conf pc s = (s', pc')" "job_ok s pc" "sv_handler s < length (sv_pms s)"
  shows "job_ok s' pc' \<and> sv_handler s' < length (sv_pms s') \<and> sv_jobs s' = sv_jobs s"
proof (cases pc)
  case (RShut h c)
  then show ?thesis using assms running_stop by (auto simp: reload_step_def)
next
  case (RNew c)
  then show ?thesis using assms running_new by (auto simp: reload_step_def)
next
  case (RLoad h)
  then show ?thesis using assms by (cases conf) (auto simp: reload_step_def)
qed (use assms in \<open>auto simp: reload_step_def\<close>)

lemma job_ok_frame [simp]:
  "job_ok (s\<lparr>sv_jobs := js\<rparr>) pc = job_ok s pc" "job_ok (s\<lparr>sv_timer := t\<rparr>) pc = job_ok s pc"
  by (cases pc; simp)+

lemma advance_done:
  "i < length (sv_jobs s) \<Longrightarrow> sv_jobs s ! i = RDone \<Longrightarrow> advance i now conf s = s"
  by (simp add: advance_def reload_step_def list_update_same_conv)

lemma server_ok_step:
  assumes "server_ok s" "calm [a] s"
  shows "server_ok (sv_do a s)"
proof (cases a)
  case (Changed now)
  then show ?thesis using assms by (auto simp: server_ok_def debounced_def current_job_def split: if_splits)
next
  case (Fired now)
  then have d: "list_all (\<lambda>j. j = RDone) (sv_jobs s)" using assms(2) by simp
  then have "current_job s = RDone" by (simp add: current_job_def last_done)
  then show ?thesis
    using assms(1) d Fired by (auto simp: server_ok_def fire_def current_job_def split: option.split)
next
  case (Advance i now conf)
  show ?thesis
  proof (cases "i < length (sv_jobs s)")
    case False
    then show ?thesis using assms(1) Advance by (simp add: advance_def)
  next
    case i: True
    then have ne: "sv_jobs s \<noteq> []" by auto
    show ?thesis
    proof (cases "i = length (sv_jobs s) - 1")
      case False
      then have "i < length (butlast (sv_jobs s))" using i by simp
      then have "sv_jobs s ! i = RDone"
        using assms(1) by (metis (mono_tags, lifting) server_ok_def list_all_length nth_butlast)
      from advance_done [OF i this] show ?thesis using assms(1) Advance by simp
    next
      case True
      then have cur: "sv_jobs s ! i = current_job s" using ne by (simp add: current_job_def last_conv_nth)
      obtain s' pc' where r: "reload_step now conf (current_job s) s = (s', pc')" by fastforce
      from reload_step_ok [OF r] assms(1) have
        "job_ok s' pc'" "sv_handler s' < length (sv_pms s')" "sv_jobs s' = sv_jobs s"
        by (simp_all add: server_ok_def)
      moreover have "(sv_jobs s)[i := pc'] = butlast (sv_jobs s) @ [pc']" unfolding True by (rule last_update [OF ne])
      moreover have "sv_do a s = s'\<lparr>sv_jobs := (sv_jobs s)[i := pc']\<rparr>"
        using i Advance \<open>sv_jobs s' = sv_jobs s\<close> by (simp add: advance_def cur r)
      ultimately show ?thesis
        using assms(1) by (simp add: server_ok_def current_job_def)
    qed
  qed
qed

lemma server_ok_run: "server_ok s \<Longrightarrow> calm as s \<Longrightarrow> server_ok (fold sv_do as s)"
proof (induction as arbitrary: s)
  case (Cons a as)
  then have "calm [a] s" "calm as (sv_do a s)" by simp_all
  with Cons server_ok_step [OF Cons.prems(1)] show ?case by simp
qed simp

text \<open>
  A reload waits for a full second without changes: a pending timer is set to a second after the last of them.
\<close>

lemma timer_after_change:
  assumes "sv_timer (fold sv_do as s) = Some t" "sv_timer s = None"
  shows "changes as \<noteq> [] \<and> t = last (changes as) + second"
  using assms(1)
proof (induction as arbitrary: t rule: rev_induct)
  case (snoc a as)
  have c: "changes (as @ bs) = changes as @ changes bs" for as bs by (induction as rule: changes.induct) auto
  have r: "sv_timer (fst (reload_step now conf pc s)) = sv_timer s" for now conf pc s
    by (cases pc) (simp_all add: reload_step_def split: option.split)
  show ?case
  proof (cases a)
    case (Changed now)
    then show ?thesis using snoc.prems by (auto simp: c debounced_def)
  next
    case (Fired now)
    then show ?thesis using snoc by (auto simp: c fire_def split: option.splits if_splits)
  next
    case (Advance i now conf)
    then have "sv_timer (fold sv_do as s) = Some t"
      using snoc.prems r by (auto simp: advance_def split_beta split: if_splits)
    with snoc.IH Advance show ?thesis by (simp add: c)
  qed
qed (use assms(2) in simp)



definition one_reload :: "Config \<Rightarrow> sv_act list" where
  "one_reload c = [Changed 0, Changed 5, Fired (5 + second), Advance 0 0 None, Advance 0 0 (Some c), Advance 0 0 None, Advance 0 7 None]"

lemmas server_eval = started_def one_reload_def debounced_def fire_def advance_def reload_step_def


text \<open>
  A reload that starts while another one is still waiting for the old manager's processes: both end with a manager of their
  own, and the one that lost the race for the handler goes on running, with nothing left that would stop it.
\<close>

lemma overlapping_reloads:
  "let s = fold sv_do [Changed 0, Fired second, Advance 0 0 None, Advance 0 0 (Some c), Changed second, Fired (2 * second),
       Advance 1 0 None, Advance 1 0 (Some c), Advance 0 0 None, Advance 0 0 None, Advance 1 0 None, Advance 1 0 None] (started c)
   in running_pms s = [1, 2] \<and> sv_handler s = 2 \<and> list_all (\<lambda>j. j = RDone) (sv_jobs s)"
  by (simp add: server_eval second_def running_pms_def eval_nat_numeral upt_conv_Cons filter.simps(2) numeral_2_eq_2)

subsection \<open>The end of the program\<close>

text \<open>
  On a signal another goroutine shuts down the manager that is behind the server, then the server, and lets \<open>main\<close> return,
  which ends every goroutine. Nothing keeps it and a reload apart.
\<close>

datatype exit_pc = XListen | XShut nat | XServer | XGone

record program =
  pg_sv :: server
  pg_exit :: exit_pc

datatype program_act = Serving sv_act | Signalled | Exiting

fun pg_do :: "program_act \<Rightarrow> program \<Rightarrow> program" where
  "pg_do (Serving a) p = (if pg_exit p = XGone then p else p\<lparr>pg_sv := sv_do a (pg_sv p)\<rparr>)"
| "pg_do Signalled p = (if pg_exit p = XListen then p\<lparr>pg_exit := XShut (sv_handler (pg_sv p))\<rparr> else p)"
| "pg_do Exiting p =
     (let s = pg_sv p in
      case pg_exit p of
        XShut h \<Rightarrow> p\<lparr>pg_sv := s\<lparr>sv_pms := (sv_pms s)[h := (fst (sv_pms s ! h), False)]\<rparr>, pg_exit := XServer\<rparr>
      | XServer \<Rightarrow> p\<lparr>pg_exit := XGone\<rparr>
      | _ \<Rightarrow> p)"

text \<open>With no reload under way the program leaves no manager running behind it, if it is over before one gets going.\<close>

lemma exit_clean:
  assumes "calm as (started c)" "list_all (\<lambda>j. j = RDone) (sv_jobs (fold sv_do as (started c)))"
  shows "case fold pg_do [Signalled, Exiting, Exiting] \<lparr>pg_sv = fold sv_do as (started c), pg_exit = XListen\<rparr> of
      p \<Rightarrow> pg_exit p = XGone \<and> running_pms (pg_sv p) = [] \<and> (\<forall>a. pg_do a p = p)"
proof -
  define s where "s = fold sv_do as (started c)"
  have "server_ok s" unfolding s_def by (rule server_ok_run [OF running_started assms(1)])
  then have r: "running_pms s = [sv_handler s]"
    using last_done [OF assms(2) [folded s_def]] by (auto simp: server_ok_def current_job_def split: if_splits)
  have "pg_do a p = p" if "pg_exit p = XGone" for a p using that by (cases a) simp_all
  then show ?thesis
    unfolding s_def [symmetric] using running_stop [OF r] by (simp add: Let_def)
qed

text \<open>
  A signal during a reload: the old manager has been shut down already, the one being made is not, and the program ends with
  it running - its model servers are left behind.
\<close>

lemma exit_during_reload:
  "let p = fold pg_do (map Serving [Changed 0, Fired second, Advance 0 0 None, Advance 0 0 (Some c'), Advance 0 0 None]
       @ [Signalled, Exiting, Serving (Advance 0 0 None), Exiting]) \<lparr>pg_sv = started c, pg_exit = XListen\<rparr>
   in pg_exit p = XGone \<and> running_pms (pg_sv p) = [1]"
  by (simp add: server_eval second_def running_pms_def Let_def numeral_2_eq_2)

subsection \<open>What a reload carries over\<close>

text \<open>
  A new manager reads the usage file and starts with an empty ledger. The old manager's meter is not flushed by its shutdown and its
  periodic flush goes on: a flush of it after the new manager's puts the old totals back into the file.
\<close>

lemma stale_meter_overwrites:
  assumes "dirty old" "um_path old \<noteq> []"
    and "enc \<lparr>up_Clients = Some (um_clients old), up_Countries = Some (um_countries old), up_IPs = Some (um_ips old)\<rparr> = Some b"
  shows "case flush_take enc old of
      (_, Some t) \<Rightarrow> uf_main (flush_write None True t f) = Some b
    | (_, None) \<Rightarrow> False"
  using assms by (simp add: flush_take_def flush_write_def)

lemma reload_forgets_ledger: "g_ledger (mg_gate (fst (New nw c d :: 'f manager \<times> disk))) = Some newCreditLedger"
  by (simp add: New_def newGate_def newCreditGate_def split: prod.split)

end
