(* ===== verification/Wol_Proxy.thy ===== *)
theory Wol_Proxy
  imports Go_Strings
begin

section \<open>The waking proxy (cmd/wol-proxy/wol-proxy.go)\<close>

text \<open>
  A proxy in front of a machine that may be asleep. One goroutine holds an event stream open to the upstream and
  keeps the status from it; every request reads that status, sends a magic packet when the upstream is not ready, and waits for
  it with a timeout. All of them run interleaved: a step is one critical section of the status mutex. The ticker is taken to
  tick every 250 ms to the point, so a wait is counted in ticks; the failure counter does not come near \<open>2 ^ 63\<close>.
\<close>

subsection \<open>The magic packet\<close>

definition hexval :: "char \<Rightarrow> nat option" where
  "hexval c =
     (let n = (of_char c :: nat) in
      if 48 \<le> n \<and> n \<le> 57 then Some (n - 48)
      else if 97 \<le> n \<and> n \<le> 102 then Some (n - 87)
      else if 65 \<le> n \<and> n \<le> 70 then Some (n - 55)
      else None)"

definition xtoi2 :: "char \<Rightarrow> char \<Rightarrow> nat option" where
  "xtoi2 a b = (case (hexval a, hexval b) of (Some x, Some y) \<Rightarrow> Some (16 * x + y) | _ \<Rightarrow> None)"

text \<open>\<open>net.ParseMAC\<close>: pairs of digits between colons or hyphens, or quadruples between dots, of 6, 8 or 20 bytes.\<close>

fun mac_pairs :: "char \<Rightarrow> string \<Rightarrow> nat list option" where
  "mac_pairs sep [a, b] = map_option (\<lambda>x. [x]) (xtoi2 a b)"
| "mac_pairs sep (a # b # c # s) =
     (if c \<noteq> sep then None
      else case (xtoi2 a b, mac_pairs sep s) of (Some x, Some xs) \<Rightarrow> Some (x # xs) | _ \<Rightarrow> None)"
| "mac_pairs sep _ = None"

fun mac_quads :: "string \<Rightarrow> nat list option" where
  "mac_quads [a, b, c, d] =
     (case (xtoi2 a b, xtoi2 c d) of (Some x, Some y) \<Rightarrow> Some [x, y] | _ \<Rightarrow> None)"
| "mac_quads (a # b # c # d # e # s) =
     (if e \<noteq> CHR ''.'' then None
      else case (xtoi2 a b, xtoi2 c d, mac_quads s) of (Some x, Some y, Some xs) \<Rightarrow> Some (x # y # xs) | _ \<Rightarrow> None)"
| "mac_quads _ = None"

definition ParseMAC :: "string \<Rightarrow> nat list option" where
  "ParseMAC s =
     (if length s < 14 then None
      else if s ! 2 = CHR '':'' \<or> s ! 2 = CHR ''-'' then
        (if (length s + 1) mod 3 \<noteq> 0 \<or> (length s + 1) div 3 \<notin> {6, 8, 20} then None else mac_pairs (s ! 2) s)
      else if s ! 4 = CHR ''.'' then
        (if (length s + 1) mod 5 \<noteq> 0 \<or> 2 * (length s + 1) div 5 \<notin> {6, 8, 20} then None else mac_quads s)
      else None)"

text \<open>\<open>sendMagicPacket\<close>: the packet it writes, or \<open>None\<close> when it gives up on the address.\<close>

definition copy_at :: "nat \<Rightarrow> 'a list \<Rightarrow> 'a list \<Rightarrow> 'a list" where
  "copy_at i src dst = take i dst @ take (length dst - i) src @ drop (i + length src) dst"

definition sendMagicPacket :: "string \<Rightarrow> nat list option" where
  "sendMagicPacket mac =
     (case ParseMAC mac of
        None \<Rightarrow> None
      | Some hw \<Rightarrow>
          if length hw \<noteq> 6 then None
          else Some (fold (\<lambda>i p. copy_at (i * 6) hw p) [1..<17] (fold (\<lambda>i p. p[i := 255]) [0..<6] (replicate 102 0))))"

subsection \<open>Start-up\<close>

record wolFlags =
  wf_mac :: string
  wf_upstream :: string
  wf_listen :: string
  wf_log :: string
  wf_timeout :: int

text \<open>\<open>parse\<close> stands for \<open>url.ParseRequestURI\<close>; \<open>None\<close> is a start that is given up.\<close>

definition wol_main :: "(string \<Rightarrow> 'u option) \<Rightarrow> wolFlags \<Rightarrow> (string \<times> 'u) option" where
  "wol_main parse fl =
     (if wf_log fl \<notin> {''debug'', ''info'', ''warn'', ''error''} then None
      else if wf_listen fl = [] then None
      else if wf_mac fl = [] then None
      else if wf_timeout fl < 1 then None
      else if ParseMAC (wf_mac fl) = None then None
      else if wf_upstream fl = [] then None
      else map_option (Pair (wf_listen fl)) (parse (wf_upstream fl)))"

subsection \<open>The monitor\<close>

datatype upstreamStatus = notready | ready

record proxyServer =
  ps_status :: upstreamStatus
  ps_failCount :: int

definition setStatus :: "upstreamStatus \<Rightarrow> proxyServer \<Rightarrow> proxyServer" where
  "setStatus st p = p\<lparr>ps_status := st\<rparr>"

definition incFail :: "int \<Rightarrow> proxyServer \<Rightarrow> proxyServer" where
  "incFail n p = p\<lparr>ps_failCount := ps_failCount p + n\<rparr>"

definition resetFailures :: "proxyServer \<Rightarrow> proxyServer" where
  "resetFailures p = p\<lparr>ps_failCount := 0\<rparr>"

text \<open>
  Where the monitor is: about to connect; just failed, with the counter to be raised; connected, with the counter to be
  cleared; reading events; asleep. An attempt to connect comes to no answer at all or to a status; reading ends with the stream.
\<close>

datatype monPc = MConnect | MFailed | MConnected | MReading | MSleep

datatype sseResult = NoAnswer | Answer nat

definition monitor :: "sseResult \<Rightarrow> monPc \<Rightarrow> proxyServer \<Rightarrow> monPc \<times> proxyServer" where
  "monitor r pc p =
     (case pc of
        MConnect \<Rightarrow>
          (case r of
             NoAnswer \<Rightarrow> (MFailed, setStatus notready p)
           | Answer code \<Rightarrow> if code \<noteq> 200 then (MFailed, setStatus notready p) else (MConnected, setStatus ready p))
      | MConnected \<Rightarrow> (MReading, resetFailures p)
      | MReading \<Rightarrow> (MFailed, setStatus notready p)
      | MFailed \<Rightarrow> (MSleep, incFail 1 p)
      | MSleep \<Rightarrow> (MConnect, p))"

subsection \<open>A request\<close>

datatype wolAnswer = StatusText upstreamStatus int | NoContent | LoadingPage | TimedOut

text \<open>A request that has begun, has read the status for \<open>/status\<close>, has waited for some ticks, is handed on, or is answered.\<close>

datatype wolReq = WBegin string string | WStatus upstreamStatus | WWaiting nat | WForward | WAnswered wolAnswer

definition code_of :: "wolAnswer \<Rightarrow> int" where
  "code_of a = (case a of StatusText _ _ \<Rightarrow> 200 | NoContent \<Rightarrow> 204 | LoadingPage \<Rightarrow> 200 | TimedOut \<Rightarrow> 408)"

text \<open>
  One step of \<open>ServeHTTP\<close>, and whether it sends a magic packet. When the timeout and a tick are due at the same moment,
  the select takes either: \<open>pick\<close> is true for the timeout.
\<close>

definition ServeHTTP :: "nat \<Rightarrow> bool \<Rightarrow> proxyServer \<Rightarrow> wolReq \<Rightarrow> wolReq \<times> bool" where
  "ServeHTTP flagTimeout pick p r =
     (case r of
        WBegin verb path \<Rightarrow>
          (if verb = ''GET'' \<and> path = ''/status'' then (WStatus (ps_status p), False)
           else if ps_status p = notready then
             (if HasPrefix path ''/api/events'' then (WAnswered NoContent, False)
              else if path = ''/'' \<or> HasPrefix path ''/ui/'' then (WAnswered LoadingPage, True)
              else (WWaiting 0, True))
           else (WForward, False))
      | WStatus st \<Rightarrow> (WAnswered (StatusText st (ps_failCount p)), False)
      | WWaiting k \<Rightarrow>
          (if 4 * flagTimeout < k + 1 \<or> (k + 1 = 4 * flagTimeout \<and> pick) then (WAnswered TimedOut, False)
           else if ps_status p = ready then (WForward, False)
           else (WWaiting (k + 1), False))
      | _ \<Rightarrow> (r, False))"

subsection \<open>All of it together\<close>

record wolWorld =
  ww_mon :: monPc
  ww_proxy :: proxyServer
  ww_reqs :: "wolReq list"
  ww_packets :: "nat list list"

definition newProxy :: wolWorld where
  "newProxy = \<lparr>ww_mon = MConnect, ww_proxy = \<lparr>ps_status = notready, ps_failCount = 0\<rparr>, ww_reqs = [], ww_packets = []\<rparr>"

text \<open>The actions; the last component of a served step is whether the network takes the packet.\<close>

datatype wolAct = AMonitor sseResult | AArrive string string | AServe nat bool bool

definition sent :: "string \<Rightarrow> bool \<Rightarrow> nat list list" where
  "sent mac yes = (if yes then (case sendMagicPacket mac of None \<Rightarrow> [] | Some b \<Rightarrow> [b]) else [])"

inductive wol_step :: "nat \<Rightarrow> string \<Rightarrow> wolWorld \<Rightarrow> wolAct \<Rightarrow> wolWorld \<Rightarrow> bool" for flagTimeout mac where
  monitors: "wol_step flagTimeout mac w (AMonitor r) (w\<lparr>ww_mon := pc, ww_proxy := p\<rparr>)"
    if "monitor r (ww_mon w) (ww_proxy w) = (pc, p)"
| arrives: "wol_step flagTimeout mac w (AArrive verb path) (w\<lparr>ww_reqs := ww_reqs w @ [WBegin verb path]\<rparr>)"
| serves: "wol_step flagTimeout mac w (AServe i pick net)
      (w\<lparr>ww_reqs := (ww_reqs w)[i := r],
         ww_packets := ww_packets w @ sent mac (wake \<and> net)\<rparr>)"
    if "i < length (ww_reqs w)" "ServeHTTP flagTimeout pick (ww_proxy w) (ww_reqs w ! i) = (r, wake)"

inductive wol_run :: "nat \<Rightarrow> string \<Rightarrow> wolWorld \<Rightarrow> (upstreamStatus \<times> wolAct) list \<Rightarrow> wolWorld \<Rightarrow> bool" for flagTimeout mac where
  stop: "wol_run flagTimeout mac w [] w"
| go: "wol_run flagTimeout mac w ((ps_status (ww_proxy w), a) # as) w''"
    if "wol_step flagTimeout mac w a w'" "wol_run flagTimeout mac w' as w''"

text \<open>A run is labelled with the status before each action.\<close>

inductive_cases monitorE: "wol_step flagTimeout mac w (AMonitor r) w'"
inductive_cases arriveE: "wol_step flagTimeout mac w (AArrive verb path) w'"
inductive_cases serveE: "wol_step flagTimeout mac w (AServe i pick net) w'"
inductive_simps wol_run_Nil [simp]: "wol_run flagTimeout mac w [] w'"
inductive_simps wol_run_Cons: "wol_run flagTimeout mac w (sa # as) w'"

lemma wol_run_go:
  "ps_status (ww_proxy w) = st \<Longrightarrow> wol_step T mac w a w' \<Longrightarrow> wol_run T mac w' as w'' \<Longrightarrow> wol_run T mac w ((st, a) # as) w''"
  using wol_run.go by blast

text \<open>The statuses a request's own steps saw.\<close>

definition seen_by :: "nat \<Rightarrow> (upstreamStatus \<times> wolAct) list \<Rightarrow> upstreamStatus list" where
  "seen_by i as = map fst (filter (\<lambda>(_, a). case a of AServe j _ _ \<Rightarrow> j = i | _ \<Rightarrow> False) as)"

lemma seen_by_simps [simp]:
  "seen_by i [] = []"
  "seen_by i ((st, AServe j pick net) # as) = (if j = i then st # seen_by i as else seen_by i as)"
  "seen_by i ((st, AMonitor r) # as) = seen_by i as"
  "seen_by i ((st, AArrive verb path) # as) = seen_by i as"
  by (simp_all add: seen_by_def)

subsection \<open>What the monitor keeps\<close>

definition monitor_ok :: "monPc \<Rightarrow> proxyServer \<Rightarrow> bool" where
  "monitor_ok pc p \<longleftrightarrow> (ps_status p = ready \<longleftrightarrow> pc \<in> {MConnected, MReading}) \<and> 0 \<le> ps_failCount p \<and> (pc = MReading \<longrightarrow> ps_failCount p = 0)"

lemmas monitor_defs = monitor_def setStatus_def incFail_def resetFailures_def

lemma monitor_ok_step: "monitor_ok pc p \<Longrightarrow> monitor r pc p = (pc', p') \<Longrightarrow> monitor_ok pc' p'"
  by (cases pc) (auto simp: monitor_ok_def monitor_defs split: sseResult.splits if_splits)

text \<open>
  A round of the monitor is an attempt and what follows up to the next one. The counter then holds the attempts that failed
  since the last connection, and one more for the end of that connection.
\<close>

fun monitor_rounds :: "sseResult list \<Rightarrow> proxyServer \<Rightarrow> proxyServer" where
  "monitor_rounds [] p = p"
| "monitor_rounds (r # rs) p =
     (let (pc, p) = monitor r MConnect p;
          (pc, p) = (if pc = MConnected then let (pc, p) = monitor r pc p in monitor r pc p else (pc, p));
          (pc, p) = monitor r pc p; (pc, p) = monitor r pc p
      in monitor_rounds rs p)"

lemma takeWhile_rev_Cons:
  "takeWhile P (rev (x # xs)) = (if \<forall>y \<in> set xs. P y then rev xs @ (if P x then [x] else []) else takeWhile P (rev xs))"
  by (auto simp: takeWhile_append)

lemma rounds_failures:
  "ps_failCount (monitor_rounds rs p) =
     (if Answer 200 \<in> set rs then 1 + int (length (takeWhile (\<lambda>r. r \<noteq> Answer 200) (rev rs))) else ps_failCount p + int (length rs))"
proof (induction rs arbitrary: p)
  case (Cons r rs)
  show ?case
  proof (cases "r = Answer 200")
    case True
    then show ?thesis by (auto simp: Cons.IH monitor_defs takeWhile_rev_Cons simp del: rev.simps)
  next
    case False
    then have "r = NoAnswer \<or> (\<exists>code. r = Answer code \<and> code \<noteq> 200)" by (cases r) auto
    with False show ?thesis by (auto simp: Cons.IH monitor_defs takeWhile_rev_Cons simp del: rev.simps)
  qed
qed simp

subsection \<open>The packet\<close>

lemma fill_ff: "fold (\<lambda>i p. p[i := 255]) [0..<6] (replicate 102 0) = replicate 6 (255::nat) @ replicate 96 0"
  by (simp add: upt_rec eval_nat_numeral)

lemma copies:
  assumes "length hw = 6" "n \<le> 16"
  shows "fold (\<lambda>i p. copy_at (i * 6) hw p) [1..<n + 1] (replicate 6 255 @ replicate 96 0)
    = replicate 6 255 @ concat (replicate n hw) @ replicate (96 - 6 * n) 0"
  using assms(2)
proof (induction n)
  case (Suc n)
  have l: "length (concat (replicate m hw)) = 6 * m" for m using assms(1) by (induction m) simp_all
  have c: "concat (replicate (Suc n) hw) = concat (replicate n hw) @ hw"
    by (simp flip: replicate_append_same)
  have "copy_at ((n + 1) * 6) hw (replicate 6 255 @ concat (replicate n hw) @ replicate (96 - 6 * n) 0)
      = replicate 6 255 @ (concat (replicate n hw) @ hw) @ replicate (96 - 6 * Suc n) 0"
    using assms(1) Suc.prems by (simp add: copy_at_def l)
  with Suc show ?case by (simp add: c del: replicate.simps)
qed simp

lemma magic_packet:
  "sendMagicPacket mac = Some b \<longleftrightarrow>
     (\<exists>hw. ParseMAC mac = Some hw \<and> length hw = 6 \<and> b = replicate 6 255 @ concat (replicate 16 hw))"
  using copies [of _ 16] by (auto simp: sendMagicPacket_def fill_ff split: option.splits)

text \<open>An address of eight bytes passes the check of the flags, and no packet is ever sent for it.\<close>

lemma eui64_never_wakes:
  "ParseMAC ''02:00:5e:10:00:00:00:01'' \<noteq> None" "sendMagicPacket ''02:00:5e:10:00:00:00:01'' = None"
  by (simp_all add: sendMagicPacket_def ParseMAC_def xtoi2_def hexval_def Let_def)

subsection \<open>A request that waits\<close>

definition finished :: "wolReq \<Rightarrow> bool" where
  "finished r = (case r of WForward \<Rightarrow> True | WAnswered _ \<Rightarrow> True | _ \<Rightarrow> False)"

text \<open>How many steps of its own a request still has at most.\<close>

fun wol_rank :: "nat \<Rightarrow> wolReq \<Rightarrow> nat" where
  "wol_rank T (WBegin _ _) = 4 * T + 2"
| "wol_rank T (WStatus _) = 1"
| "wol_rank T (WWaiting k) = Suc (4 * T - k)"
| "wol_rank T _ = 0"

lemma rank_finished: "wol_rank T r = 0 \<longleftrightarrow> finished r"
  by (cases r) (auto simp: finished_def)

lemma rank_step: "ServeHTTP T pick p r = (r', wake) \<Longrightarrow> wol_rank T r' \<le> wol_rank T r - 1"
  by (cases r) (auto simp: ServeHTTP_def split: if_splits)

text \<open>A step of the whole leaves every request alone but the one it serves, and none is removed.\<close>

lemma step_reqs:
  assumes "wol_step T mac w a w'" "i < length (ww_reqs w)"
  shows "i < length (ww_reqs w')"
    and "(case a of AServe j pick net \<Rightarrow> j = i | _ \<Rightarrow> False) \<or> ww_reqs w' ! i = ww_reqs w ! i"
    and "a = AServe i pick net \<Longrightarrow> ww_reqs w' ! i = fst (ServeHTTP T pick (ww_proxy w) (ww_reqs w ! i))"
  using assms by (auto elim!: wol_step.cases simp: nth_append nth_list_update split: if_splits)

lemma run_rank:
  assumes "wol_run T mac w as w'" "i < length (ww_reqs w)"
  shows "wol_rank T (ww_reqs w' ! i) \<le> wol_rank T (ww_reqs w ! i) - length (seen_by i as)"
  using assms
proof (induction rule: wol_run.induct)
  case (go w a w1 as w2)
  have i: "i < length (ww_reqs w1)" using step_reqs(1) [OF go.hyps(1) go.prems] .
  show ?case
  proof (cases "\<exists>pick net. a = AServe i pick net")
    case True
    then obtain pick net where a: "a = AServe i pick net" by blast
    have "wol_rank T (ww_reqs w1 ! i) \<le> wol_rank T (ww_reqs w ! i) - 1"
      using rank_step [of T pick "ww_proxy w" "ww_reqs w ! i"] step_reqs(3) [OF go.hyps(1) go.prems a]
      by (simp add: prod_eq_iff)
    with go.IH [OF i] show ?thesis by (simp add: a)
  next
    case False
    then have "ww_reqs w1 ! i = ww_reqs w ! i" "seen_by i ((st, a) # as) = seen_by i as" for st
      using step_reqs(2) [OF go.hyps(1) go.prems] by (cases a; auto)+
    with go.IH [OF i] show ?thesis by simp
  qed
qed simp

lemma finished_stays: "finished r \<Longrightarrow> ServeHTTP T pick p r = (r, False)"
  by (cases r) (auto simp: finished_def ServeHTTP_def)

lemma run_finished:
  assumes "wol_run T mac w as w'" "i < length (ww_reqs w)" "finished (ww_reqs w ! i)"
  shows "ww_reqs w' ! i = ww_reqs w ! i"
  using assms
proof (induction rule: wol_run.induct)
  case (go w a w1 as w2)
  have "ww_reqs w1 ! i = ww_reqs w ! i"
    using step_reqs(2,3) [OF go.hyps(1) go.prems(1)] finished_stays [OF go.prems(2)]
    by (cases a) auto
  with go.IH step_reqs(1) [OF go.hyps(1) go.prems(1)] go.prems(2) show ?case by simp
qed simp

text \<open>What a request that has waited for \<open>k\<close> ticks comes to, by the statuses its later ticks see.\<close>

definition waited :: "nat \<Rightarrow> nat \<Rightarrow> upstreamStatus list \<Rightarrow> wolReq \<Rightarrow> bool" where
  "waited T k obs r =
     (case r of
        WForward \<Rightarrow> ready \<in> set (take (4 * T - k) obs)
      | WAnswered a \<Rightarrow> a = TimedOut \<and> 4 * T - k \<le> length obs \<and> ready \<notin> set (take (4 * T - 1 - k) obs)
      | WWaiting m \<Rightarrow> m = k + length obs \<and> length obs \<le> 4 * T - k \<and> ready \<notin> set obs
      | _ \<Rightarrow> False)"

lemma waited_tick:
  assumes "k + 1 \<le> 4 * T" "waited T (k + 1) obs r"
  shows "waited T k (notready # obs) r"
proof -
  have "4 * T - k = Suc (4 * T - (k + 1))" using assms(1) by simp
  moreover have "set (take (4 * T - 1 - k) (notready # obs)) \<subseteq> insert notready (set (take (4 * T - 1 - (k + 1)) obs))"
    by (auto simp: take_Cons')
  ultimately show ?thesis
    using assms(2) by (auto simp: waited_def split: wolReq.splits)
qed

lemma run_waited:
  assumes "wol_run T mac w as w'" "i < length (ww_reqs w)" "ww_reqs w ! i = WWaiting k" "k \<le> 4 * T"
  shows "waited T k (seen_by i as) (ww_reqs w' ! i)"
  using assms
proof (induction arbitrary: k rule: wol_run.induct)
  case (stop w)
  then show ?case by (simp add: waited_def)
next
  case (go w a w1 as w2)
  have i: "i < length (ww_reqs w1)" using step_reqs(1) [OF go.hyps(1) go.prems(1)] .
  show ?case
  proof (cases "\<exists>pick net. a = AServe i pick net")
    case True
    then obtain pick net where a: "a = AServe i pick net" by blast
    define st where "st = ps_status (ww_proxy w)"
    from step_reqs(3) [OF go.hyps(1) go.prems(1) a] go.prems(2)
    have r: "ww_reqs w1 ! i =
      (if 4 * T < k + 1 \<or> (k + 1 = 4 * T \<and> pick) then WAnswered TimedOut else if st = ready then WForward else WWaiting (k + 1))"
      by (simp add: ServeHTTP_def st_def)
    consider "4 * T \<le> k + 1" "ww_reqs w1 ! i = WAnswered TimedOut" | "k < 4 * T" "st = ready" "ww_reqs w1 ! i = WForward"
      | "k + 1 \<le> 4 * T" "st = notready" "ww_reqs w1 ! i = WWaiting (k + 1)"
      using r by (cases st) (auto split: if_splits)
    then show ?thesis
    proof cases
      case 1
      with run_finished [OF go.hyps(2) i] have "ww_reqs w2 ! i = WAnswered TimedOut" by (simp add: finished_def)
      with 1 show ?thesis by (simp add: a waited_def)
    next
      case 2
      with run_finished [OF go.hyps(2) i] have "ww_reqs w2 ! i = WForward" by (simp add: finished_def)
      with 2 show ?thesis by (simp add: a waited_def take_Cons' st_def)
    next
      case 3
      from waited_tick [OF 3(1) go.IH [OF i 3(3,1)]] 3(2) show ?thesis by (simp add: a st_def)
    qed
  next
    case False
    then have "ww_reqs w1 ! i = ww_reqs w ! i" "seen_by i ((st, a) # as) = seen_by i as" for st
      using step_reqs(2) [OF go.hyps(1) go.prems(1)] by (cases a; auto)+
    with go.IH [OF i _ go.prems(3)] go.prems(2) show ?thesis by simp
  qed
qed

text \<open>The monitor's invariant and the packets along a run.\<close>

lemma run_monitor:
  assumes "wol_run T mac w as w'" "monitor_ok (ww_mon w) (ww_proxy w)"
  shows "monitor_ok (ww_mon w') (ww_proxy w')"
  using assms
proof (induction rule: wol_run.induct)
  case (go w a w1 as w2)
  have "monitor_ok (ww_mon w1) (ww_proxy w1)"
    using go.hyps(1) go.prems monitor_ok_step by cases auto
  with go.IH show ?case .
qed simp

lemma sent_cases: "sent mac yes = [] \<or> (\<exists>b. sendMagicPacket mac = Some b \<and> sent mac yes = [b])"
  by (simp add: sent_def split: option.split)

lemma set_sent: "b \<in> set (sent mac yes) \<Longrightarrow> sendMagicPacket mac = Some b"
  using sent_cases [of mac yes] by auto

lemma step_packets: "wol_step T mac w a w' \<Longrightarrow> set (ww_packets w') \<subseteq> set (ww_packets w) \<union> {b. sendMagicPacket mac = Some b}"
  by (induction rule: wol_step.induct) (auto dest: set_sent)

lemma run_packets:
  assumes "wol_run T mac w as w'" "b \<in> set (ww_packets w')"
  shows "b \<in> set (ww_packets w) \<or> sendMagicPacket mac = Some b"
  using assms
proof (induction rule: wol_run.induct)
  case (go w a w1 as w2)
  show ?case using go.IH [OF go.prems] step_packets [OF go.hyps(1)] by auto
qed simp

text \<open>
  C17. Waking the upstream. However the monitor and other requests run in between, a request is finished - answered or handed on -
  after at most two steps more than its timeout has ticks. A request that waits is handed on only if one of its ticks saw the
  upstream ready, and answered 408 only after the whole timeout, none of whose ticks but perhaps the last saw it ready; and as
  long as it waits none has. The status is ready exactly while the monitor holds an event stream open, and while it
  reads from it the failure counter is 0. Every packet sent is six bytes of 255 and sixteen copies of the configured address.
\<close>

theorem wake_up_bounded:
  assumes "wol_run flagTimeout mac newProxy as0 w" "wol_run flagTimeout mac w as w'" "i < length (ww_reqs w)"
  shows "(4 * flagTimeout + 2 \<le> length (seen_by i as) \<longrightarrow> finished (ww_reqs w' ! i))
    \<and> (\<forall>k. ww_reqs w ! i = WWaiting k \<longrightarrow> k \<le> 4 * flagTimeout \<longrightarrow> waited flagTimeout k (seen_by i as) (ww_reqs w' ! i))
    \<and> (ps_status (ww_proxy w') = ready \<longleftrightarrow> ww_mon w' \<in> {MConnected, MReading})
    \<and> (ww_mon w' = MReading \<longrightarrow> ps_failCount (ww_proxy w') = 0)
    \<and> list_all (\<lambda>b. \<exists>hw. ParseMAC mac = Some hw \<and> length hw = 6 \<and> b = replicate 6 255 @ concat (replicate 16 hw)) (ww_packets w')"
proof -
  have "wol_rank flagTimeout (ww_reqs w ! i) \<le> 4 * flagTimeout + 2" by (cases "ww_reqs w ! i") simp_all
  then have "finished (ww_reqs w' ! i)" if "4 * flagTimeout + 2 \<le> length (seen_by i as)"
    using run_rank [OF assms(2,3)] that by (simp flip: rank_finished [of flagTimeout])
  moreover have "waited flagTimeout k (seen_by i as) (ww_reqs w' ! i)"
    if "ww_reqs w ! i = WWaiting k" "k \<le> 4 * flagTimeout" for k
    using run_waited [OF assms(2,3) that] .
  moreover have "monitor_ok (ww_mon w') (ww_proxy w')"
    using run_monitor [OF assms(2) run_monitor [OF assms(1)]] by (simp add: newProxy_def monitor_ok_def)
  moreover have "sendMagicPacket mac = Some b" if "b \<in> set (ww_packets w')" for b
    using run_packets [OF assms(2) that] run_packets [OF assms(1), of b] by (auto simp: newProxy_def)
  ultimately show ?thesis by (auto simp: monitor_ok_def list_all_iff simp flip: magic_packet)
qed


text \<open>A request arrives while the upstream is down; two ticks later the monitor has connected.\<close>

abbreviation sample_mac :: string where "sample_mac \<equiv> ''02:00:5e:10:00:01''"

definition waking :: "wolReq \<Rightarrow> nat list list \<Rightarrow> monPc \<Rightarrow> upstreamStatus \<Rightarrow> wolWorld" where
  "waking r ps pc st = \<lparr>ww_mon = pc, ww_proxy = \<lparr>ps_status = st, ps_failCount = 0\<rparr>, ww_reqs = [r], ww_packets = ps\<rparr>"

theorem wake_up_bounded_witness:
  "\<exists>w w'. wol_run 1 sample_mac newProxy [(notready, AArrive ''POST'' ''/v1/completions''), (notready, AServe 0 False True)] w
     \<and> wol_run 1 sample_mac w
         [(notready, AServe 0 False True), (notready, AMonitor (Answer 200)), (ready, AServe 0 False True)] w'
     \<and> ww_reqs w ! 0 = WWaiting 0 \<and> waited 1 0 [notready, ready] (ww_reqs w' ! 0) \<and> ps_status (ww_proxy w') = ready
     \<and> ww_packets w' \<noteq> [] \<and> list_all (\<lambda>b. b = replicate 6 255 @ concat (replicate 16 [2, 0, 94, 16, 0, 1])) (ww_packets w')"
proof -
  let ?b = "replicate 6 255 @ concat (replicate 16 [2, 0, 94, 16, 0, 1 :: nat])"
  let ?v = "waking (WBegin ''POST'' ''/v1/completions'') [] MConnect notready" and ?w = "waking (WWaiting 0) [?b] MConnect notready"
    and ?w2 = "waking (WWaiting 1) [?b] MConnect notready" and ?w3 = "waking (WWaiting 1) [?b] MConnected ready"
    and ?w' = "waking WForward [?b] MConnected ready"
  have mac: "ParseMAC sample_mac = Some [2, 0, 94, 16, 0, 1]"
    by (simp add: ParseMAC_def xtoi2_def hexval_def Let_def)
  then have pkt: "sendMagicPacket sample_mac = Some ?b" using magic_packet by simp
  have s1: "wol_step 1 sample_mac newProxy (AArrive ''POST'' ''/v1/completions'') ?v"
    using arrives [of 1 sample_mac newProxy "''POST''" "''/v1/completions''"] by (simp add: newProxy_def waking_def)
  have s2: "wol_step 1 sample_mac ?v (AServe 0 False True) ?w"
    using serves [of 0 ?v 1 False "WWaiting 0" True sample_mac True] pkt
    by (simp add: waking_def ServeHTTP_def HasPrefix_def sent_def)
  have s3: "wol_step 1 sample_mac ?w (AServe 0 False True) ?w2"
    using serves [of 0 ?w 1 False "WWaiting 1" False sample_mac True] by (simp add: waking_def ServeHTTP_def sent_def)
  have s4: "wol_step 1 sample_mac ?w2 (AMonitor (Answer 200)) ?w3"
    using monitors [of "Answer 200" ?w2 MConnected "\<lparr>ps_status = ready, ps_failCount = 0\<rparr>" 1 sample_mac]
    by (simp add: waking_def monitor_defs)
  have s5: "wol_step 1 sample_mac ?w3 (AServe 0 False True) ?w'"
    using serves [of 0 ?w3 1 False WForward False sample_mac True] by (simp add: waking_def ServeHTTP_def sent_def)
  have r1: "wol_run 1 sample_mac newProxy [(notready, AArrive ''POST'' ''/v1/completions''), (notready, AServe 0 False True)] ?w"
    by (intro wol_run_go [OF _ s1] wol_run_go [OF _ s2] wol_run.stop) (simp_all add: newProxy_def waking_def)
  have r2: "wol_run 1 sample_mac ?w [(notready, AServe 0 False True), (notready, AMonitor (Answer 200)), (ready, AServe 0 False True)] ?w'"
    by (intro wol_run_go [OF _ s3] wol_run_go [OF _ s4] wol_run_go [OF _ s5] wol_run.stop) (simp_all add: waking_def)
  have "ww_reqs ?w ! 0 = WWaiting 0" "0 < length (ww_reqs ?w)" "ww_packets ?w' \<noteq> []" by (simp_all add: waking_def)
  with wake_up_bounded [OF r1 r2, of 0] mac r1 r2 show ?thesis
    by (intro exI [of _ ?w] exI [of _ ?w']) (simp add: list_all_iff waking_def)
qed

end
