(* ===== verification/Serving.thy ===== *)
theory Serving
  imports Metrics_Monitor Inference_Routing
begin

section \<open>Serving: a request from the door to the bill\<close>

text \<open>
  The inference path put together: gin's route and key check, the routing of \<open>proxyInferenceHandler\<close>, the credit gate's
  admission, the metrics wrapper around the dispatch, and the deferred resolution of the reservation. Many requests are under
  way at once; each goes through the handler in five atomic steps, in any interleaving with the others, and all of them
  share the rate limiter, the manager, the gate with its ledger, and the metrics pipeline. What an upstream answers is an argument of
  its step. No allowance is pushed meanwhile: this is the time between two snapshots.
\<close>

subsection \<open>The state\<close>

record ('b, 'j, 'f) frontEnv =
  fe_json :: "'b jsonLib"
  fe_itoa :: "int \<Rightarrow> string"
  fe_sha :: "string \<Rightarrow> string"
  fe_view :: "string \<Rightarrow> bodyView"
  fe_monitor :: bool
  fe_gjson :: "('j, 'f) gjsonLib"
  fe_gunzip :: "string \<Rightarrow> string option"
  fe_inflate :: "string \<Rightarrow> string option"
  fe_keys :: "string list"
  fe_labels :: "string \<rightharpoonup> string"
  fe_match :: "string \<Rightarrow> string \<Rightarrow> (string \<times> string \<times> bool \<times> handler) option"

text \<open>How a request ends: answered without dispatch, handed to another handler, or dispatched, billed and done.\<close>

datatype 'b ending = Stopped int | Elsewhere handler | Completed ginCtx "'b inferenceJob" "creditReservation option" "creditCapture option"

datatype 'b phase =
    RqArrived httpReq 'b
  | RqAuth httpReq ginCtx 'b
  | RqRouted httpReq ginCtx "'b inferenceJob"
  | RqAdmitted bool ginCtx "'b inferenceJob" "creditReservation option"
  | RqAnswered ginCtx "'b inferenceJob" "creditReservation option" "creditCapture option"
  | RqDone "'b ending"

record ('b, 'f) front =
  fs_limiter :: rateLimiter
  fs_pm :: proxyManager
  fs_gate :: creditGate
  fs_pipe :: "'f pipeline"
  fs_reqs :: "'b phase list"

subsection \<open>The steps\<close>

text \<open>The middleware and the route; only \<open>ProxyInference\<close> goes on here.\<close>

definition auth_step :: "('b, 'j, 'f) frontEnv \<Rightarrow> int \<Rightarrow> 'b phase \<Rightarrow> rateLimiter \<Rightarrow> rateLimiter \<times> 'b phase" where
  "auth_step E now ph rl =
     (case ph of
        RqArrived req body \<Rightarrow>
          (case gin_serve (fe_sha E) (fe_keys E) (fe_labels E) (fe_match E) (now, req) rl of
             (rl, Handled h req ctx) \<Rightarrow> (rl, if h = ProxyInference then RqAuth req ctx body else RqDone (Elsewhere h))
           | (rl, Refused code _) \<Rightarrow> (rl, RqDone (Stopped code))
           | (rl, Preflight _) \<Rightarrow> (rl, RqDone (Stopped 204))
           | (rl, NotFound) \<Rightarrow> (rl, RqDone (Stopped 404))
           | (rl, IndexPage) \<Rightarrow> (rl, RqDone (Stopped 200)))
      | _ \<Rightarrow> (rl, ph))"

definition route_step :: "('b, 'j, 'f) frontEnv \<Rightarrow> poll \<Rightarrow> 'b phase \<Rightarrow> proxyManager \<Rightarrow> proxyManager \<times> 'b phase" where
  "route_step E w ph pm =
     (case ph of
        RqAuth req ctx body \<Rightarrow>
          (case route_inference (fe_json E) w body pm of
             (pm, Inl code) \<Rightarrow> (pm, RqDone (Stopped code))
           | (pm, Inr routed) \<Rightarrow>
               (pm, RqRouted req ctx (prepare_job (fe_json E) (fe_itoa E) (fe_sha E) (fe_view E) pm req ctx routed)))
      | _ \<Rightarrow> (pm, ph))"

definition admit_step :: "('b, 'j, 'f) frontEnv \<Rightarrow> 'b phase \<Rightarrow> creditGate \<Rightarrow> creditGate \<times> 'b phase" where
  "admit_step E ph g =
     (case ph of
        RqRouted req ctx job \<Rightarrow>
          (let lib = fe_json E; b = job_body job; m = metered (fe_monitor E) req in
           if enforcing (Some g) \<and> m then
             (case guardedAdmit g (gc_fingerprint ctx) (job_model job)
                     (creditPromptUpperBound (jl_bytes lib b) (jl_Raw lib ''messages'' b) (jl_Raw lib ''prompt'' b))
                     (creditRequestedMax (jl_Int lib ''max_tokens'' b) (jl_Int lib ''max_completion_tokens'' b)) of
                (g, rsv, d) \<Rightarrow>
                  (g, if \<not> served d then RqDone (Stopped (creditDenyStatus d)) else RqAdmitted m ctx job rsv))
           else (g, RqAdmitted m ctx job None))
      | _ \<Rightarrow> (g, ph))"

text \<open>The dispatch, through the wrapper when the request is metered; the capture is in the context only under the gate.\<close>

definition serve_step :: "('b, 'j, 'f) frontEnv \<Rightarrow> callWorld \<Rightarrow> (http_headers \<Rightarrow> unit + string \<times> reply) \<Rightarrow> 'b phase
    \<Rightarrow> 'f pipeline \<Rightarrow> 'f pipeline \<times> 'b phase" where
  "serve_step E w next ph pl =
     (case ph of
        RqAdmitted m ctx job rsv \<Rightarrow>
          (let cap = (case rsv of None \<Rightarrow> None | Some _ \<Rightarrow> Some freshCapture) in
           if m then
             (case wrapHandler (fe_gjson E) (fe_gunzip E) (fe_inflate E) w (job_model job) ctx next (job_headers job) cap pl of
                (pl, cap, _) \<Rightarrow> (pl, RqAnswered ctx job rsv cap))
           else (pl, RqAnswered ctx job rsv cap))
      | _ \<Rightarrow> (pl, ph))"

definition resolve_step :: "'b phase \<Rightarrow> creditGate \<Rightarrow> creditGate \<times> 'b phase" where
  "resolve_step ph g =
     (case ph of
        RqAnswered ctx job rsv cap \<Rightarrow>
          (case rsv of
             None \<Rightarrow> (g, RqDone (Completed ctx job rsv cap))
           | Some _ \<Rightarrow>
               (case guardedResolve g rsv (\<lambda>g. resolveReservation g rsv cap) of
                  (g, _) \<Rightarrow> (g, RqDone (Completed ctx job rsv cap))))
      | _ \<Rightarrow> (g, ph))"

datatype 'b front_act =
    AArrive httpReq 'b | AAuth nat int | ARoute nat poll | AAdmit nat
  | AServe nat callWorld "http_headers \<Rightarrow> unit + string \<times> reply" | AResolve nat

definition set_req :: "nat \<Rightarrow> 'b phase \<Rightarrow> ('b, 'f) front \<Rightarrow> ('b, 'f) front" where
  "set_req i ph s = s\<lparr>fs_reqs := (fs_reqs s)[i := ph]\<rparr>"

text \<open>An action on a request that does not exist, or is not where the action applies, changes nothing.\<close>

fun front_do :: "('b, 'j, 'f) frontEnv \<Rightarrow> 'b front_act \<Rightarrow> ('b, 'f) front \<Rightarrow> ('b, 'f) front" where
  "front_do E (AArrive req body) s = s\<lparr>fs_reqs := fs_reqs s @ [RqArrived req body]\<rparr>"
| "front_do E (AAuth i now) s =
     (if i < length (fs_reqs s)
      then case auth_step E now (fs_reqs s ! i) (fs_limiter s) of (rl, ph) \<Rightarrow> set_req i ph (s\<lparr>fs_limiter := rl\<rparr>) else s)"
| "front_do E (ARoute i w) s =
     (if i < length (fs_reqs s)
      then case route_step E w (fs_reqs s ! i) (fs_pm s) of (pm, ph) \<Rightarrow> set_req i ph (s\<lparr>fs_pm := pm\<rparr>) else s)"
| "front_do E (AAdmit i) s =
     (if i < length (fs_reqs s)
      then case admit_step E (fs_reqs s ! i) (fs_gate s) of (g, ph) \<Rightarrow> set_req i ph (s\<lparr>fs_gate := g\<rparr>) else s)"
| "front_do E (AServe i w next) s =
     (if i < length (fs_reqs s)
      then case serve_step E w next (fs_reqs s ! i) (fs_pipe s) of (pl, ph) \<Rightarrow> set_req i ph (s\<lparr>fs_pipe := pl\<rparr>) else s)"
| "front_do E (AResolve i) s =
     (if i < length (fs_reqs s)
      then case resolve_step (fs_reqs s ! i) (fs_gate s) of (g, ph) \<Rightarrow> set_req i ph (s\<lparr>fs_gate := g\<rparr>) else s)"

definition front_run :: "('b, 'j, 'f) frontEnv \<Rightarrow> 'b front_act list \<Rightarrow> ('b, 'f) front \<Rightarrow> ('b, 'f) front" where
  "front_run E as s = fold (front_do E) as s"

text \<open>One request alone, taken through all its steps, is the handler.\<close>

lemma wrap_capture:
  "\<exists>cap. fst (snd (wrapHandler lib gunzip inflate w modelID ctx next h (Some c) pl)) = Some cap"
  by (auto simp: wrapHandler_def setCreditCaptureStatus_def setCreditCaptureTokens_def Let_def split: sum.split prod.split)

lemma run_alone:
  assumes "fs_reqs s = [ph]"
  shows "front_run E [ARoute 0 w, AAdmit 0, AServe 0 cw nx, AResolve 0] s =
    (case route_step E w ph (fs_pm s) of (pm, p1) \<Rightarrow>
     case admit_step E p1 (fs_gate s) of (g1, p2) \<Rightarrow>
     case serve_step E cw nx p2 (fs_pipe s) of (pl, p3) \<Rightarrow>
     case resolve_step p3 g1 of (g2, p4) \<Rightarrow> s\<lparr>fs_pm := pm, fs_gate := g2, fs_pipe := pl, fs_reqs := [p4]\<rparr>)"
  using assms by (simp add: front_run_def set_req_def split_beta)

lemma steps_done [simp]:
  "admit_step E (RqDone x) g = (g, RqDone x)" "serve_step E cw nx (RqDone x) pl = (pl, RqDone x)"
  "resolve_step (RqDone x) g = (g, RqDone x)"
  by (simp_all add: admit_step_def serve_step_def resolve_step_def)

lemma alone_is_handler:
  assumes "fs_reqs s = [RqAuth req ctx body]"
  shows "case proxyInferenceHandler (fe_json E) (fe_itoa E) (fe_sha E) (fe_view E) w (fe_monitor E) req ctx body
      (\<lambda>job g. (g, the (fst (snd (wrapHandler (fe_gjson E) (fe_gunzip E) (fe_inflate E) cw (job_model job) ctx (next job) (job_headers job)
         (Some freshCapture) (fs_pipe s)))))) (fs_pm s) (fs_gate s) of
    (pm, g, Inl code) \<Rightarrow>
      front_run E [ARoute 0 w, AAdmit 0, AServe 0 cw nx, AResolve 0] s
        = s\<lparr>fs_pm := pm, fs_gate := g, fs_reqs := [RqDone (Stopped code)]\<rparr>
  | (pm, g, Inr (job, r)) \<Rightarrow>
      (let s' = front_run E [ARoute 0 w, AAdmit 0, AServe 0 cw (next job), AResolve 0] s in
       fs_pm s' = pm \<and> fs_gate s' = g \<and> (\<exists>rsv cap. fs_reqs s' = [RqDone (Completed ctx job rsv cap)]))"
proof -
  note alone = run_alone [OF assms]
  obtain pm r where route: "route_inference (fe_json E) w body (fs_pm s) = (pm, r)" by fastforce
  show ?thesis
  proof (cases r)
    case (Inl code)
    then show ?thesis by (simp add: proxyInferenceHandler_def route alone route_step_def)
  next
    case (Inr routed)
    define job where "job = prepare_job (fe_json E) (fe_itoa E) (fe_sha E) (fe_view E) pm req ctx routed"
    have r: "route_step E w (RqAuth req ctx body) (fs_pm s) = (pm, RqRouted req ctx job)"
      by (simp add: route_step_def route Inr job_def)
    define m where "m = metered (fe_monitor E) req"
    define up where "up = creditPromptUpperBound (jl_bytes (fe_json E) (job_body job)) (jl_Raw (fe_json E) ''messages'' (job_body job))
      (jl_Raw (fe_json E) ''prompt'' (job_body job))"
    define mx where "mx = creditRequestedMax (jl_Int (fe_json E) ''max_tokens'' (job_body job))
      (jl_Int (fe_json E) ''max_completion_tokens'' (job_body job))"
    define wrap where "wrap c = wrapHandler (fe_gjson E) (fe_gunzip E) (fe_inflate E) cw (job_model job) ctx (next job)
      (job_headers job) c (fs_pipe s)" for c
    obtain cap where cap: "fst (snd (wrap (Some freshCapture))) = Some cap" unfolding wrap_def using wrap_capture by blast
    have h: "proxyInferenceHandler (fe_json E) (fe_itoa E) (fe_sha E) (fe_view E) w (fe_monitor E) req ctx body
        (\<lambda>job g. (g, the (fst (snd (wrapHandler (fe_gjson E) (fe_gunzip E) (fe_inflate E) cw (job_model job) ctx (next job) (job_headers job)
           (Some freshCapture) (fs_pipe s)))))) (fs_pm s) (fs_gate s)
      = (case meteredRequest (fs_gate s) m (gc_fingerprint ctx) (job_model job) up mx (\<lambda>g. (g, cap)) of
           (g, Inl (code, _)) \<Rightarrow> (pm, g, Inl code) | (g, Inr x) \<Rightarrow> (pm, g, Inr (job, x)))"
      by (simp add: proxyInferenceHandler_def route Inr Let_def cap flip: job_def m_def up_def mx_def wrap_def)
    have a: "admit_step E (RqRouted req ctx job) g =
      (if enforcing (Some g) \<and> m then
         (case guardedAdmit g (gc_fingerprint ctx) (job_model job) up mx of
            (g, rsv, d) \<Rightarrow> (g, if \<not> served d then RqDone (Stopped (creditDenyStatus d)) else RqAdmitted m ctx job rsv))
       else (g, RqAdmitted m ctx job None))" for g
      by (simp add: admit_step_def Let_def flip: m_def up_def mx_def)
    have v: "serve_step E cw (next job) (RqAdmitted k ctx job rsv) (fs_pipe s) =
      (let c = (case rsv of None \<Rightarrow> None | Some _ \<Rightarrow> Some freshCapture) in
       if k then (fst (wrap c), RqAnswered ctx job rsv (fst (snd (wrap c)))) else (fs_pipe s, RqAnswered ctx job rsv c))" for k rsv
      by (simp add: serve_step_def Let_def split_beta flip: wrap_def)
    show ?thesis
    proof (cases "enforcing (Some (fs_gate s)) \<and> m")
      case False
      then show ?thesis
        by (auto simp: h alone r a v resolve_step_def meteredRequest_def Let_def)
    next
      case True
      obtain g rsv d where adm: "guardedAdmit (fs_gate s) (gc_fingerprint ctx) (job_model job) up mx = (g, rsv, d)"
        by (metis prod.exhaust)
      show ?thesis
        using True adm cap
        by (cases "served d"; cases rsv)
          (simp_all add: h alone r a v meteredRequest_def resolve_step_def guardedResolve_def Let_def split_beta)
    qed
  qed
qed

subsection \<open>What is held, spent and paid\<close>

definition phase_ctx :: "'b phase \<Rightarrow> ginCtx option" where
  "phase_ctx ph = (case ph of
      RqAuth req ctx body \<Rightarrow> Some ctx | RqRouted req ctx job \<Rightarrow> Some ctx | RqAdmitted m ctx job rsv \<Rightarrow> Some ctx
    | RqAnswered ctx job rsv cap \<Rightarrow> Some ctx | RqDone (Completed ctx job rsv cap) \<Rightarrow> Some ctx | _ \<Rightarrow> None)"

text \<open>The reservation a request under way holds.\<close>

definition held :: "'b phase \<Rightarrow> (ginCtx \<times> creditReservation) option" where
  "held ph = (case ph of
      RqAdmitted m ctx job (Some r) \<Rightarrow> Some (ctx, r) | RqAnswered ctx job (Some r) cap \<Rightarrow> Some (ctx, r) | _ \<Rightarrow> None)"

definition spent :: "priceBook \<Rightarrow> string \<Rightarrow> 'b phase \<Rightarrow> int" where
  "spent pb fp ph =
     (case held ph of
        Some (ctx, r) \<Rightarrow> if gc_fingerprint ctx = fp then max 0 (reservedCost r) else 0
      | None \<Rightarrow>
          (case ph of
             RqDone (Completed ctx job (Some r) (Some cap)) \<Rightarrow>
               if gc_fingerprint ctx = fp then charge pb (r_model r) (reservedCost r) cap else 0
           | _ \<Rightarrow> 0))"

text \<open>The price of a metric: its counts at the model's rates, no more than the hold; the hold when there are no counts.\<close>

definition price_of :: "priceBook \<Rightarrow> int \<Rightarrow> 'f TokenMetrics \<Rightarrow> int" where
  "price_of pb cost tm =
     (if tm_InputTokens tm \<le> 0 \<and> tm_OutputTokens tm \<le> 0 then max 0 cost
      else case ActualCost pb (tm_Model tm) (tm_InputTokens tm) (tm_OutputTokens tm) of
        None \<Rightarrow> 0 | Some actual \<Rightarrow> min (max 0 cost) (max 0 actual))"

definition paid_for :: "priceBook \<Rightarrow> 'f TokenMetrics \<Rightarrow> 'b phase \<Rightarrow> bool" where
  "paid_for pb tm ph =
     (case (case ph of
              RqAnswered ctx job rsv cap \<Rightarrow> Some (ctx, rsv, cap)
            | RqDone (Completed ctx job rsv cap) \<Rightarrow> Some (ctx, rsv, cap)
            | _ \<Rightarrow> None) of
        Some (ctx, Some r, Some cap) \<Rightarrow>
          tm_KeyFingerprint tm = gc_fingerprint ctx \<and> tm_Client tm = gc_client ctx \<and> tm_Model tm = r_model r
        \<and> charge pb (r_model r) (reservedCost r) cap = price_of pb (reservedCost r) tm
      | _ \<Rightarrow> False)"

subsection \<open>The ledger under the gate's steps\<close>

lemma is_open_holds: "holds l' = holds l \<Longrightarrow> is_open l' = is_open l"
  by (simp add: is_open_def hold_at_def fun_eq_iff)

lemma open_frame:
  assumes "is_open l h k c" "h \<noteq> h'"
  shows "is_open (Release l (Some h')) h k c" "is_open (fst (TrueUp l (Some h') a)) h k c"
proof -
  have *: "is_open l2 h k c" if "holds l2 = (holds l)[h' := x]" for l2 x
    using assms that by (auto simp: is_open_def hold_at_def split: if_splits)
  show "is_open (Release l (Some h')) h k c"
    by (cases "hold_at l h'") (use assms(1) in \<open>auto simp: Release_closed Release_open intro: * split: if_splits\<close>,
        metis Release_closed Release_open(2) *)
  show "is_open (fst (TrueUp l (Some h') a)) h k c"
    by (cases "hold_at l h'") (use assms(1) in \<open>auto simp: TrueUp_closed\<close>, metis TrueUp_closed TrueUp_open(2) * fst_conv)
qed

text \<open>A resolution of an open hold: the other holds stay open, and the gate's settings stay.\<close>

definition gate_ready :: "priceBook \<Rightarrow> creditLedger \<Rightarrow> creditGate \<Rightarrow> bool" where
  "gate_ready pb l g \<longleftrightarrow> enforce g \<and> prices g = Some pb \<and> g_ledger g = Some l \<and> \<not> g_broken g"

lemma resolve_ready:
  assumes "gate_ready pb l g" "is_open l h key (max 0 cost)"
    and "rsv = \<lparr>r_gate = True, inner = Some h, r_model = model, reservedCost = cost\<rparr>"
  shows "\<exists>g' l'. guardedResolve g (Some rsv) (\<lambda>g. resolveReservation g (Some rsv) (Some cap)) = (g', Some ())
    \<and> gate_ready pb l' g' \<and> avail l' = (avail l)(key := avail l key + max 0 cost - charge pb model cost cap)
    \<and> (\<forall>h2 k c. h2 \<noteq> h \<longrightarrow> is_open l h2 k c \<longrightarrow> is_open l' h2 k c)"
proof -
  have g: "g_ledger g = Some l" "\<not> g_broken g" "prices g = Some pb" "enforce g"
    using assms(1) by (simp_all add: gate_ready_def)
  from resolve_held [OF g(1-3) assms(2,3)] obtain g' l' where
    r: "resolveReservation g (Some rsv) (Some cap) = (g', Some ())" "g_ledger g' = Some l'"
    "avail l' = (avail l)(key := avail l key + max 0 cost - charge pb model cost cap)" by blast
  have s: "enforce g' = enforce g \<and> prices g' = prices g \<and> g_broken g' = g_broken g
      \<and> (l' = Release l (Some h) \<or> (\<exists>a. l' = fst (TrueUp l (Some h) a)))"
    using r(1,2) g assms(3)
    by (auto simp: resolveReservation_def rsv_release_def ledger_Release_def trueUpReserved_def ledger_TrueUp_def trueUp_def
        recordPricingFail_def recordClamp_def Let_def split: if_splits option.splits)
  then have "\<forall>h2 k c. h2 \<noteq> h \<longrightarrow> is_open l h2 k c \<longrightarrow> is_open l' h2 k c"
    using open_frame by blast
  then show ?thesis
    using r s g guardedResolve_returns [where r = rsv and fn = "\<lambda>g. resolveReservation g (Some rsv) (Some cap)", OF r(1)]
    by (auto simp: gate_ready_def)
qed

lemma admit_ready:
  assumes "gate_ready pb l g"
  shows "case guardedAdmit g key model up mx of (g', rsv, d) \<Rightarrow>
    \<exists>l'. gate_ready pb l' g'
    \<and> (if served d
       then \<exists>cost h. rsv = Some \<lparr>r_gate = True, inner = Some h, r_model = model, reservedCost = cost\<rparr>
          \<and> h = length (holds l) \<and> max 0 cost \<le> avail l key
          \<and> is_open l' h key (max 0 cost) \<and> avail l' = (avail l)(key := avail l key - max 0 cost)
          \<and> (\<forall>h2 k c. is_open l h2 k c \<longrightarrow> is_open l' h2 k c)
       else avail l' = avail l \<and> (\<forall>h2 k c. is_open l h2 k c \<longrightarrow> is_open l' h2 k c))"
proof (cases "ReserveCost pb model up mx")
  case None
  then have "admit g key model up mx = (g, Some (None, admitUnpriced))"
    using assms by (simp add: admit_def gate_ready_def enforcing_def)
  from guardedAdmit_admit [OF this] assms show ?thesis by (auto simp: served_def)
next
  case (Some cost)
  have g: "enforce g" "prices g = Some pb" "g_ledger g = Some l" "\<not> g_broken g"
    using assms by (simp_all add: gate_ready_def)
  show ?thesis
  proof (cases "avail l key < max 0 cost")
    case True
    note a = guardedAdmit_admit [OF admit_cases(1) [OF g Some True]]
    have "is_open (fst (Reserve l key cost)) h2 k c" if "is_open l h2 k c" for h2 k c
      using that by (simp add: Reserve_deny [OF True] keyLocked_holds is_open_holds [of "fst (keyLocked l key)" l])
    with lg.deny [OF True] g show ?thesis by (auto simp: a gate_ready_def served_def)
  next
    case False
    then have cov: "max 0 cost \<le> avail l key" by (simp only: not_less)
    note gr = Reserve_grant [OF cov]
    note a = guardedAdmit_admit [OF admit_cases(2) [OF g Some gr(1)]]
    have "is_open (fst (Reserve l key cost)) h2 k c" if "is_open l h2 k c" for h2 k c
      using that by (cases "h2 < length (holds l)") (simp_all add: gr(3) is_open_def hold_at_def nth_append)
    with lg.grant [OF cov] gr(1) g cov show ?thesis by (auto simp: a gate_ready_def served_def)
  qed
qed

subsection \<open>The invariant\<close>

definition known_ctx :: "('b, 'j, 'f) frontEnv \<Rightarrow> ginCtx \<Rightarrow> bool" where
  "known_ctx E ctx \<longleftrightarrow> (\<exists>key \<in> set (fe_keys E). gc_fingerprint ctx = keyFingerprint (fe_sha E) key
     \<and> gc_client ctx = key_label (fe_sha E) (fe_labels E) key)"

definition handle :: "'b phase \<Rightarrow> nat option" where
  "handle ph = Option.bind (held ph) (\<lambda>(ctx, r). inner r)"

text \<open>A metered request that has been admitted has a reservation, whose hold is open in the ledger until it is resolved.\<close>

definition phase_ok :: "('b, 'j, 'f) frontEnv \<Rightarrow> creditLedger \<Rightarrow> 'b phase \<Rightarrow> bool" where
  "phase_ok E l ph \<longleftrightarrow>
     (case phase_ctx ph of None \<Rightarrow> True | Some ctx \<Rightarrow> known_ctx E ctx)
   \<and> (case held ph of None \<Rightarrow> True
      | Some (ctx, r) \<Rightarrow> r_gate r
          \<and> (case inner r of None \<Rightarrow> False | Some h \<Rightarrow> is_open l h (gc_fingerprint ctx) (max 0 (reservedCost r))))
   \<and> (case ph of
        RqAdmitted m ctx job rsv \<Rightarrow> (case rsv of None \<Rightarrow> \<not> m | Some r \<Rightarrow> m \<and> r_model r = job_model job)
      | RqAnswered ctx job rsv cap \<Rightarrow> rsv = None \<longleftrightarrow> cap = None
      | _ \<Rightarrow> True)"

definition front_at :: "('b, 'j, 'f) frontEnv \<Rightarrow> priceBook \<Rightarrow> (string \<Rightarrow> int) \<Rightarrow> creditLedger \<Rightarrow> ('b, 'f) front \<Rightarrow> bool" where
  "front_at E pb B l s \<longleftrightarrow>
     gate_ready pb l (fs_gate s)
   \<and> (\<forall>fp. avail l fp = B fp - sum_list (map (spent pb fp) (fs_reqs s)) \<and> (0 \<le> B fp \<longrightarrow> 0 \<le> avail l fp))
   \<and> (\<forall>i < length (fs_reqs s). phase_ok E l (fs_reqs s ! i))
   \<and> (\<forall>i < length (fs_reqs s). \<forall>j < length (fs_reqs s). \<forall>h.
        handle (fs_reqs s ! i) = Some h \<and> handle (fs_reqs s ! j) = Some h \<longrightarrow> i = j)
   \<and> (\<forall>tm \<in> set (metrics (pl_metrics (fs_pipe s))). \<exists>ph \<in> set (fs_reqs s). paid_for pb tm ph)"

lemma sum_list_replace:
  fixes f :: "'a \<Rightarrow> int"
  shows "i < length xs \<Longrightarrow> sum_list (map f (xs[i := y])) = sum_list (map f xs) - f (xs ! i) + f y"
  by (induction xs arbitrary: i) (auto split: nat.split)

lemma handle_open: "phase_ok E l ph \<Longrightarrow> handle ph = Some h \<Longrightarrow> \<exists>k c. is_open l h k c"
  by (auto simp: phase_ok_def handle_def split: option.splits)

text \<open>One request moves from one phase to the next, and the ledger with it.\<close>

lemma front_move:
  fixes s s' :: "('b, 'f) front"
  assumes at: "front_at E pb B l s" and i: "i < length (fs_reqs s)" and ph: "fs_reqs s ! i = ph"
    and s': "fs_reqs s' = (fs_reqs s)[i := ph']"
    and ready: "gate_ready pb l' (fs_gate s')"
    and bal: "\<And>fp. avail l' fp = avail l fp + spent pb fp ph - spent pb fp ph'" "\<And>fp. 0 \<le> avail l fp \<Longrightarrow> 0 \<le> avail l' fp"
    and ok: "phase_ok E l' ph'" and stay: "\<And>h k c. is_open l h k c \<Longrightarrow> handle ph \<noteq> Some h \<Longrightarrow> is_open l' h k c"
    and fresh: "handle ph' = None \<or> handle ph' = handle ph \<or> (\<exists>h. handle ph' = Some h \<and> (\<forall>k c. \<not> is_open l h k c))"
    and paid: "\<And>tm :: 'f TokenMetrics. paid_for pb tm ph \<Longrightarrow> paid_for pb tm ph'"
    and recorded: "\<And>tm. tm \<in> set (metrics (pl_metrics (fs_pipe s'))) \<Longrightarrow> tm \<in> set (metrics (pl_metrics (fs_pipe s))) \<or> paid_for pb tm ph'"
  shows "front_at E pb B l' s'"
proof -
  let ?rs = "fs_reqs s"
  have rs: "ph' \<in> set (fs_reqs s')" "j \<noteq> i \<Longrightarrow> fs_reqs s' ! j = ?rs ! j" "fs_reqs s' ! i = ph'" for j
    using i s' by (simp_all add: set_update_memI)
  have oks: "phase_ok E l (?rs ! j)" if "j < length ?rs" for j using at that by (simp add: front_at_def)
  have dist: "handle (?rs ! j) = Some h \<Longrightarrow> handle (?rs ! k) = Some h \<Longrightarrow> j = k" if "j < length ?rs" "k < length ?rs" for j k h
    using at that by (simp add: front_at_def)
  have other: "phase_ok E l' (?rs ! j)" if j: "j < length ?rs" "j \<noteq> i" for j
  proof -
    have "is_open l' h k c" if "handle (?rs ! j) = Some h" "is_open l h k c" for h k c
      using stay [OF that(2)] dist [OF j(1) i that(1)] j(2) ph by blast
    with oks [OF j(1)] show ?thesis
      by (fastforce simp: phase_ok_def handle_def split: option.splits)
  qed
  have clash: "handle (?rs ! j) \<noteq> Some h" if jl: "j < length ?rs" and ji: "j \<noteq> i" and hp: "handle ph' = Some h" for j h
  proof
    assume h: "handle (?rs ! j) = Some h"
    then obtain k c where "is_open l h k c" using handle_open [OF oks [OF jl]] by blast
    with fresh hp have "handle ph = Some h" by auto
    with dist [OF jl i h] ph ji show False by simp
  qed
  have "\<forall>fp. avail l' fp = B fp - sum_list (map (spent pb fp) (fs_reqs s')) \<and> (0 \<le> B fp \<longrightarrow> 0 \<le> avail l' fp)"
  proof
    fix fp
    have b: "avail l fp = B fp - sum_list (map (spent pb fp) ?rs)" and n: "0 \<le> B fp \<longrightarrow> 0 \<le> avail l fp"
      using at unfolding front_at_def by blast+
    have "avail l' fp = B fp - sum_list (map (spent pb fp) (fs_reqs s'))"
      unfolding bal(1) b s' sum_list_replace [OF i] ph by simp
    with n bal(2) show "avail l' fp = B fp - sum_list (map (spent pb fp) (fs_reqs s')) \<and> (0 \<le> B fp \<longrightarrow> 0 \<le> avail l' fp)"
      by blast
  qed
  moreover have "\<forall>j < length (fs_reqs s'). phase_ok E l' (fs_reqs s' ! j)"
    using other ok by (simp add: s' nth_list_update [OF i])
  moreover have "j = k" if "j < length (fs_reqs s')" "k < length (fs_reqs s')" "handle (fs_reqs s' ! j) = Some h" "handle (fs_reqs s' ! k) = Some h" for j k h
    using that clash [of j h] clash [of k h] dist [of j k h] by (auto simp: s' nth_list_update [OF i] split: if_splits)
  moreover have "\<exists>p \<in> set (fs_reqs s'). paid_for pb tm p" if tm: "tm \<in> set (metrics (pl_metrics (fs_pipe s')))" for tm
  proof -
    consider "paid_for pb tm ph'" | p where "p \<in> set ?rs" "paid_for pb tm p"
      using recorded [OF tm] at by (auto simp: front_at_def)
    then show ?thesis
    proof cases
      case 2
      then obtain j where j: "j < length ?rs" "?rs ! j = p" by (meson in_set_conv_nth)
      show ?thesis
      proof (cases "j = i")
        case True
        then show ?thesis using 2 j ph paid rs(1) by blast
      next
        case False
        then have "p \<in> set (fs_reqs s')" using j rs(2) s' by (metis length_list_update nth_mem)
        with 2 show ?thesis by blast
      qed
    qed (use rs(1) in blast)
  qed
  ultimately show ?thesis using ready by (auto simp: front_at_def)
qed

text \<open>The steps, each as such a move.\<close>

lemma set_req_same [simp]: "fs_reqs s ! i = ph \<Longrightarrow> set_req i ph s = s"
  by (auto simp: set_req_def)

text \<open>Before admission, and when it ends without dispatch, a request holds and has spent nothing.\<close>

definition idle :: "'b phase \<Rightarrow> bool" where
  "idle ph = (case ph of RqAdmitted _ _ _ _ \<Rightarrow> False | RqAnswered _ _ _ _ \<Rightarrow> False | RqDone (Completed _ _ _ _) \<Rightarrow> False | _ \<Rightarrow> True)"

lemma idle_simps [simp]:
  assumes "idle ph"
  shows "held ph = None" "handle ph = None" "spent pb fp ph = 0" "\<not> paid_for pb tm ph"
  using assms by (auto simp: idle_def held_def handle_def spent_def paid_for_def split: phase.splits ending.splits)

lemma idle_ok: "idle ph \<Longrightarrow> phase_ok E l ph \<longleftrightarrow> (case phase_ctx ph of None \<Rightarrow> True | Some ctx \<Rightarrow> known_ctx E ctx)"
  by (auto simp: idle_def phase_ok_def held_def split: phase.splits ending.splits)

lemma idle_move:
  assumes "front_at E pb B l s" "i < length (fs_reqs s)" "fs_reqs s ! i = ph" "idle ph" "idle ph'" "phase_ok E l ph'"
    and "fs_reqs s' = (fs_reqs s)[i := ph']" "gate_ready pb l (fs_gate s')" "fs_pipe s' = fs_pipe s"
  shows "front_at E pb B l s'"
  by (rule front_move [OF assms(1-3,7,8)]) (use assms(4-6,9) in simp_all)

lemma front_auth:
  assumes "front_at E pb B l s" "fe_keys E \<noteq> []" "\<forall>m p e. fe_match E m p = Some e \<longrightarrow> e \<in> set (routes @ apiRoutes)"
  shows "front_at E pb B l (front_do E (AAuth i now) s)"
proof (cases "i < length (fs_reqs s) \<and> (\<exists>req body. fs_reqs s ! i = RqArrived req body)")
  case False
  then show ?thesis using assms(1) by (auto simp: auth_step_def split: phase.split)
next
  case True
  then obtain req body where i: "i < length (fs_reqs s)" and a: "fs_reqs s ! i = RqArrived req body" by blast
  obtain rl r where g: "gin_serve (fe_sha E) (fe_keys E) (fe_labels E) (fe_match E) (now, req) (fs_limiter s) = (rl, r)" by fastforce
  have ok: "answer_ok (fe_sha E) (fe_keys E) (fe_labels E) (fe_match E) req r"
    using answer_gin_serve [OF assms(2,3), of "fe_sha E" "fe_labels E" req now "fs_limiter s"] g by simp
  obtain ph where ph: "auth_step E now (fs_reqs s ! i) (fs_limiter s) = (rl, ph)"
    by (cases r) (auto simp: auth_step_def a g)
  have p: "idle ph" "phase_ok E l ph"
    using ph ok by (auto simp: auth_step_def a g idle_def phase_ok_def phase_ctx_def held_def known_ctx_def answer_ok_def public_def
        Let_def split: served.splits if_splits)
  have "front_at E pb B l (set_req i ph (s\<lparr>fs_limiter := rl\<rparr>))"
    by (rule idle_move [OF assms(1) i a _ p]) (use assms(1) in \<open>simp_all add: idle_def set_req_def front_at_def\<close>)
  with i show ?thesis by (simp add: ph)
qed

lemma front_route:
  assumes "front_at E pb B l s"
  shows "front_at E pb B l (front_do E (ARoute i w) s)"
proof (cases "i < length (fs_reqs s) \<and> (\<exists>req ctx body. fs_reqs s ! i = RqAuth req ctx body)")
  case False
  then show ?thesis using assms by (auto simp: route_step_def split: phase.split)
next
  case True
  then obtain req ctx body where i: "i < length (fs_reqs s)" and a: "fs_reqs s ! i = RqAuth req ctx body" by blast
  obtain pm ph where ph: "route_step E w (fs_reqs s ! i) (fs_pm s) = (pm, ph)" by fastforce
  have k: "known_ctx E ctx" using assms i a by (auto simp: front_at_def phase_ok_def phase_ctx_def)
  have p: "idle ph" "phase_ok E l ph"
    using ph k by (auto simp: route_step_def a idle_def phase_ok_def phase_ctx_def held_def split: prod.splits sum.splits)
  have "front_at E pb B l (set_req i ph (s\<lparr>fs_pm := pm\<rparr>))"
    by (rule idle_move [OF assms i a _ p]) (use assms in \<open>simp_all add: idle_def set_req_def front_at_def\<close>)
  with i show ?thesis by (simp add: ph)
qed

lemma front_admit:
  fixes s :: "('b, 'f) front"
  assumes "front_at E pb B l s"
  shows "\<exists>l'. front_at E pb B l' (front_do E (AAdmit i) s)"
proof (cases "i < length (fs_reqs s) \<and> (\<exists>req ctx job. fs_reqs s ! i = RqRouted req ctx job)")
  case False
  then show ?thesis using assms by (intro exI [of _ l]) (auto simp: admit_step_def split: phase.split)
next
  case True
  then obtain req ctx job where i: "i < length (fs_reqs s)" and a: "fs_reqs s ! i = RqRouted req ctx job" by blast
  obtain g ph where ph: "admit_step E (fs_reqs s ! i) (fs_gate s) = (g, ph)" by fastforce
  have k: "known_ctx E ctx" and r: "gate_ready pb l (fs_gate s)"
    using assms i a by (auto simp: front_at_def phase_ok_def phase_ctx_def)
  have old: "spent pb fp (RqRouted req ctx job) = 0" "\<not> paid_for pb tm (RqRouted req ctx job)"
    "handle (RqRouted req ctx job) = None" for fp and tm :: "'f TokenMetrics"
    by (simp_all add: idle_def)
  let ?s = "set_req i ph (s\<lparr>fs_gate := g\<rparr>)"
  have s: "front_do E (AAdmit i) s = ?s" using i by (simp add: ph)
  have metrics: "tm \<in> set (metrics (pl_metrics (fs_pipe ?s))) \<Longrightarrow> tm \<in> set (metrics (pl_metrics (fs_pipe s))) \<or> paid_for pb tm ph" for tm
    by (simp add: set_req_def)
  have move: "front_at E pb B l' ?s"
    if "gate_ready pb l' g" "\<And>fp. avail l' fp = avail l fp - spent pb fp ph" "\<And>fp. 0 \<le> avail l fp \<Longrightarrow> 0 \<le> avail l' fp"
      "phase_ok E l' ph" "\<And>h k c. is_open l h k c \<Longrightarrow> is_open l' h k c"
      "handle ph = None \<or> (\<exists>h. handle ph = Some h \<and> (\<forall>k c. \<not> is_open l h k c))" for l'
    by (rule front_move [OF assms i a _ _ _ _ that(4) _ _ _ metrics]) (use that old in \<open>auto simp: set_req_def\<close>)
  show ?thesis
  proof (cases "metered (fe_monitor E) req")
    case False
    then have "g = fs_gate s" "ph = RqAdmitted False ctx job None" using ph by (auto simp: admit_step_def a)
    then have "front_at E pb B l ?s"
      using r k by (intro move) (auto simp: phase_ok_def phase_ctx_def held_def spent_def handle_def)
    then show ?thesis using s by auto
  next
    case m: True
    have e: "enforcing (Some (fs_gate s))" using r by (simp add: gate_ready_def enforcing_def)
    define up where "up = creditPromptUpperBound (jl_bytes (fe_json E) (job_body job)) (jl_Raw (fe_json E) ''messages'' (job_body job))
      (jl_Raw (fe_json E) ''prompt'' (job_body job))"
    define mx where "mx = creditRequestedMax (jl_Int (fe_json E) ''max_tokens'' (job_body job))
      (jl_Int (fe_json E) ''max_completion_tokens'' (job_body job))"
    obtain rsv d where adm: "guardedAdmit (fs_gate s) (gc_fingerprint ctx) (job_model job) up mx = (g, rsv, d)"
      and p: "ph = (if \<not> served d then RqDone (Stopped (creditDenyStatus d)) else RqAdmitted True ctx job rsv)"
      using ph m e by (auto simp: admit_step_def a Let_def simp flip: up_def mx_def split: prod.splits)
    from admit_ready [OF r, where key = "gc_fingerprint ctx" and model = "job_model job" and up = up and mx = mx] obtain l' where
      l': "gate_ready pb l' g"
      and d: "if served d
       then \<exists>cost h. rsv = Some \<lparr>r_gate = True, inner = Some h, r_model = job_model job, reservedCost = cost\<rparr>
          \<and> h = length (holds l) \<and> max 0 cost \<le> avail l (gc_fingerprint ctx)
          \<and> is_open l' h (gc_fingerprint ctx) (max 0 cost)
          \<and> avail l' = (avail l)(gc_fingerprint ctx := avail l (gc_fingerprint ctx) - max 0 cost)
          \<and> (\<forall>h2 k c. is_open l h2 k c \<longrightarrow> is_open l' h2 k c)
       else avail l' = avail l \<and> (\<forall>h2 k c. is_open l h2 k c \<longrightarrow> is_open l' h2 k c)"
      by (auto simp: adm)
    have new: "\<not> is_open l (length (holds l)) k c" for k c by (simp add: is_open_def hold_at_def)
    have "front_at E pb B l' ?s"
    proof (cases "served d")
      case False
      then show ?thesis
        using l' d p by (intro move) (auto simp: phase_ok_def phase_ctx_def held_def spent_def handle_def)
    next
      case True
      then show ?thesis
        using l' d p k new by (intro move) (auto simp: phase_ok_def phase_ctx_def held_def spent_def handle_def)
    qed
    then show ?thesis using s by auto
  qed
qed

text \<open>What is recorded of an answer: the model of the request, and its key and client.\<close>

lemma metric_of_named:
  "tm_Model (fst (metric_of lib gunzip inflate w modelID ctx node r)) = modelID"
  "tm_KeyFingerprint (fst (metric_of lib gunzip inflate w modelID ctx node r)) = gc_fingerprint ctx"
  "tm_Client (fst (metric_of lib gunzip inflate w modelID ctx node r)) = gc_client ctx"
proof -
  have m: "tm_Model (parseMetrics lib w modelID start usage timings) = modelID" for w start usage timings
    by (simp add: parseMetrics_def Let_def split_beta)
  have s: "tm_Model tm = modelID" if "processStreamingResponse lib w modelID start body = Some tm" for w start body tm
    using that m by (auto simp: processStreamingResponse_def split: option.splits prod.splits)
  show "tm_Model (fst (metric_of lib gunzip inflate w modelID ctx node r)) = modelID"
    using m s by (auto simp: metric_of_def attribute_def minimalMetrics_def Let_def split: option.split prod.split)
  show "tm_KeyFingerprint (fst (metric_of lib gunzip inflate w modelID ctx node r)) = gc_fingerprint ctx"
    "tm_Client (fst (metric_of lib gunzip inflate w modelID ctx node r)) = gc_client ctx"
    by (simp_all add: metric_of_def attribute_def minimalMetrics_def Let_def split: option.split)
qed

lemma front_serve:
  fixes s :: "('b, 'f) front"
  assumes "front_at E pb B l s"
  shows "front_at E pb B l (front_do E (AServe i w next) s)"
proof (cases "i < length (fs_reqs s) \<and> (\<exists>m ctx job rsv. fs_reqs s ! i = RqAdmitted m ctx job rsv)")
  case False
  then show ?thesis using assms by (auto simp: serve_step_def split: phase.split)
next
  case True
  then obtain m ctx job rsv where i: "i < length (fs_reqs s)" and a: "fs_reqs s ! i = RqAdmitted m ctx job rsv" by blast
  obtain pl ph where ph: "serve_step E w next (fs_reqs s ! i) (fs_pipe s) = (pl, ph)" by fastforce
  let ?s = "set_req i ph (s\<lparr>fs_pipe := pl\<rparr>)"
  have s: "front_do E (AServe i w next) s = ?s" using i by (simp add: ph)
  have r: "gate_ready pb l (fs_gate s)" and ok: "phase_ok E l (RqAdmitted m ctx job rsv)"
    using assms i a by (auto simp: front_at_def)
  show ?thesis
  proof (cases rsv)
    case None
    then have "\<not> m" using ok by (simp add: phase_ok_def)
    then have p: "pl = fs_pipe s" "ph = RqAnswered ctx job None None" using ph by (auto simp: serve_step_def a None)
    have "front_at E pb B l ?s"
      by (rule front_move [OF assms i a]) (use r ok in \<open>auto simp: p None set_req_def phase_ok_def phase_ctx_def held_def spent_def handle_def paid_for_def\<close>)
    then show ?thesis using s by simp
  next
    case (Some rs)
    define c where "c = \<lparr>mc_world = w, mc_model = job_model job, mc_ctx = ctx, mc_headers = job_headers job, mc_next = next\<rparr>"
    have m: "m" and md: "r_model rs = job_model job" using ok by (auto simp: phase_ok_def Some)
    obtain cap out where wr: "wrapHandler (fe_gjson E) (fe_gunzip E) (fe_inflate E) (mc_world c) (mc_model c) (mc_ctx c) (mc_next c)
        (mc_headers c) (Some freshCapture) (fs_pipe s) = (pl, Some cap, out)" and p: "ph = RqAnswered ctx job rsv (Some cap)"
      using ph wrap_capture [of "fe_gjson E" "fe_gunzip E" "fe_inflate E" w "job_model job" ctx "next" "job_headers job" freshCapture "fs_pipe s"]
      by (auto simp: serve_step_def a Some m c_def split: prod.splits)
    have pl: "pl = (case answered (fe_gjson E) (fe_gunzip E) (fe_inflate E) c of None \<Rightarrow> fs_pipe s | Some tm \<Rightarrow> addMetrics (mc_world c) tm (fs_pipe s))"
      using wrap_answered [of "fe_gjson E" "fe_gunzip E" "fe_inflate E" c "Some freshCapture" "fs_pipe s"] by (simp add: wr)
    have paid: "paid_for pb (tm\<lparr>tm_ID := n\<rparr>) ph"
      if ans: "answered (fe_gjson E) (fe_gunzip E) (fe_inflate E) c = Some tm" for tm n
    proof -
      have "tm_Model tm = job_model job" "tm_KeyFingerprint tm = gc_fingerprint ctx" "tm_Client tm = gc_client ctx"
        using ans by (auto simp: answered_def c_def metric_of_named split: sum.splits prod.splits if_splits)
      moreover have "charge pb (r_model rs) (reservedCost rs) cap = price_of pb (reservedCost rs) tm"
        using capture_charge [of pb "r_model rs" "reservedCost rs" "fe_gjson E" "fe_gunzip E" "fe_inflate E" c "fs_pipe s"] ans
        by (simp add: wr price_of_def md calculation(1))
      ultimately show ?thesis by (simp add: paid_for_def p Some md price_of_def)
    qed
    have rec: "tm \<in> set (metrics (pl_metrics (fs_pipe s))) \<or> paid_for pb tm ph" if "tm \<in> set (metrics (pl_metrics (fs_pipe ?s)))" for tm
      using that paid by (auto simp: set_req_def pl addMetrics_def Let_def dest: in_set_dropD split: option.splits if_splits)
    have "front_at E pb B l ?s"
      by (rule front_move [OF assms i a _ _ _ _ _ _ _ _ rec])
        (use r ok in \<open>auto simp: p Some set_req_def phase_ok_def phase_ctx_def held_def spent_def handle_def paid_for_def\<close>)
    then show ?thesis using s by simp
  qed
qed

lemma front_resolve:
  fixes s :: "('b, 'f) front"
  assumes "front_at E pb B l s"
  shows "\<exists>l'. front_at E pb B l' (front_do E (AResolve i) s)"
proof (cases "i < length (fs_reqs s) \<and> (\<exists>ctx job rsv cap. fs_reqs s ! i = RqAnswered ctx job rsv cap)")
  case False
  then show ?thesis using assms by (intro exI [of _ l]) (auto simp: resolve_step_def split: phase.split)
next
  case True
  then obtain ctx job rsv cap where i: "i < length (fs_reqs s)" and a: "fs_reqs s ! i = RqAnswered ctx job rsv cap" by blast
  obtain g ph where ph: "resolve_step (fs_reqs s ! i) (fs_gate s) = (g, ph)" by fastforce
  let ?s = "set_req i ph (s\<lparr>fs_gate := g\<rparr>)"
  have s: "front_do E (AResolve i) s = ?s" using i by (simp add: ph)
  have r: "gate_ready pb l (fs_gate s)" and ok: "phase_ok E l (RqAnswered ctx job rsv cap)"
    using assms i a by (auto simp: front_at_def)
  have p: "ph = RqDone (Completed ctx job rsv cap)" using ph by (auto simp: resolve_step_def a split: option.splits prod.splits)
  have known: "phase_ok E l' ph" for l' using ok by (auto simp: p phase_ok_def phase_ctx_def held_def)
  show ?thesis
  proof (cases rsv)
    case None
    then have "cap = None" "g = fs_gate s" using ok ph by (auto simp: phase_ok_def resolve_step_def a)
    then have "front_at E pb B l ?s"
      by (intro front_move [OF assms i a _ _ _ _ known]) (use r in \<open>auto simp: p None set_req_def held_def spent_def handle_def paid_for_def\<close>)
    then show ?thesis using s by auto
  next
    case (Some rs)
    then obtain c where c: "cap = Some c" using ok by (auto simp: phase_ok_def)
    obtain h where h: "inner rs = Some h" "is_open l h (gc_fingerprint ctx) (max 0 (reservedCost rs))" "r_gate rs"
      using ok by (auto simp: phase_ok_def held_def Some split: option.splits)
    have rs: "rs = \<lparr>r_gate = True, inner = Some h, r_model = r_model rs, reservedCost = reservedCost rs\<rparr>"
      using h by (cases rs) simp
    from resolve_ready [OF r h(2) rs, of c] obtain l' where
      l': "gate_ready pb l' g" "avail l' = (avail l)(gc_fingerprint ctx :=
         avail l (gc_fingerprint ctx) + max 0 (reservedCost rs) - charge pb (r_model rs) (reservedCost rs) c)"
      "\<forall>h2 k c. h2 \<noteq> h \<longrightarrow> is_open l h2 k c \<longrightarrow> is_open l' h2 k c"
      using ph by (auto simp: resolve_step_def a Some c)
    have le: "charge pb (r_model rs) (reservedCost rs) c \<le> max 0 (reservedCost rs)"
      by (auto simp: charge_def split: option.splits)
    have "front_at E pb B l' ?s"
      by (intro front_move [OF assms i a _ _ _ _ known])
        (use l' le h(1) in \<open>auto simp: p Some c set_req_def held_def spent_def handle_def paid_for_def\<close>)
    then show ?thesis using s by auto
  qed
qed

lemma front_arrive:
  assumes "front_at E pb B l s"
  shows "front_at E pb B l (front_do E (AArrive req body) s)"
proof -
  have new: "idle (RqArrived req body)" "phase_ok E l (RqArrived req body)" "handle (RqArrived req body) = None"
    by (simp_all add: idle_def phase_ok_def phase_ctx_def held_def handle_def)
  have nth: "(fs_reqs s @ [RqArrived req body]) ! j = (if j < length (fs_reqs s) then fs_reqs s ! j else RqArrived req body)"
    if "j < Suc (length (fs_reqs s))" for j using that by (auto simp: nth_append less_Suc_eq)
  show ?thesis
    using assms new by (auto simp: front_at_def nth split: if_splits)
qed

lemma front_at_run:
  assumes "front_at E pb B l s" "fe_keys E \<noteq> []" "\<forall>m p e. fe_match E m p = Some e \<longrightarrow> e \<in> set (routes @ apiRoutes)"
  shows "\<exists>l'. front_at E pb B l' (front_run E as s)"
  using assms(1)
proof (induction as arbitrary: l s)
  case (Cons a as)
  have "\<exists>l'. front_at E pb B l' (front_do E a s)"
    using front_arrive [OF Cons.prems] front_auth [OF Cons.prems assms(2,3)] front_route [OF Cons.prems]
      front_admit [OF Cons.prems] front_serve [OF Cons.prems] front_resolve [OF Cons.prems]
    by (cases a) blast+
  with Cons.IH show ?case by (auto simp: front_run_def)
qed (auto simp: front_run_def)

text \<open>
  C19. What is served is paid for: with API keys configured and a working, enforcing gate, however the steps of any
  number of requests interleave between two allowance snapshots, each key's balance is the initial one less the holds of its
  requests under way and the bills of its finished ones, and never falls below zero; every metric on record
  - the counts the usage meter and the debit log were given - belongs to a request of that key and client with a
  reservation for that model, whose charge is the price of those counts; no request gets past the door
  without a configured key, to whose label and fingerprint it is attributed; and no metered one is dispatched without a reservation.
\<close>

theorem served_is_paid:
  assumes "fe_keys E \<noteq> []" "\<forall>m p e. fe_match E m p = Some e \<longrightarrow> e \<in> set (routes @ apiRoutes)"
    and "gate_ready pb l0 g"
  shows "let s = front_run E as \<lparr>fs_limiter = rl, fs_pm = pm, fs_gate = g,
           fs_pipe = \<lparr>pl_metrics = newMetricsMonitor n, pl_usage = u, pl_emitter = em\<rparr>, fs_reqs = []\<rparr> in
     \<exists>l. g_ledger (fs_gate s) = Some l
   \<and> (\<forall>key. avail l key = avail l0 key - sum_list (map (spent pb key) (fs_reqs s)) \<and> (0 \<le> avail l0 key \<longrightarrow> 0 \<le> avail l key))
   \<and> (\<forall>tm \<in> set (metrics (pl_metrics (fs_pipe s))). \<exists>ph \<in> set (fs_reqs s). paid_for pb tm ph)
   \<and> list_all (\<lambda>ph. case phase_ctx ph of None \<Rightarrow> True | Some ctx \<Rightarrow> known_ctx E ctx) (fs_reqs s)
   \<and> list_all (\<lambda>ph. case ph of RqAdmitted True ctx job rsv \<Rightarrow> rsv \<noteq> None | _ \<Rightarrow> True) (fs_reqs s)"
proof -
  let ?s0 = "\<lparr>fs_limiter = rl, fs_pm = pm, fs_gate = g,
           fs_pipe = \<lparr>pl_metrics = newMetricsMonitor n, pl_usage = u, pl_emitter = em\<rparr>, fs_reqs = []\<rparr>"
  have "front_at E pb (avail l0) l0 ?s0"
    using assms(3) by (simp add: front_at_def newMetricsMonitor_def)
  from front_at_run [OF this assms(1,2)] obtain l where l: "front_at E pb (avail l0) l (front_run E as ?s0)" by blast
  define s where "s = front_run E as ?s0"
  note at = l [folded s_def, unfolded front_at_def]
  have ok: "phase_ok E l ph" if "ph \<in> set (fs_reqs s)" for ph
    using at that by (auto simp: in_set_conv_nth)
  have "case phase_ctx ph of None \<Rightarrow> True | Some ctx \<Rightarrow> known_ctx E ctx"
    "case ph of RqAdmitted True ctx job rsv \<Rightarrow> rsv \<noteq> None | _ \<Rightarrow> True" if "ph \<in> set (fs_reqs s)" for ph
    using ok [OF that] by (simp_all add: phase_ok_def) (cases ph, auto split: bool.split option.splits)
  moreover have "g_ledger (fs_gate s) = Some l" using at by (simp add: gate_ready_def)
  ultimately show ?thesis
    using at unfolding s_def [symmetric] Let_def list_all_iff by blast
qed


text \<open>Two requests, one of them with a wrong key; the other asks a local model.\<close>

definition sample_env :: "((string \<times> any) list, any, int) frontEnv" where
  "sample_env = \<lparr>fe_json = alist_json, fe_itoa = (\<lambda>_. []), fe_sha = (\<lambda>k. k), fe_view = (\<lambda>_. \<lparr>bv_messages = None, bv_prompt = []\<rparr>), fe_monitor = True,
     fe_gjson = sample_gjson, fe_gunzip = Some, fe_inflate = Some, fe_keys = [''sk-1''], fe_labels = Map.empty,
     fe_match = sample_match\<rparr>"

lemma sample_route:
  "\<exists>pm'. route_inference alist_json w [(''model'', VStr ''b'')] sample_manager
     = (pm', Inr (NextLocal ''g'', ''b'', [(''model'', VStr ''b'')])) \<and> pm_peers pm' = None"
proof -
  have models: "Models swap_config = [(''a'', race_model), (''b'', race_model)]"
    by (simp add: swap_config_def sample_config_def)
  have real: "RealModelName swap_config ''b'' = Some ''b''" by (simp add: RealModelName_def models)
  have grp: "map_option pg_id (findGroupByModelName (newGroups (\<lambda>_. True) swap_config) ''b'') = Some ''g''"
    by (simp add: findGroupByModelName_def newGroups_def List.map_filter_def swap_config_def sample_config_def
        NewProcessGroup_def HasMember_def)
  show ?thesis
    using grp by (auto simp: route_inference_def alist_json_def sample_manager_def route_by_name_def real route_local_def model_config_def
        models race_model_def modelDefaults_def apply_filters_def SanitizedStripParams_def SanitizedSetParams_def Let_def
        swapProcessGroup_def split: option.splits)
qed

definition sample_acts :: "(string \<times> any) list front_act list" where
  "sample_acts = [AArrive (sample_req ''POST'' ''/infill'' ''sk-1'') [(''model'', VStr ''b'')],
     AArrive (sample_req ''POST'' ''/infill'' ''sk-2'') [(''model'', VStr ''b'')], AAuth 0 0, AAuth 1 0,
     ARoute 0 \<lparr>p_now = 0, p_answer = (\<lambda>_. None)\<rparr>, AAdmit 0, AServe 0 (mc_world Metrics_Monitor.sample_call) (mc_next Metrics_Monitor.sample_call), AResolve 0]"

definition sample_gate :: creditGate where
  "sample_gate = newCreditGate True (Some (ledger_run newCreditLedger [OSetAllowance ''736b2d31'' 50 0 1]))
     (Some [''b'' \<mapsto> \<lparr>InputPer1k = 1000, OutputPer1k = 2000, MaxOutputTokens = 10\<rparr>])"

lemma sample_auth:
  "\<exists>req ctx. auth_step sample_env 0 (RqArrived (sample_req ''POST'' ''/infill'' ''sk-1'') b) (newRateLimiter 0 Map.empty)
       = (newRateLimiter 0 Map.empty, RqAuth req ctx b)
     \<and> rq_method req = ''POST'' \<and> rq_path req = ''/infill'' \<and> gc_fingerprint ctx = ''736b2d31''"
  "auth_step sample_env 0 (RqArrived (sample_req ''POST'' ''/infill'' ''sk-2'') b) rl = (rl, RqDone (Stopped 401))"
proof -
  have m: "sample_match ''POST'' ''/infill'' = Some (''POST'', ''/infill'', True, ProxyInference)"
    by (simp add: sample_match_def routes_def)
  have k: "providedKey (rq_headers (sample_req ''POST'' ''/infill'' key)) = key" for key
    by (simp add: sample_req_def providedKey_def GetHeader_def basicKey_def bearerKey_def Let_def HasPrefix_def)
  have f: "keyFingerprint (\<lambda>k. k) ''sk-1'' = ''736b2d31''" by code_simp
  have r: "rq_method (sample_req a p key) = a" "rq_path (sample_req a p key) = p" for a p key by (simp_all add: sample_req_def)
  show "\<exists>req ctx. auth_step sample_env 0 (RqArrived (sample_req ''POST'' ''/infill'' ''sk-1'') b) (newRateLimiter 0 Map.empty)
       = (newRateLimiter 0 Map.empty, RqAuth req ctx b)
     \<and> rq_method req = ''POST'' \<and> rq_path req = ''/infill'' \<and> gc_fingerprint ctx = ''736b2d31''"
    by (simp add: auth_step_def sample_env_def gin_serve_def m r k apiKeyAuth_def Let_def auth_ctx_def f rl_enabled_def newRateLimiter_def)
  show "auth_step sample_env 0 (RqArrived (sample_req ''POST'' ''/infill'' ''sk-2'') b) rl = (rl, RqDone (Stopped 401))"
    by (simp add: auth_step_def sample_env_def gin_serve_def m r k apiKeyAuth_def)
qed

lemma sample_admit:
  assumes "job_model job = ''b''" "job_body job = [(''model'', VStr ''b'')]" "gc_fingerprint ctx = ''736b2d31''"
    and "rq_method req = ''POST''" "rq_path req = ''/infill''"
  shows "\<exists>g h. admit_step sample_env (RqRouted req ctx job) sample_gate = (g, RqAdmitted True ctx job
      (Some \<lparr>r_gate = True, inner = Some h, r_model = ''b'', reservedCost = 25\<rparr>))"
proof -
  let ?l = "ledger_run newCreditLedger [OSetAllowance ''736b2d31'' 50 0 1]"
  let ?pb = "[''b'' \<mapsto> \<lparr>InputPer1k = 1000, OutputPer1k = 2000, MaxOutputTokens = 10\<rparr>]"
  have c: "ReserveCost ?pb ''b'' 5 0 = Some 25" by code_simp
  have g: "enforce sample_gate" "prices sample_gate = Some ?pb" "g_ledger sample_gate = Some ?l" "\<not> g_broken sample_gate"
    by (simp_all add: sample_gate_def newCreditGate_def)
  have "avail ?l ''736b2d31'' = 50" by code_simp
  then have "max 0 25 \<le> avail ?l ''736b2d31''" by simp
  note a = guardedAdmit_admit [OF admit_cases(2) [OF g c Reserve_grant(1) [OF this]]]
  have up: "creditPromptUpperBound (jl_bytes alist_json [(''model'', VStr ''b'')]) (jl_Raw alist_json ''messages'' [(''model'', VStr ''b'')])
      (jl_Raw alist_json ''prompt'' [(''model'', VStr ''b'')]) = 5"
    "creditRequestedMax (jl_Int alist_json ''max_tokens'' [(''model'', VStr ''b'')])
      (jl_Int alist_json ''max_completion_tokens'' [(''model'', VStr ''b'')]) = 0"
    by (simp_all add: alist_json_def creditPromptUpperBound_def creditRequestedMax_def)
  have m: "metered True req" using assms(4,5) by (simp add: metered_def shouldCollectMetrics_def HasPrefix_def)
  have e: "enforcing (Some sample_gate)" using g(1) by (simp add: enforcing_def)
  show ?thesis
    using assms(1-3) by (simp add: admit_step_def Let_def sample_env_def m e up a served_def)
qed

lemma sample_serve:
  assumes "job_model job = ''b''" "r_model rs = ''b''" "reservedCost rs = 25"
  shows "\<exists>pl' cap. serve_step sample_env (mc_world Metrics_Monitor.sample_call) (mc_next Metrics_Monitor.sample_call)
      (RqAdmitted True ctx job (Some rs)) pl = (pl', RqAnswered ctx job (Some rs) (Some cap))
    \<and> charge [''b'' \<mapsto> \<lparr>InputPer1k = 1000, OutputPer1k = 2000, MaxOutputTokens = 10\<rparr>] ''b'' 25 cap = 14"
proof -
  have c: "ActualCost [''b'' \<mapsto> \<lparr>InputPer1k = 1000, OutputPer1k = 2000, MaxOutputTokens = 10\<rparr>] ''b'' 6 4 = Some 14" by code_simp
  show ?thesis
    by (simp add: serve_step_def sample_env_def wrapHandler_def Metrics_Monitor.sample_call_def setCreditCaptureStatus_def
        setCreditCaptureTokens_def freshCapture_def metric_of_def Let_def usage_of_def sample_gjson_def any_gjson_def parseMetrics_def
        attribute_def HasPrefix_def charge_def c)
qed

theorem served_is_paid_witness:
  "let s = front_run sample_env sample_acts \<lparr>fs_limiter = newRateLimiter 0 Map.empty, fs_pm = sample_manager, fs_gate = sample_gate,
       fs_pipe = \<lparr>pl_metrics = newMetricsMonitor 5,
         pl_usage = NewUsageMeter (\<lambda>_. None) \<lparr>uf_main = None, uf_tmp = None\<rparr> [], pl_emitter = None\<rparr>, fs_reqs = []\<rparr> in
   (\<exists>l. g_ledger (fs_gate s) = Some l \<and> avail l ''736b2d31'' = 50 - 14)
   \<and> (\<exists>ctx job r cap. fs_reqs s = [RqDone (Completed ctx job r cap), RqDone (Stopped 401)])"
proof -
  let ?pl = "\<lparr>pl_metrics = newMetricsMonitor 5,
      pl_usage = NewUsageMeter (\<lambda>_. None) \<lparr>uf_main = None, uf_tmp = None\<rparr> [], pl_emitter = None\<rparr> :: int pipeline"
  let ?s0 = "\<lparr>fs_limiter = newRateLimiter 0 Map.empty, fs_pm = sample_manager, fs_gate = sample_gate, fs_pipe = ?pl, fs_reqs = []\<rparr>"
  let ?b = "[(''model'', VStr ''b'')]"
  let ?l = "ledger_run newCreditLedger [OSetAllowance ''736b2d31'' 50 0 1]"
  let ?pb = "[''b'' \<mapsto> \<lparr>InputPer1k = 1000, OutputPer1k = 2000, MaxOutputTokens = 10\<rparr>]"
  obtain req ctx where au: "auth_step sample_env 0 (RqArrived (sample_req ''POST'' ''/infill'' ''sk-1'') ?b) (newRateLimiter 0 Map.empty)
      = (newRateLimiter 0 Map.empty, RqAuth req ctx ?b)"
    and rq: "rq_method req = ''POST''" "rq_path req = ''/infill''" "gc_fingerprint ctx = ''736b2d31''"
    using sample_auth(1) by blast
  obtain pm job where ro: "route_step sample_env \<lparr>p_now = 0, p_answer = (\<lambda>_. None)\<rparr> (RqAuth req ctx ?b) sample_manager
      = (pm, RqRouted req ctx job)" and jb: "job_model job = ''b''" "job_body job = ?b"
    using sample_route [of "\<lparr>p_now = 0, p_answer = (\<lambda>_. None)\<rparr>"]
    by (auto simp: route_step_def sample_env_def prepare_job_def Let_def)
  obtain g h where ad: "admit_step sample_env (RqRouted req ctx job) sample_gate = (g, RqAdmitted True ctx job
      (Some \<lparr>r_gate = True, inner = Some h, r_model = ''b'', reservedCost = 25\<rparr>))"
    using sample_admit [OF jb rq(3,1,2)] by blast
  let ?r = "\<lparr>r_gate = True, inner = Some h, r_model = ''b'', reservedCost = 25\<rparr>"
  obtain pl cap where se: "serve_step sample_env (mc_world Metrics_Monitor.sample_call) (mc_next Metrics_Monitor.sample_call)
      (RqAdmitted True ctx job (Some ?r)) ?pl = (pl, RqAnswered ctx job (Some ?r) (Some cap))" and ch: "charge ?pb ''b'' 25 cap = 14"
    using sample_serve [OF jb(1), of ?r ctx ?pl] by auto
  obtain g' where re: "resolve_step (RqAnswered ctx job (Some ?r) (Some cap)) g = (g', RqDone (Completed ctx job (Some ?r) (Some cap)))"
    by (simp add: resolve_step_def split_beta)
  have reqs: "fs_reqs (front_run sample_env sample_acts ?s0) = [RqDone (Completed ctx job (Some ?r) (Some cap)), RqDone (Stopped 401)]"
    by (simp add: front_run_def sample_acts_def set_req_def au sample_auth(2) ro ad se re)
  have match: "\<forall>m p e. sample_match m p = Some e \<longrightarrow> e \<in> set (routes @ apiRoutes)"
    by (metis sample_match_def find_Some_iff nth_mem)
  have keys: "fe_keys sample_env \<noteq> []" "\<forall>m p e. fe_match sample_env m p = Some e \<longrightarrow> e \<in> set (routes @ apiRoutes)"
    using match by (simp_all add: sample_env_def)
  have ready: "gate_ready ?pb ?l sample_gate" by (simp add: gate_ready_def sample_gate_def newCreditGate_def)
  have sp: "spent ?pb ''736b2d31'' (RqDone (Completed ctx job (Some ?r) (Some cap))) = 14" "spent ?pb k (RqDone (Stopped 401)) = 0" for k
    using ch rq(3) by (simp_all add: spent_def held_def)
  have a: "avail ?l ''736b2d31'' = 50" by code_simp
  from served_is_paid [OF keys ready, of sample_acts "newRateLimiter 0 Map.empty" sample_manager 5
        "NewUsageMeter (\<lambda>_. None) \<lparr>uf_main = None, uf_tmp = None\<rparr> []" None, unfolded Let_def reqs]
  obtain l where l: "g_ledger (fs_gate (front_run sample_env sample_acts ?s0)) = Some l"
    "avail l ''736b2d31'' = avail ?l ''736b2d31'' - sum_list (map (spent ?pb ''736b2d31'')
       [RqDone (Completed ctx job (Some ?r) (Some cap)), RqDone (Stopped 401)])" by blast
  have "avail l ''736b2d31'' = 50 - 14" using l(2) sp unfolding a by simp
  with l(1) reqs show ?thesis unfolding Let_def by blast
qed

end
