(* ===== verification/Event_Types.thy ===== *)
theory Event_Types
  imports Metrics_Monitor Process_Lifecycle Event_Dispatcher
begin

section \<open>The events and the default dispatcher (proxy/events.go, event/default.go)\<close>

text \<open>
  The events the components publish, their type numbers, and the package's default dispatcher with its typed
  operations \<open>On\<close>, \<open>OnType\<close> and \<open>Emit\<close>. The dispatcher itself is untyped: a group is found by
  number and its Go type is checked at run time, with a panic when it does not fit. Here it is shown that the program's
  events cannot run into that panic, and that a handler subscribed with \<open>On\<close> is called with events of its own type only.
\<close>

datatype ReloadingState = ReloadingStateStart | ReloadingStateEnd

datatype 'f event =
    ProcessStateChange (pse_name: string) (pse_new: ProcessState) (pse_old: ProcessState)
  | ChatCompletionStats (ccs_tokens: int)
  | ConfigFileChanged (cfc_state: ReloadingState)
  | LogData (ld_data: string)
  | TokenMetricsOf (tme_metrics: "'f TokenMetrics")
  | ModelPreloaded (mpe_name: string) (mpe_success: bool)

text \<open>The Go types, and the number \<open>Type\<close> returns for each whatever the value.\<close>

datatype eventKind =
    ProcessStateChangeEvent | ChatCompletionStatsEvent | ConfigFileChangedEvent | LogDataEvent | TokenMetricsEvent
  | ModelPreloadedEvent

fun kind_of :: "'f event \<Rightarrow> eventKind" where
  "kind_of (ProcessStateChange _ _ _) = ProcessStateChangeEvent"
| "kind_of (ChatCompletionStats _) = ChatCompletionStatsEvent"
| "kind_of (ConfigFileChanged _) = ConfigFileChangedEvent"
| "kind_of (LogData _) = LogDataEvent"
| "kind_of (TokenMetricsOf _) = TokenMetricsEvent"
| "kind_of (ModelPreloaded _ _) = ModelPreloadedEvent"

fun kind_type :: "eventKind \<Rightarrow> nat" where
  "kind_type ProcessStateChangeEvent = 1"
| "kind_type ChatCompletionStatsEvent = 2"
| "kind_type ConfigFileChangedEvent = 3"
| "kind_type LogDataEvent = 4"
| "kind_type TokenMetricsEvent = 5"
| "kind_type ModelPreloadedEvent = 6"

fun kind_name :: "eventKind \<Rightarrow> string" where
  "kind_name ProcessStateChangeEvent = ''ProcessStateChangeEvent''"
| "kind_name ChatCompletionStatsEvent = ''ChatCompletionStats''"
| "kind_name ConfigFileChangedEvent = ''ConfigFileChangedEvent''"
| "kind_name LogDataEvent = ''LogDataEvent''"
| "kind_name TokenMetricsEvent = ''TokenMetricsEvent''"
| "kind_name ModelPreloadedEvent = ''ModelPreloadedEvent''"

definition Type :: "'f event \<Rightarrow> nat" where
  "Type e = kind_type (kind_of e)"

subsection \<open>The default dispatcher\<close>

definition DefaultDispatcher :: "'f event Dispatcher" where
  "DefaultDispatcher = NewDispatcherConfig 25000"

definition OnType :: "nat \<Rightarrow> eventKind \<Rightarrow> 'f event Dispatcher \<Rightarrow> ('f event Dispatcher \<times> nat \<times> nat) option" where
  "OnType eventType k d = SubscribeTo d (kind_name k) eventType"

text \<open>\<open>Subscribe\<close> takes the type of the zero value.\<close>

definition On :: "eventKind \<Rightarrow> 'f event Dispatcher \<Rightarrow> ('f event Dispatcher \<times> nat \<times> nat) option" where
  "On k d = OnType (kind_type k) k d"

definition Emit_event :: "'f event \<Rightarrow> 'f event Dispatcher \<Rightarrow> 'f event published" where
  "Emit_event e d = Publish d (kind_name (kind_of e)) (Type e) e"

text \<open>What the components do with it: subscribe, publish, cancel, and the listeners' steps; nothing closes it.\<close>

datatype 'f eop = EOn eventKind | EEmit "'f event" | ECancel nat | ESwap nat | EHandle nat

fun estep :: "'f event dstate \<Rightarrow> 'f eop \<Rightarrow> 'f event dstate" where
  "estep (d, hs) (EOn k) = (case On k d of None \<Rightarrow> (d, hs) | Some (d', g, sub) \<Rightarrow> (d', hs @ [(g, sub)]))"
| "estep (d, hs) (EEmit e) = (case Emit_event e d of Done d' \<Rightarrow> (d', hs) | _ \<Rightarrow> (d, hs))"
| "estep (d, hs) (ECancel i) = (if i < length hs then (Del d (fst (hs ! i)) (snd (hs ! i)), hs) else (d, hs))"
| "estep (d, hs) (ESwap c) = (listen Listen_swap d c, hs)"
| "estep (d, hs) (EHandle c) = (listen Listen_handle d c, hs)"

fun erun :: "'f event dstate \<Rightarrow> 'f eop list \<Rightarrow> 'f event dstate" where
  "erun s [] = s"
| "erun s (x # xs) = erun (estep s x) xs"

text \<open>The same run as one of the dispatcher.\<close>

fun to_dop :: "'f eop \<Rightarrow> 'f event dop" where
  "to_dop (EOn k) = DSub (kind_name k) (kind_type k)"
| "to_dop (EEmit e) = DPub (kind_name (kind_of e)) (Type e) e"
| "to_dop (ECancel i) = DCancel i"
| "to_dop (ESwap c) = DSwap c"
| "to_dop (EHandle c) = DHandle c"

lemma estep_dstep: "estep s x = dstep s (to_dop x)"
  by (cases s; cases x) (simp_all add: On_def OnType_def Emit_event_def)

lemma erun_drun: "erun s ops = drun s (map to_dop ops)"
  by (induction ops arbitrary: s) (simp_all add: estep_dstep)

subsection \<open>Typed delivery\<close>

lemma kind_type_inj: "kind_type k = kind_type k' \<longleftrightarrow> k = k'"
  by (cases k; cases k') simp_all

text \<open>A group under a number has the Go type of that number, and the dispatcher is open.\<close>

definition typed :: "'f event Dispatcher \<Rightarrow> bool" where
  "typed d \<longleftrightarrow> \<not> closed d \<and> (\<forall>x g. findGroup d x = Some g \<longrightarrow> (\<exists>k. x = kind_type k \<and> tag (groups d ! g) = kind_name k))"

lemma tag_update: "tag v = tag (gs ! i) \<Longrightarrow> tag (gs[i := v] ! j) = tag (gs ! j)"
  by (cases "i < length gs"; cases "i = j") (auto simp: list_update_beyond)

lemma typed_tag: "typed d \<Longrightarrow> findGroup d (kind_type k) = Some g \<Longrightarrow> tag (groups d ! g) = kind_name k"
  unfolding typed_def kind_type_inj [symmetric] by (metis kind_type_inj)

lemma typed_subscribes: "typed d \<Longrightarrow> On k d \<noteq> None"
  using typed_tag [of d k]
  by (auto simp: On_def OnType_def SubscribeTo_def typed_def Let_def split: option.splits prod.splits)

lemma typed_publishes: "typed d \<Longrightarrow> Emit_event e d \<noteq> Panics"
  using typed_tag [of d "kind_of e"]
  by (auto simp: Emit_event_def Type_def Publish_def split: option.splits)

text \<open>The registry's types and their groups' Go types, after each operation.\<close>

definition typing :: "'f event Dispatcher \<Rightarrow> nat \<Rightarrow> string option" where
  "typing d x = map_option (\<lambda>g. tag (groups d ! g)) (findGroup d x)"

lemma typed_typing: "typed d \<longleftrightarrow> \<not> closed d \<and> (\<forall>x t. typing d x = Some t \<longrightarrow> (\<exists>k. x = kind_type k \<and> t = kind_name k))"
  by (fastforce simp: typed_def typing_def)

lemma typing_Add: "Add d g = (d', sub) \<Longrightarrow> typing d' = typing d \<and> closed d' = closed d"
  by (auto simp: typing_def fun_eq_iff Add_def Let_def findGroup_def tag_update split: option.splits)

lemma typing_Subscribe:
  assumes "disp_ok (d, hs)" "SubscribeTo d ty key = Some (d', g, sub)" "typing d key \<in> {None, Some ty}"
  shows "typing d' = (typing d)(key \<mapsto> ty) \<and> closed d' = closed d"
proof (cases "findGroup d key")
  case (Some g')
  then have "Add d g' = (d', sub)" using assms(2) by (auto simp: SubscribeTo_def split: if_splits prod.splits)
  from typing_Add [OF this] show ?thesis using assms(3) Some by (auto simp: typing_def fun_eq_iff)
next
  case None
  note o = disp_okD [OF assms(1)]
  have "\<not> closed d" using assms(2) by (auto simp: SubscribeTo_def)
  from Subscribe_new [OF this None] assms(2)
  have a: "Add (Event_Dispatcher.extend d ty key) (length (groups d)) = (d', sub)" by (auto split: prod.splits)
  have t: "tag (groups (Event_Dispatcher.extend d ty key) ! g) = (if g < length (groups d) then tag (groups d ! g) else ty)"
    if "g \<le> length (groups d)" for g
    using that by (simp add: Event_Dispatcher.extend_def Let_def nth_append)
  have "typing (Event_Dispatcher.extend d ty key) x = ((typing d)(key \<mapsto> ty)) x" for x
    using findGroup_index [OF o(1), of x]
    by (cases "findGroup d x") (simp_all add: typing_def Event_Dispatcher.extend_ok(2) [OF o(1) None] t less_imp_le)
  then have "typing (Event_Dispatcher.extend d ty key) = (typing d)(key \<mapsto> ty) \<and> closed (Event_Dispatcher.extend d ty key) = closed d"
    by (auto simp: fun_eq_iff Event_Dispatcher.extend_def Let_def)
  with typing_Add [OF a] show ?thesis by simp
qed

lemma typing_Publish: "Publish d ty key ev = Done d' \<Longrightarrow> typing d' = typing d \<and> closed d' = closed d"
  by (auto simp: typing_def fun_eq_iff Publish_def Broadcast_def Let_def findGroup_def tag_update split: option.splits if_splits)

lemma typing_Del: "typing (Del d g sub) = typing d \<and> closed (Del d g sub) = closed d"
  by (auto simp: typing_def fun_eq_iff Del_def Let_def findGroup_def tag_update split: option.splits)

lemma typing_listen: "typing (listen f d c) = typing d \<and> closed (listen f d c) = closed d"
  by (auto simp: typing_def fun_eq_iff listen_def findGroup_def Let_def)

lemma typed_step:
  assumes "disp_ok (d, hs)" "typed d"
  shows "typed (fst (estep (d, hs) op))"
proof (cases op)
  case (EOn k)
  obtain d' g sub where s: "SubscribeTo d (kind_name k) (kind_type k) = Some (d', g, sub)"
    using typed_subscribes [OF assms(2), of k] by (auto simp: On_def OnType_def)
  have "typing d (kind_type k) \<in> {None, Some (kind_name k)}"
    using typed_tag [OF assms(2), of k] by (auto simp: typing_def split: option.splits)
  from typing_Subscribe [OF assms(1) s this] assms(2) s show ?thesis
    by (auto simp: EOn On_def OnType_def typed_typing)
next
  case (EEmit e)
  then show ?thesis
    using assms(2) typing_Publish [of d "kind_name (kind_of e)" "Type e" e]
    by (auto simp: Emit_event_def typed_typing split: published.split)
qed (use assms(2) in \<open>simp_all add: typed_typing typing_Del typing_listen\<close>)

text \<open>What each consumer was subscribed to, in the order of the subscriptions.\<close>

definition kinds :: "'f eop list \<Rightarrow> eventKind list" where
  "kinds ops = concat (map (\<lambda>op. case op of EOn k \<Rightarrow> [k] | _ \<Rightarrow> []) ops)"

definition hub_typed :: "eventKind list \<Rightarrow> 'f event hub \<Rightarrow> bool" where
  "hub_typed ks h \<longleftrightarrow> hub.size h = length ks
     \<and> (\<forall>x. \<forall>c \<in> set (members h x). c < length ks \<and> x = kind_type (ks ! c))
     \<and> (\<forall>c < length ks. \<forall>e \<in> set (inbox h c). kind_of e = ks ! c)"

lemma hub_typed_subscribe: "hub_typed ks h \<Longrightarrow> hub_typed (ks @ [k]) (hub_subscribe h (kind_type k))"
  by (auto simp: hub_typed_def hub_subscribe_def nth_append less_Suc_eq split: if_splits)

lemma hub_typed_publish:
  assumes "hub_typed ks h"
  shows "hub_typed ks (hub_publish h (Type e) e)"
proof -
  have "kind_of e = ks ! c" if "c \<in> set (members h (Type e))" for c
    using assms that unfolding hub_typed_def Type_def by (metis kind_type_inj)
  with assms show ?thesis by (auto simp: hub_typed_def hub_publish_def)
qed

lemma hub_typed_cancel: "hub_typed ks h \<Longrightarrow> hub_typed ks (hub_cancel h c)"
  using set_remove1_subset [of c] by (fastforce simp: hub_typed_def hub_cancel_def)

lemma typed_estep:
  assumes "disp_ok s" "typed (fst s)" "hub_typed ks (hub_of (fst s))"
  shows "disp_ok (estep s op) \<and> typed (fst (estep s op)) \<and> hub_typed (ks @ kinds [op]) (hub_of (fst (estep s op)))"
proof -
  obtain d hs where s: "s = (d, hs)" by force
  have sim: "disp_ok (estep s op)" "hub_of (fst (estep s op)) = hstep s (hub_of (fst s)) (to_dop op)"
    using dstep_sim [OF assms(1)] by (simp_all add: estep_dstep)
  have sub: "(SubscribeTo d (kind_name k) (kind_type k) = None) = False" for k
    using typed_subscribes [of d k] assms(2) by (simp add: s On_def OnType_def del: not_None_eq)
  have "hub_typed (ks @ kinds [op]) (hstep s (hub_of (fst s)) (to_dop op))"
    using assms(3) hub_typed_subscribe hub_typed_publish hub_typed_cancel
    by (cases op) (auto simp: s kinds_def sub simp del: not_None_eq split: published.split)
  with sim typed_step [of d hs op] assms show ?thesis by (simp add: s)
qed

lemma typed_erun:
  assumes "disp_ok s" "typed (fst s)" "hub_typed ks (hub_of (fst s))"
  shows "disp_ok (erun s ops) \<and> typed (fst (erun s ops)) \<and> hub_typed (ks @ kinds ops) (hub_of (fst (erun s ops)))"
  using assms
proof (induction ops arbitrary: s ks)
  case (Cons op ops)
  have "kinds (op # ops) = kinds [op] @ kinds ops" by (simp add: kinds_def)
  with Cons.IH [of "estep s op" "ks @ kinds [op]"] typed_estep [OF Cons.prems, of op] show ?case by simp
qed (simp add: kinds_def)

lemma default_typed: "disp_ok (DefaultDispatcher, [])" "typed DefaultDispatcher" "hub_typed [] (hub_of DefaultDispatcher)"
proof -
  show "disp_ok (DefaultDispatcher, [])"
    using fresh_ok(1) [of 25000] by (simp add: fresh_def DefaultDispatcher_def)
  show "hub_typed [] (hub_of DefaultDispatcher)"
    by (simp add: DefaultDispatcher_def hub_typed_def fresh_ok(2) [unfolded fresh_def fst_conv] emptyHub_def)
  show "typed DefaultDispatcher"
    by (simp add: typed_def DefaultDispatcher_def NewDispatcherConfig_def findGroup_def Let_def bsearch.simps)
qed

text \<open>
  Typed delivery: however the components subscribe with \<open>On\<close>, publish with \<open>Emit\<close>, cancel, and are
  listened to, no subscription and no publication panics, the consumers are the subscriptions in order, and every event a
  consumer's handler has been called with - or will be, being queued - is of the type it was subscribed to.
\<close>

theorem events_typed:
  "let d = fst (erun (DefaultDispatcher, []) ops) in
     length (consumers d) = length (kinds ops)
   \<and> (\<forall>c < length (kinds ops). \<forall>e \<in> set (sent (consumers d ! c)). kind_of e = kinds ops ! c)
   \<and> (\<forall>k. On k d \<noteq> None) \<and> (\<forall>e. Emit_event e d \<noteq> Panics)"
proof -
  define d where "d = fst (erun (DefaultDispatcher, []) ops)"
  have "typed d" "hub_typed (kinds ops) (hub_of d)"
    using typed_erun [OF default_typed(1), of "[]" ops] by (simp_all add: d_def default_typed)
  then show ?thesis
    unfolding d_def [symmetric] Let_def
    using typed_subscribes [of d] typed_publishes [of d] by (auto simp: hub_typed_def hub_of_simps)
qed

text \<open>
  The check \<open>OnType\<close> leaves to the run time: a type number that is in use for another Go type panics.
\<close>

lemma foreign_type_panics:
  "OnType 4 TokenMetricsEvent (fst (erun (DefaultDispatcher, []) [EOn LogDataEvent])) = None"
  by (simp add: On_def OnType_def SubscribeTo_def Add_def DefaultDispatcher_def NewDispatcherConfig_def findGroup_def bsearch.simps Let_def)

end
