(* ===== verification/Request_Context.thy ===== *)
theory Request_Context
  imports Metrics_Monitor Inference_Routing
begin

section \<open>Attribution through the request's context (proxy/usage_meter.go, proxy/proxymanager.go)\<close>

text \<open>
  A handler attaches values to the request's context: who is asking, for the metrics, and a pointer to a string
  that the peer dispatch fills with the node that serves, for the cost of goods. A context is a map from names to values of
  several types, the strings pointed to are a list of cells, and a pointer is an index. It is shown that the metrics read back what the key check
  found and the node the request's own dispatch named last, whatever other requests do; the other components are modelled with
  these values passed directly.
\<close>

datatype ctxVal = CtxString string | CtxBool bool | CtxCell nat | CtxCapture nat

type_synonym reqContext = "string \<rightharpoonup> ctxVal"

subsection \<open>Reading\<close>

text \<open>\<open>None\<close> is the nil request.\<close>

definition ctxStr :: "reqContext option \<Rightarrow> string \<Rightarrow> string" where
  "ctxStr r key =
     (case r of
        None \<Rightarrow> []
      | Some ctx \<Rightarrow> (case ctx key of Some (CtxString v) \<Rightarrow> v | _ \<Rightarrow> []))"

definition clientFromContext :: "reqContext option \<Rightarrow> string" where
  "clientFromContext r = ctxStr r ''client''"

definition countryFromContext :: "reqContext option \<Rightarrow> string" where
  "countryFromContext r = ctxStr r ''country''"

definition ipFromContext :: "reqContext option \<Rightarrow> string" where
  "ipFromContext r = ctxStr r ''ip''"

definition keyFingerprintFromContext :: "reqContext option \<Rightarrow> string" where
  "keyFingerprintFromContext r = ctxStr r ''key_fingerprint''"

definition servedCell :: "reqContext option \<Rightarrow> nat option" where
  "servedCell r = (case r of None \<Rightarrow> None | Some ctx \<Rightarrow> (case ctx ''servedBy'' of Some (CtxCell p) \<Rightarrow> Some p | _ \<Rightarrow> None))"

definition nodeFromContext :: "reqContext option \<Rightarrow> string list \<Rightarrow> string" where
  "nodeFromContext r cells = (case servedCell r of None \<Rightarrow> [] | Some p \<Rightarrow> cells ! p)"

definition setServedBy :: "reqContext option \<Rightarrow> string \<Rightarrow> string list \<Rightarrow> string list" where
  "setServedBy r node cells = (case servedCell r of None \<Rightarrow> cells | Some p \<Rightarrow> cells[p := node])"

text \<open>The credit gate's capture slot: a pointer that only an enforcing gate installs.\<close>

definition contextWithCreditCapture :: "reqContext \<Rightarrow> nat \<Rightarrow> reqContext" where
  "contextWithCreditCapture ctx cap = ctx(''creditCapture'' \<mapsto> CtxCapture cap)"

definition creditCaptureFromContext :: "reqContext option \<Rightarrow> nat option" where
  "creditCaptureFromContext r =
     (case r of None \<Rightarrow> None | Some ctx \<Rightarrow> (case ctx ''creditCapture'' of Some (CtxCapture c) \<Rightarrow> Some c | _ \<Rightarrow> None))"

lemma capture_installed:
  "creditCaptureFromContext (Some (contextWithCreditCapture ctx cap)) = Some cap"
  "ctxStr (Some (contextWithCreditCapture ctx cap)) key = (if key = ''creditCapture'' then [] else ctxStr (Some ctx) key)"
  "servedCell (Some (contextWithCreditCapture ctx cap)) = servedCell (Some ctx)"
  by (simp_all add: creditCaptureFromContext_def contextWithCreditCapture_def ctxStr_def servedCell_def)

subsection \<open>Writing\<close>

text \<open>The inference handler's chain of \<open>context.WithValue\<close>: the last of a name wins; the new cell is the empty string.\<close>

definition inferenceContext :: "reqContext \<Rightarrow> bool \<Rightarrow> string \<Rightarrow> ginCtx \<Rightarrow> string option \<Rightarrow> string list \<Rightarrow> reqContext \<times> string list" where
  "inferenceContext ctx isStreaming modelID c aff cells =
     (let servedBy = length cells;
          ctx = ctx(''streaming'' \<mapsto> CtxBool isStreaming, ''model'' \<mapsto> CtxString modelID,
                    ''client'' \<mapsto> CtxString (gc_client c), ''country'' \<mapsto> CtxString (gc_country c),
                    ''ip'' \<mapsto> CtxString (gc_ip c), ''key_fingerprint'' \<mapsto> CtxString (gc_fingerprint c),
                    ''servedBy'' \<mapsto> CtxCell servedBy)
      in (case aff of None \<Rightarrow> ctx | Some key \<Rightarrow> ctx(''affinity'' \<mapsto> CtxString key), cells @ [[]]))"

text \<open>Requests under way: one arrives, or the dispatch of the \<open>i\<close>-th names the node it goes to.\<close>

datatype ctx_op = CtxArrive bool string ginCtx "string option" | CtxServe nat string

type_synonym ctx_state = "(reqContext \<times> ginCtx) list \<times> string list"

fun ctx_step :: "ctx_op \<Rightarrow> ctx_state \<Rightarrow> ctx_state" where
  "ctx_step (CtxArrive isStreaming modelID c aff) (rs, cells) =
     (case inferenceContext Map.empty isStreaming modelID c aff cells of (ctx, cells) \<Rightarrow> (rs @ [(ctx, c)], cells))"
| "ctx_step (CtxServe i node) (rs, cells) =
     (if i < length rs then (rs, setServedBy (Some (fst (rs ! i))) node cells) else (rs, cells))"

definition ctx_run :: "ctx_op list \<Rightarrow> ctx_state" where
  "ctx_run ops = fold ctx_step ops ([], [])"

text \<open>The node request \<open>i\<close> was last sent to: the last that was named once it was there.\<close>

fun served_last :: "ctx_op list \<Rightarrow> nat \<Rightarrow> nat \<Rightarrow> string \<Rightarrow> string" where
  "served_last [] n i node = node"
| "served_last (CtxArrive s m c a # ops) n i node = served_last ops (Suc n) i node"
| "served_last (CtxServe j nd # ops) n i node = served_last ops n i (if j = i \<and> i < n then nd else node)"

lemma inference_reads:
  assumes "inferenceContext ctx isStreaming modelID c aff cells = (ctx', cells')"
  shows "clientFromContext (Some ctx') = gc_client c" "countryFromContext (Some ctx') = gc_country c"
    "ipFromContext (Some ctx') = gc_ip c" "keyFingerprintFromContext (Some ctx') = gc_fingerprint c"
    "servedCell (Some ctx') = Some (length cells)" "cells' = cells @ [[]]" "nodeFromContext (Some ctx') cells' = []"
  using assms
  by (auto simp: inferenceContext_def Let_def ctxStr_def clientFromContext_def countryFromContext_def ipFromContext_def
      keyFingerprintFromContext_def servedCell_def nodeFromContext_def split: option.splits)

text \<open>Request \<open>i\<close> owns cell \<open>i\<close>, and reads back its own values.\<close>

definition ctx_ok :: "ctx_state \<Rightarrow> bool" where
  "ctx_ok s \<longleftrightarrow> length (snd s) = length (fst s)
     \<and> (\<forall>i < length (fst s). case fst s ! i of (ctx, c) \<Rightarrow>
          servedCell (Some ctx) = Some i \<and> clientFromContext (Some ctx) = gc_client c
        \<and> countryFromContext (Some ctx) = gc_country c \<and> ipFromContext (Some ctx) = gc_ip c
        \<and> keyFingerprintFromContext (Some ctx) = gc_fingerprint c)"

lemma ctx_ok_step: "ctx_ok s \<Longrightarrow> ctx_ok (ctx_step op s)"
proof (cases op)
  case (CtxArrive isStreaming modelID c aff)
  obtain rs cells where s: "s = (rs, cells)" by force
  obtain ctx cells' where e: "inferenceContext Map.empty isStreaming modelID c aff cells = (ctx, cells')" by force
  assume "ctx_ok s"
  then show ?thesis
    using inference_reads [OF e] by (auto simp: CtxArrive s e ctx_ok_def nth_append less_Suc_eq)
qed (cases s, auto simp: ctx_ok_def setServedBy_def split: option.split)

lemma served_last_fold:
  assumes "ctx_ok (rs, cells)" "fold ctx_step ops (rs, cells) = (rs', cells')" "i < length rs'"
  shows "cells' ! i = served_last ops (length rs) i (if i < length rs then cells ! i else [])"
  using assms
proof (induction ops arbitrary: rs cells)
  case (Cons op ops)
  obtain rs1 cells1 where s: "ctx_step op (rs, cells) = (rs1, cells1)" by force
  have ok: "ctx_ok (rs1, cells1)" using ctx_ok_step [OF Cons.prems(1), of op] s by simp
  have len: "length cells = length rs" using Cons.prems(1) by (simp add: ctx_ok_def)
  have "cells' ! i = served_last ops (length rs1) i (if i < length rs1 then cells1 ! i else [])"
    using Cons.IH [OF ok] Cons.prems(2,3) s by simp
  also have "\<dots> = served_last (op # ops) (length rs) i (if i < length rs then cells ! i else [])"
  proof (cases op)
    case (CtxArrive isStreaming modelID c aff)
    then show ?thesis using s len by (auto simp: inferenceContext_def Let_def nth_append)
  next
    case (CtxServe j node)
    have "servedCell (Some (fst (rs ! j))) = Some j" if "j < length rs"
      using Cons.prems(1) that by (cases "rs ! j") (auto simp: ctx_ok_def)
    then show ?thesis using s len by (auto simp: CtxServe setServedBy_def nth_list_update split: if_splits)
  qed
  finally show ?case .
qed auto

text \<open>
  Attribution: whatever requests arrive and whatever nodes their dispatches name, in any order, a metric is attributed to the client, country, address
  and key fingerprint the key check found for its request, and to the node its own dispatch named last, to none when
  it named none.
\<close>

theorem attribution_own:
  assumes "i < length (fst (ctx_run ops))"
  shows "case fst (ctx_run ops) ! i of (ctx, c) \<Rightarrow>
     attribute c (served_last ops 0 i []) tm
       = tm\<lparr>tm_Client := clientFromContext (Some ctx), tm_Country := countryFromContext (Some ctx), tm_IP := ipFromContext (Some ctx),
            tm_KeyFingerprint := keyFingerprintFromContext (Some ctx), tm_Node := nodeFromContext (Some ctx) (snd (ctx_run ops))\<rparr>"
proof -
  have start: "ctx_ok ([], [])" by (simp add: ctx_ok_def)
  have "ctx_ok (fold ctx_step ops s)" if "ctx_ok s" for s
    using that by (induction ops arbitrary: s) (simp_all add: ctx_ok_step)
  then have ok: "ctx_ok (ctx_run ops)" using start by (simp add: ctx_run_def)
  obtain rs cells where r: "ctx_run ops = (rs, cells)" by force
  have "cells ! i = served_last ops 0 i []"
    using served_last_fold [OF start, of ops rs cells i] assms r by (simp add: ctx_run_def)
  then show ?thesis
    using ok assms by (auto simp: r ctx_ok_def attribute_def nodeFromContext_def split: prod.split)
qed

text \<open>A request whose handler installs nothing - a form, or one under \<open>/upstream/\<close> - is attributed to no one.\<close>

lemma unattributed:
  "clientFromContext (Some Map.empty) = []" "keyFingerprintFromContext (Some Map.empty) = []"
  "nodeFromContext (Some Map.empty) (setServedBy (Some Map.empty) node cells) = []" "setServedBy None node cells = cells"
  by (simp_all add: clientFromContext_def keyFingerprintFromContext_def ctxStr_def nodeFromContext_def servedCell_def setServedBy_def)

subsection \<open>The request log\<close>

text \<open>
  The first middleware logs every request but the waking proxy's health check, with what the client sent before a handler
  rewrote the path. \<open>num\<close> prints an integer and \<open>took\<close> is the printed duration.
\<close>

record requestSeen =
  rs_clientIP :: string
  rs_method :: string
  rs_path :: string
  rs_proto :: string
  rs_agent :: string

definition request_line :: "(int \<Rightarrow> string) \<Rightarrow> requestSeen \<Rightarrow> int \<Rightarrow> int \<Rightarrow> string \<Rightarrow> string option" where
  "request_line num r statusCode bodySize took =
     (if rs_path r = ''/wol-health'' then None
      else Some (''Request '' @ rs_clientIP r @ '' '' @ [CHR 0x22] @ rs_method r @ '' '' @ rs_path r @ '' '' @ rs_proto r @ [CHR 0x22] @ '' ''
        @ num statusCode @ '' '' @ num bodySize @ '' '' @ [CHR 0x22] @ rs_agent r @ [CHR 0x22] @ '' '' @ took))"

text \<open>What is logged of a conversation's key: at most four of its bytes, in hexadecimal.\<close>

definition affinityKeyPrefix :: "string \<Rightarrow> string" where
  "affinityKeyPrefix key = (if key = [] then ''-'' else hex_encode (if length key > 4 then take 4 key else key))"

lemma affinityKeyPrefix_short: "length (affinityKeyPrefix key) \<le> 8" "affinityKeyPrefix key = affinityKeyPrefix (take 4 key)"
proof -
  have h: "length (hex_encode b) = 2 * length b" for b by (induction b) (simp_all add: hex_encode_def)
  show "length (affinityKeyPrefix key) \<le> 8" by (simp add: affinityKeyPrefix_def h)
  show "affinityKeyPrefix key = affinityKeyPrefix (take 4 key)" by (simp add: affinityKeyPrefix_def)
qed

end
