(* ===== verification/Response_Writers.thy ===== *)
theory Response_Writers
  imports Manager_Start Metrics_Monitor Request_Paths Loading_Stream "HOL-Library.Sublist"
begin

section \<open>Writing responses (proxy/metrics_monitor.go, proxymanager_api.go, discardWriter.go, process.go)\<close>

text \<open>
  What the program puts between a handler and the client: the recorder that copies what it passes on, the buffer that holds a
  peer's small answer, the writer that drops everything, and the one that precedes an answer with loading messages.
  A call of \<open>Write\<close> returns the number of bytes taken and whether there was no error; the contract of the standard library is the
  locale \<open>http_writer\<close>, and the client's connection is any state that satisfies it.
\<close>

subsection \<open>The contract\<close>

text \<open>\<open>io.Writer\<close>: fewer bytes are taken only together with an error.\<close>

locale http_writer =
  fixes wput :: "string \<Rightarrow> 's \<Rightarrow> 's \<times> nat \<times> bool"
    and whead :: "int \<Rightarrow> 's \<Rightarrow> 's"
  assumes put_count: "wput b s = (s', n, ok) \<Longrightarrow> n \<le> length b \<and> (ok \<longrightarrow> n = length b)"

text \<open>A writer whose receiver gets the bytes it takes, in order.\<close>

locale body_writer = http_writer wput whead
  for wput :: "string \<Rightarrow> 's \<Rightarrow> 's \<times> nat \<times> bool" and whead :: "int \<Rightarrow> 's \<Rightarrow> 's" +
  fixes body_of :: "'s \<Rightarrow> string"
  assumes put_body: "wput b s = (s', n, ok) \<Longrightarrow> body_of s' = body_of s @ take n b"
    and head_body: "body_of (whead code s) = body_of s"

text \<open>What a handler does with its writer; a \<open>Write\<close> carries the time it is made at.\<close>

datatype rw_op = RwHead int | RwPut int string

fun rw_do :: "(string \<Rightarrow> 's \<Rightarrow> 's \<times> nat \<times> bool) \<Rightarrow> (int \<Rightarrow> 's \<Rightarrow> 's) \<Rightarrow> rw_op \<Rightarrow> 's \<Rightarrow> 's" where
  "rw_do wput whead (RwHead code) s = whead code s"
| "rw_do wput whead (RwPut now b) s = fst (wput b s)"

definition rw_run :: "(string \<Rightarrow> 's \<Rightarrow> 's \<times> nat \<times> bool) \<Rightarrow> (int \<Rightarrow> 's \<Rightarrow> 's) \<Rightarrow> rw_op list \<Rightarrow> 's \<Rightarrow> 's" where
  "rw_run wput whead ops s = fold (rw_do wput whead) ops s"

subsection \<open>The recorder\<close>

record 's responseBodyCopier =
  bc_ResponseWriter :: 's
  bc_body :: string
  bc_start :: "int option"

definition newBodyCopier :: "'s \<Rightarrow> 's responseBodyCopier" where
  "newBodyCopier w = \<lparr>bc_ResponseWriter = w, bc_body = [], bc_start = None\<rparr>"

text \<open>\<open>io.MultiWriter\<close> hands the bytes to the buffer only when the response took them all.\<close>

definition bc_Write :: "(string \<Rightarrow> 's \<Rightarrow> 's \<times> nat \<times> bool) \<Rightarrow> int \<Rightarrow> string \<Rightarrow> 's responseBodyCopier
    \<Rightarrow> 's responseBodyCopier \<times> nat \<times> bool" where
  "bc_Write wput now b c =
     (let c = (if bc_start c = None then c\<lparr>bc_start := Some now\<rparr> else c) in
      case wput b (bc_ResponseWriter c) of
        (w, n, ok) \<Rightarrow>
          (let c = c\<lparr>bc_ResponseWriter := w\<rparr> in
           if \<not> ok \<or> n \<noteq> length b then (c, n, False)
           else (c\<lparr>bc_body := bc_body c @ b\<rparr>, length b, True)))"

definition bc_WriteHeader :: "(int \<Rightarrow> 's \<Rightarrow> 's) \<Rightarrow> int \<Rightarrow> 's responseBodyCopier \<Rightarrow> 's responseBodyCopier" where
  "bc_WriteHeader whead statusCode c = c\<lparr>bc_ResponseWriter := whead statusCode (bc_ResponseWriter c)\<rparr>"

fun bc_do :: "(string \<Rightarrow> 's \<Rightarrow> 's \<times> nat \<times> bool) \<Rightarrow> (int \<Rightarrow> 's \<Rightarrow> 's) \<Rightarrow> rw_op \<Rightarrow> 's responseBodyCopier \<Rightarrow> 's responseBodyCopier" where
  "bc_do wput whead (RwHead code) c = bc_WriteHeader whead code c"
| "bc_do wput whead (RwPut now b) c = fst (bc_Write wput now b c)"

definition bc_run :: "(string \<Rightarrow> 's \<Rightarrow> 's \<times> nat \<times> bool) \<Rightarrow> (int \<Rightarrow> 's \<Rightarrow> 's) \<Rightarrow> rw_op list \<Rightarrow> 's responseBodyCopier \<Rightarrow> 's responseBodyCopier" where
  "bc_run wput whead ops c = fold (bc_do wput whead) ops c"

text \<open>The time of the first write of a run.\<close>

fun first_put :: "rw_op list \<Rightarrow> int option" where
  "first_put [] = None"
| "first_put (RwHead code # ops) = first_put ops"
| "first_put (RwPut now b # ops) = Some now"

subsection \<open>The other writers\<close>

record bufferedResponse =
  br_header :: "(string \<times> string) list"
  br_body :: string
  br_code :: int

definition newBufferedResponse :: bufferedResponse where
  "newBufferedResponse = \<lparr>br_header = [], br_body = [], br_code = 200\<rparr>"

definition br_WriteHeader :: "int \<Rightarrow> bufferedResponse \<Rightarrow> bufferedResponse" where
  "br_WriteHeader code b = b\<lparr>br_code := code\<rparr>"

definition br_Write :: "string \<Rightarrow> bufferedResponse \<Rightarrow> bufferedResponse \<times> nat \<times> bool" where
  "br_Write p b = (b\<lparr>br_body := br_body b @ p\<rparr>, length p, True)"

text \<open>What \<open>forwardUnloadNormalized\<close> reads from the buffer when the dispatch has succeeded.\<close>

definition buffered_answer :: "bufferedResponse \<Rightarrow> int \<times> (string \<times> string) list \<times> string" where
  "buffered_answer b = (br_code b, br_header b, br_body b)"

record DiscardWriter =
  dw_header :: "http_headers option"
  dw_status :: int

definition dw_Header :: "DiscardWriter \<Rightarrow> DiscardWriter \<times> http_headers" where
  "dw_Header w = (case dw_header w of None \<Rightarrow> (w\<lparr>dw_header := Some Map.empty\<rparr>, Map.empty) | Some h \<Rightarrow> (w, h))"

definition dw_Write :: "string \<Rightarrow> DiscardWriter \<Rightarrow> DiscardWriter \<times> nat \<times> bool" where
  "dw_Write dat w = (w, length dat, True)"

definition dw_WriteHeader :: "int \<Rightarrow> DiscardWriter \<Rightarrow> DiscardWriter" where
  "dw_WriteHeader code w = w\<lparr>dw_status := code\<rparr>"

definition dw_Flush :: "DiscardWriter \<Rightarrow> DiscardWriter" where
  "dw_Flush w = w"

text \<open>The loading stream's \<open>Write\<close>, and the bytes its connection has got; \<open>enc\<close> encodes a message.\<close>

definition srw_Write :: "string \<Rightarrow> srwState \<Rightarrow> srwState \<times> nat \<times> bool" where
  "srw_Write dat s =
     (if sw_connected s then (s\<lparr>sw_out := sw_out s @ [FromUpstream dat]\<rparr>, length dat, True) else (s, 0, False))"

fun chunk_bytes :: "(string \<Rightarrow> string) \<Rightarrow> chunk \<Rightarrow> string" where
  "chunk_bytes enc (FromStatus d) = event_bytes enc d"
| "chunk_bytes enc (FromUpstream b) = b"

definition srw_bytes :: "(string \<Rightarrow> string) \<Rightarrow> srwState \<Rightarrow> string" where
  "srw_bytes enc s = concat (map (chunk_bytes enc) (sw_out s))"

interpretation buffered: body_writer br_Write br_WriteHeader br_body
  by unfold_locales (auto simp: br_Write_def br_WriteHeader_def)

interpretation discard: http_writer dw_Write dw_WriteHeader
  by unfold_locales (auto simp: dw_Write_def)

interpretation stream: body_writer srw_Write srw_WriteHeader "srw_bytes enc" for enc
  by unfold_locales (auto simp: srw_Write_def srw_WriteHeader_def srw_bytes_def split: if_splits)

subsection \<open>The recorder is transparent and exact\<close>

text \<open>Whatever it wraps sees the calls as if there were no recorder.\<close>

lemma bc_Write_inner: "bc_ResponseWriter (fst (bc_Write wput now b c)) = fst (wput b (bc_ResponseWriter c))"
  by (simp add: bc_Write_def Let_def split: prod.split)

lemma bc_transparent: "bc_ResponseWriter (bc_run wput whead ops c) = rw_run wput whead ops (bc_ResponseWriter c)"
proof (induction ops arbitrary: c)
  case (Cons op ops)
  have "bc_ResponseWriter (bc_do wput whead op c) = rw_do wput whead op (bc_ResponseWriter c)"
    by (cases op) (simp_all add: bc_Write_inner bc_WriteHeader_def)
  with Cons.IH [of "bc_do wput whead op c"] show ?case by (simp add: bc_run_def rw_run_def)
qed (simp add: bc_run_def rw_run_def)

lemma bc_start_first:
  "bc_start (bc_run wput whead ops c) = (case bc_start c of None \<Rightarrow> first_put ops | Some t \<Rightarrow> Some t)"
proof (induction ops arbitrary: c)
  case (Cons op ops)
  have "bc_start (bc_do wput whead op c) = (case bc_start c of None \<Rightarrow> first_put [op] | Some t \<Rightarrow> Some t)"
    by (cases op) (auto simp: bc_Write_def bc_WriteHeader_def Let_def split: prod.split option.split)
  with Cons.IH [of "bc_do wput whead op c"] show ?case
    by (cases op) (auto simp: bc_run_def split: option.splits)
qed (simp add: bc_run_def split: option.split)

text \<open>No write of the run failed.\<close>

fun puts_ok :: "(string \<Rightarrow> 's \<Rightarrow> 's \<times> nat \<times> bool) \<Rightarrow> (int \<Rightarrow> 's \<Rightarrow> 's) \<Rightarrow> rw_op list \<Rightarrow> 's \<Rightarrow> bool" where
  "puts_ok wput whead [] s = True"
| "puts_ok wput whead (RwHead code # ops) s = puts_ok wput whead ops (whead code s)"
| "puts_ok wput whead (RwPut now b # ops) s = (case wput b s of (s', n, ok) \<Rightarrow> ok \<and> puts_ok wput whead ops s')"

lemma bc_Write_cases:
  assumes "wput b (bc_ResponseWriter c) = (s', n, ok)"
  shows "bc_body (fst (bc_Write wput now b c)) = (if ok \<and> n = length b then bc_body c @ b else bc_body c)"
  using assms by (auto simp: bc_Write_def Let_def)

context body_writer
begin

lemma recorded_from:
  "\<exists>out rec. body_of (bc_ResponseWriter (bc_run wput whead ops c)) = body_of (bc_ResponseWriter c) @ out
     \<and> bc_body (bc_run wput whead ops c) = bc_body c @ rec \<and> subseq rec out
     \<and> (puts_ok wput whead ops (bc_ResponseWriter c) \<longrightarrow> rec = out)"
proof (induction ops arbitrary: c)
  case (Cons op ops)
  have run: "bc_run wput whead (op # ops) c = bc_run wput whead ops (bc_do wput whead op c)" by (simp add: bc_run_def)
  note IH = Cons.IH [of "bc_do wput whead op c"]
  show ?case
  proof (cases op)
    case (RwHead code)
    then show ?thesis unfolding run using IH by (simp add: bc_WriteHeader_def head_body)
  next
    case (RwPut now b)
    obtain s' n ok where w: "wput b (bc_ResponseWriter c) = (s', n, ok)" by (metis prod_cases3)
    let ?c = "fst (bc_Write wput now b c)"
    obtain out rec where ih: "body_of (bc_ResponseWriter (bc_run wput whead ops ?c)) = body_of s' @ out"
      "bc_body (bc_run wput whead ops ?c) = bc_body ?c @ rec" "subseq rec out" "puts_ok wput whead ops s' \<longrightarrow> rec = out"
      using IH w by (auto simp: RwPut bc_Write_inner)
    have t: "n = length b \<Longrightarrow> take n b = b" by simp
    show ?thesis
    proof (intro exI conjI)
      show "body_of (bc_ResponseWriter (bc_run wput whead (op # ops) c)) = body_of (bc_ResponseWriter c) @ (take n b @ out)"
        unfolding run using ih(1) put_body [OF w] by (simp add: RwPut)
      show "bc_body (bc_run wput whead (op # ops) c) = bc_body c @ ((if ok \<and> n = length b then b else []) @ rec)"
        unfolding run using ih(2) bc_Write_cases [where wput = wput and c = c and now = now, OF w] by (simp add: RwPut)
      show "subseq ((if ok \<and> n = length b then b else []) @ rec) (take n b @ out)"
        using ih(3) by (auto intro: list_emb_append_mono)
      show "puts_ok wput whead (op # ops) (bc_ResponseWriter c) \<longrightarrow> (if ok \<and> n = length b then b else []) @ rec = take n b @ out"
        using ih(4) put_count [OF w] by (auto simp: RwPut w)
    qed
  qed
qed (auto simp: bc_run_def)

text \<open>
  The record holds nothing the client has not got, in the same order - a write the client did not take whole is left out - and is
  exactly what the client got when no write failed.
\<close>

lemma recorded_body:
  "\<exists>out. body_of (bc_ResponseWriter (bc_run wput whead ops (newBodyCopier w))) = body_of w @ out
     \<and> subseq (bc_body (bc_run wput whead ops (newBodyCopier w))) out
     \<and> (puts_ok wput whead ops w \<longrightarrow> bc_body (bc_run wput whead ops (newBodyCopier w)) = out)"
  using recorded_from [of ops "newBodyCopier w"] by (auto simp: newBodyCopier_def)

text \<open>A recorder is itself such a writer, so that one can wrap another.\<close>

lemma copier_writer: "body_writer (bc_Write wput now) (bc_WriteHeader whead) (\<lambda>c. body_of (bc_ResponseWriter c))"
proof
  fix b :: string and c c' :: "'s responseBodyCopier" and n :: nat and ok :: bool
  assume w: "bc_Write wput now b c = (c', n, ok)"
  obtain s' m ok' where i: "wput b (bc_ResponseWriter c) = (s', m, ok')" by (metis prod_cases3)
  have r: "n = m" "bc_ResponseWriter c' = s'" "ok \<longleftrightarrow> ok' \<and> m = length b"
    using w i bc_Write_inner [of wput now b c] by (auto simp: bc_Write_def Let_def split: if_splits)
  show "n \<le> length b \<and> (ok \<longrightarrow> n = length b)" using put_count [OF i] r by simp
  show "body_of (bc_ResponseWriter c') = body_of (bc_ResponseWriter c) @ take n b" using put_body [OF i] r by simp
next
  show "body_of (bc_ResponseWriter (bc_WriteHeader whead code c)) = body_of (bc_ResponseWriter c)" for code c
    by (simp add: bc_WriteHeader_def head_body)
qed

end

text \<open>
  The buffer of a peer's answer under a recorder, and the loading stream: what is recorded there.
\<close>

lemma buffered_recorded:
  "bc_body (bc_run br_Write br_WriteHeader ops (newBodyCopier newBufferedResponse))
     = br_body (bc_ResponseWriter (bc_run br_Write br_WriteHeader ops (newBodyCopier newBufferedResponse)))"
proof -
  have ok: "puts_ok br_Write br_WriteHeader ops b" for b
  proof (induction ops arbitrary: b)
    case (Cons op ops)
    then show ?case by (cases op) (simp_all add: br_Write_def)
  qed simp
  then show ?thesis
    using buffered.recorded_body [of ops newBufferedResponse] by (auto simp: newBufferedResponse_def)
qed

lemma buffered_status:
  "br_code (rw_run br_Write br_WriteHeader ops b)
     = last (br_code b # concat (map (\<lambda>op. case op of RwHead code \<Rightarrow> [code] | _ \<Rightarrow> []) ops))"
proof (induction ops arbitrary: b)
  case (Cons op ops)
  show ?case
    using Cons.IH [of "rw_do br_Write br_WriteHeader op b"]
    by (cases op) (simp_all add: rw_run_def br_Write_def br_WriteHeader_def)
qed (simp add: rw_run_def)

subsection \<open>Loading messages are not billed\<close>

text \<open>
  The recorder also gets the loading messages, since the loading stream writes to it. They do not change what is
  read from an answer: text that ends in a newline in front of a body with a usage line leaves its metric as it is.
\<close>

lemma scan_behind:
  assumes "processStreamingResponse lib now modelID start body = Some tm"
  shows "processStreamingResponse lib now modelID start (front @ newline # body) = Some tm"
proof -
  let ?P = "\<lambda>l. stream_line lib (TrimSpace l) \<noteq> None"
  have scan: "stream_scan lib b (length b)
      = Option.bind (find ?P (rev (Split b newline))) (\<lambda>l. stream_line lib (TrimSpace l))" for b
    using stream_scan_lines [of lib b "length b"] by simp
  obtain l where l: "find ?P (rev (Split body newline)) = Some l"
    using assms by (cases "find ?P (rev (Split body newline))") (simp_all add: processStreamingResponse_def scan)
  have "find ?P (xs @ ys) = Some l" if "find ?P xs = Some l" for xs ys
    using that by (induction xs) auto
  from this [OF l] l have "find ?P (rev (Split body newline) @ ys) = find ?P (rev (Split body newline))" for ys by simp
  then have "stream_scan lib (front @ newline # body) (length (front @ newline # body)) = stream_scan lib body (length body)"
    unfolding scan Split_mid by simp
  with assms show ?thesis by (simp add: processStreamingResponse_def)
qed

lemma loading_not_billed:
  assumes "processStreamingResponse lib now modelID start body = Some tm" "list_all from_status msgs"
  shows "processStreamingResponse lib now modelID start (concat (map (chunk_bytes enc) msgs) @ body) = Some tm"
proof (cases msgs rule: rev_cases)
  case (snoc ms m)
  then obtain d where m: "m = FromStatus d" using assms(2) by (cases m) auto
  have "concat (map (chunk_bytes enc) msgs) @ body
      = (concat (map (chunk_bytes enc) ms) @ ''data: '' @ enc d @ [newline]) @ newline # body"
    by (simp add: snoc m event_bytes_def newline_def)
  then show ?thesis using scan_behind [OF assms(1)] by (simp only:)
qed (use assms in simp)

text \<open>
  But they fix the status. When the start fails after the stream has begun, the request ends with status 200 and an error message as
  the last event, and without counts: the gate, which refunds other failures, charges the whole hold.
\<close>

definition plain_messages :: "('j, 'f) gjsonLib \<Rightarrow> (string \<Rightarrow> string) \<Rightarrow> bool" where
  "plain_messages lib enc \<longleftrightarrow> (\<forall>d. enc d \<noteq> [] \<and> newline \<notin> set (enc d) \<and> TrimSpace (enc d) = enc d \<and> usage_of lib (enc d) = None)"

lemma plain_messages_example: "plain_messages (any_gjson (\<lambda>b. None)) (\<lambda>d. ''{}'')"
  by (simp add: plain_messages_def usage_of_def any_gjson_def newline_def TrimSpace_def is_space_def)

lemma message_line:
  assumes "plain_messages lib enc"
  shows "stream_line lib (TrimSpace (''data: '' @ enc d)) = None"
proof -
  have e: "enc d \<noteq> []" "TrimSpace (enc d) = enc d" "usage_of lib (enc d) = None" using assms by (auto simp: plain_messages_def)
  have ends: "\<not> is_space (hd (enc d))" "\<not> is_space (last (enc d))" using TrimSpace_ends [of "enc d"] e(1,2) by simp_all
  have "TrimSpace (''data: '' @ enc d) = ''data: '' @ enc d"
    using e(1) ends by (intro TrimSpace_noop) (simp_all add: is_space_def)
  moreover have "TrimSpace ('' '' @ enc d) = enc d"
    using e(1,2) ends by (simp add: TrimSpace_def is_space_def)
  ultimately show ?thesis using e(3) by (simp add: stream_line_def HasPrefix_def Let_def)
qed

lemma messages_no_usage:
  assumes "plain_messages lib enc" "list_all from_status msgs"
  shows "processStreamingResponse lib now modelID start (concat (map (chunk_bytes enc) msgs)) = None"
proof -
  have line: "c \<notin> set a \<Longrightarrow> Split (a @ c # b) c = a # Split b c" for a b and c :: char
    by (simp add: Split_mid Split_no_occ)
  have empty: "stream_line lib (TrimSpace []) = None" by (simp add: stream_line_def)
  have "list_all (\<lambda>l. stream_line lib (TrimSpace l) = None) (Split (concat (map (chunk_bytes enc) msgs)) newline)"
    using assms(2)
  proof (induction msgs)
    case (Cons m ms)
    then obtain d where m: "m = FromStatus d" by (cases m) auto
    have nl: "newline \<notin> set (''data: '' @ enc d)" "newline \<notin> set []"
      using assms(1) by (simp_all add: plain_messages_def newline_def)
    have "concat (map (chunk_bytes enc) (m # ms))
        = (''data: '' @ enc d) @ newline # ([] @ newline # concat (map (chunk_bytes enc) ms))"
      by (simp add: m event_bytes_def newline_def)
    then have sp: "Split (concat (map (chunk_bytes enc) (m # ms))) newline
        = (''data: '' @ enc d) # [] # Split (concat (map (chunk_bytes enc) ms)) newline"
      by (simp only: line [OF nl(1)] line [OF nl(2)])
    show ?case
      unfolding sp list.pred_inject(2) using Cons message_line [OF assms(1), of d] empty by (simp only: list.pred_inject(2))
  qed (use empty in simp)
  then have "find (\<lambda>l. stream_line lib (TrimSpace l) \<noteq> None) (rev (Split (concat (map (chunk_bytes enc) msgs)) newline)) = None"
    by (simp add: find_None_iff list_all_iff)
  then show ?thesis
    using stream_scan_lines [of lib "concat (map (chunk_bytes enc) msgs)" "length (concat (map (chunk_bytes enc) msgs))"]
    by (simp add: processStreamingResponse_def)
qed

definition loading_reply :: "(string \<Rightarrow> string) \<Rightarrow> int \<Rightarrow> srwState \<Rightarrow> reply" where
  "loading_reply enc begun s =
     \<lparr>rp_status = (case sw_code s of None \<Rightarrow> 200 | Some code \<Rightarrow> code), rp_body = srw_bytes enc s, rp_start = Some begun,
      rp_encoding = [], rp_contentType = ''text/event-stream''\<rparr>"

lemma failed_load_charged:
  assumes "sw_run ID remarks as s" "sw_handler s = HdEnd" "plain_messages lib enc"
  shows "case wrapHandler lib gunzip inflate w modelID ctx (\<lambda>h. Inr (node, loading_reply enc begun s)) h (Some freshCapture) pl of
      (pl', cap, _) \<Rightarrow> \<exists>c. cap = Some c \<and> charge pb modelID cost c = max 0 cost"
proof -
  have p: "streaming ID s" "list_all from_status (sw_out s)"
    using sw_run_ok [OF assms(1)] assms(2) by (simp_all add: sw_ok_def)
  have "sw_out s \<noteq> []" using p(1) by (auto simp: streaming_def banner_def)
  then obtain m ms where "sw_out s = m # ms" by (cases "sw_out s") auto
  then have ne: "srw_bytes enc s \<noteq> []" using p(2) by (cases m) (auto simp: srw_bytes_def event_bytes_def)
  have none: "processStreamingResponse lib t modelID (Some begun) (srw_bytes enc s) = None" for t
    unfolding srw_bytes_def by (rule messages_no_usage [OF assms(3) p(2)])
  have code: "sw_code s = Some 200" using p(1) by (simp add: streaming_def)
  show ?thesis
    by (simp add: wrapHandler_def loading_reply_def code metric_of_def ne none HasPrefix_def attribute_def minimalMetrics_def Let_def
        setCreditCaptureStatus_def setCreditCaptureTokens_def freshCapture_def charge_def)
qed

subsection \<open>Hooks of the reverse proxies and error answers\<close>

text \<open>
  \<open>ModifyResponse\<close>: an event stream, and for a local model also a chunked answer, is not to be buffered on its way.
\<close>

definition isEventStream :: "http_headers \<Rightarrow> bool" where
  "isEventStream h = Contains (ToLower (GetHeader h ''content-type'')) ''text/event-stream''"

definition peerModifyResponse :: "http_headers \<Rightarrow> http_headers" where
  "peerModifyResponse h = (if isEventStream h then h(''x-accel-buffering'' \<mapsto> ''no'') else h)"

definition processModifyResponse :: "string list \<Rightarrow> http_headers \<Rightarrow> http_headers" where
  "processModifyResponse transferEncoding h =
     (let isChunked = (case transferEncoding of [] \<Rightarrow> False | e # _ \<Rightarrow> e = ''chunked'')
      in if isEventStream h \<or> isChunked then h(''x-accel-buffering'' \<mapsto> ''no'') else h)"

text \<open>The peer's director, after the standard one has pointed the request's URL at \<open>urlHost\<close>: the host header follows.\<close>

definition peerDirector :: "string \<Rightarrow> string \<Rightarrow> string" where
  "peerDirector urlHost requestHost = urlHost"

text \<open>What a client gets when the peer cannot be reached; \<open>os\<close> is the system the program was built for.\<close>

definition peerErrorHandler :: "string \<Rightarrow> string \<Rightarrow> int \<times> string" where
  "peerErrorHandler os err =
     (502, ''peer proxy error: '' @ err @
        (if os = ''darwin'' \<and> Contains err ''connect: no route to host''
         then '' (hint: on macOS, check System Settings > Privacy & Security > Local Network permissions)'' else []))"

datatype errorBody = ErrorJSON string | ErrorText string

definition sendErrorResponse :: "http_headers \<Rightarrow> int \<Rightarrow> string \<Rightarrow> int \<times> errorBody" where
  "sendErrorResponse h statusCode message =
     (statusCode, if Contains (GetHeader h ''accept'') ''application/json'' then ErrorJSON message else ErrorText message)"

text \<open>The metrics and version endpoints; \<open>marshal\<close> is the JSON encoder.\<close>

definition getMetricsJSON :: "('f TokenMetrics list \<Rightarrow> string option) \<Rightarrow> 'f metricsMonitor \<Rightarrow> string option" where
  "getMetricsJSON marshal mp = marshal (metrics mp)"

definition apiGetMetrics :: "('f TokenMetrics list \<Rightarrow> string option) \<Rightarrow> 'f metricsMonitor \<Rightarrow> (int \<times> errorBody) + string" where
  "apiGetMetrics marshal mp =
     (case getMetricsJSON marshal mp of None \<Rightarrow> Inl (500, ErrorJSON ''failed to get metrics'') | Some j \<Rightarrow> Inr j)"

definition apiGetVersion :: "'f manager \<Rightarrow> (string \<times> string) list" where
  "apiGetVersion m = [(''version'', version m), (''commit'', commit m), (''build_date'', buildDate m)]"

lemma version_roundtrip:
  "apiGetVersion (SetVersion bd co ve m) = [(''version'', ve), (''commit'', co), (''build_date'', bd)]"
  by (simp add: apiGetVersion_def SetVersion_def)

end
