(* ===== verification/Simple_Responder.thy ===== *)
theory Simple_Responder
  imports Response_Writers
begin

section \<open>The stand-in upstream (cmd/simple-responder/simple-responder.go)\<close>

text \<open>
  The program the proxy is tried out with: a server with fixed answers that behaves like a model server where the proxy
  looks - a health check, a stream of events with the token counts at its end, slow answers, and a process that ignores or heeds
  signals. An answer is a status, headers, and what is written, flushed and waited for in order. The
  JSON encoder and the parsers of the standard library and of third parties are the record \<open>srLib\<close>.
\<close>

record srFlags =
  fl_port :: string
  fl_model :: string
  fl_respond :: string
  fl_silent :: bool
  fl_ignoreSigTerm :: bool

definition srDefaults :: srFlags where
  "srDefaults = \<lparr>fl_port = ''8080'', fl_model = ''TheExpectedModel'', fl_respond = ''hi'', fl_silent = False, fl_ignoreSigTerm = False\<rparr>"

definition srAddress :: "srFlags \<Rightarrow> string" where
  "srAddress fl = ''127.0.0.1:'' @ fl_port fl"

text \<open>
  \<open>sr_duration\<close> is \<open>time.ParseDuration\<close>, \<open>sr_model\<close> reads the model of a JSON body, \<open>sr_sse\<close> writes an event
  with its data.
\<close>

record srLib =
  sr_enc :: "any \<Rightarrow> string"
  sr_sse :: "string \<Rightarrow> string \<Rightarrow> string"
  sr_duration :: "string \<Rightarrow> string + int"
  sr_model :: "string \<Rightarrow> string"
  sr_num :: "int \<Rightarrow> string"

text \<open>A multipart form: the error of its parsing, or the model field and the file, which may be missing or fail to be read.\<close>

datatype srForm = BadForm string | SrForm string "string + (string + string)"

record srRequest =
  sq_method :: string
  sq_path :: string
  sq_query :: "string \<Rightarrow> string"
  sq_headers :: http_headers
  sq_body :: "string option"
  sq_form :: srForm

datatype srOut = SrWrite string | SrFlush | SrWait int

record srAnswer =
  sa_code :: int
  sa_headers :: "(string \<times> string) list"
  sa_out :: "srOut list"

text \<open>The headers are those the code sets itself; the framework adds a content type where there is none.\<close>

definition srJSON :: "srLib \<Rightarrow> int \<Rightarrow> any \<Rightarrow> srAnswer" where
  "srJSON lib code doc = \<lparr>sa_code = code, sa_headers = [], sa_out = [SrWrite (sr_enc lib doc)]\<rparr>"

definition srTyped :: "string \<Rightarrow> srAnswer \<Rightarrow> srAnswer" where
  "srTyped t a = a\<lparr>sa_headers := (''Content-Type'', t) # sa_headers a\<rparr>"

definition srText :: "int \<Rightarrow> string \<Rightarrow> srAnswer" where
  "srText code s = srTyped ''text/plain'' \<lparr>sa_code = code, sa_headers = [], sa_out = [SrWrite s]\<rparr>"

definition srError :: "srLib \<Rightarrow> int \<Rightarrow> string \<Rightarrow> srAnswer" where
  "srError lib code msg = srJSON lib code (VMap [(''error'', VStr msg)])"

subsection \<open>Chat completions\<close>

definition usage_doc :: any where
  "usage_doc = VMap [(''completion_tokens'', VInt 10), (''prompt_tokens'', VInt 25), (''total_tokens'', VInt 35)]"

definition timings_doc :: any where
  "timings_doc = VMap [(''prompt_n'', VInt 25), (''prompt_ms'', VInt 13), (''predicted_n'', VInt 10), (''predicted_ms'', VInt 17),
     (''predicted_per_second'', VInt 10)]"

definition token_doc :: "int \<Rightarrow> any" where
  "token_doc unix = VMap [(''created'', VInt unix),
     (''choices'', VList [VMap [(''index'', VInt 0), (''delta'', VMap [(''content'', VStr ''asdf'')]), (''finish_reason'', VNil)]])]"

definition final_doc :: any where
  "final_doc = VMap [(''usage'', usage_doc), (''timings'', timings_doc)]"

text \<open>An error of \<open>ParseDuration\<close>, as for an empty text, means no wait.\<close>

definition queryWait :: "srLib \<Rightarrow> srRequest \<Rightarrow> srOut list" where
  "queryWait lib r = (case sr_duration lib (sq_query r ''wait'') of Inl e \<Rightarrow> [] | Inr d \<Rightarrow> [SrWait d])"

definition srEvent :: "srLib \<Rightarrow> string \<Rightarrow> srOut list" where
  "srEvent lib d = [SrWrite (sr_sse lib ''message'' d), SrFlush]"

text \<open>\<open>unix i\<close> is the second in which the \<open>i\<close>-th token is sent.\<close>

definition chatStream :: "srLib \<Rightarrow> (nat \<Rightarrow> int) \<Rightarrow> srRequest \<Rightarrow> srAnswer" where
  "chatStream lib unix r =
     \<lparr>sa_code = 200,
      sa_headers = [(''Content-Type'', ''text/event-stream''), (''Cache-Control'', ''no-cache''), (''Connection'', ''keep-alive''),
        (''Transfer-Encoding'', ''chunked'')],
      sa_out = queryWait lib r @ concat (map (\<lambda>i. srEvent lib (sr_enc lib (token_doc (unix i)))) [0..<10])
        @ srEvent lib (sr_enc lib final_doc) @ srEvent lib ''[DONE]''\<rparr>"

definition chatAnswer :: "srLib \<Rightarrow> srFlags \<Rightarrow> srRequest \<Rightarrow> srAnswer" where
  "chatAnswer lib fl r =
     (let a = srTyped ''application/json'' (srJSON lib 200 (VMap [(''responseMessage'', VStr (fl_respond fl)),
          (''h_content_length'', VStr (GetHeader (sq_headers r) ''content-length'')),
          (''request_body'', VStr (case sq_body r of None \<Rightarrow> [] | Some b \<Rightarrow> b)), (''usage'', usage_doc), (''timings'', timings_doc)]))
      in a\<lparr>sa_out := queryWait lib r @ sa_out a\<rparr>)"

definition chatCompletions :: "srLib \<Rightarrow> srFlags \<Rightarrow> (nat \<Rightarrow> int) \<Rightarrow> srRequest \<Rightarrow> srAnswer" where
  "chatCompletions lib fl unix r =
     (if sq_query r ''stream'' = ''true'' then chatStream lib unix r else chatAnswer lib fl r)"

subsection \<open>The other endpoints\<close>

definition audioSpeech :: "srLib \<Rightarrow> srFlags \<Rightarrow> srRequest \<Rightarrow> srAnswer" where
  "audioSpeech lib fl r =
     (case sq_body r of
        None \<Rightarrow> srError lib 500 ''Failed to read request body''
      | Some body \<Rightarrow>
          (let modelName = sr_model lib body in
           if modelName \<noteq> fl_model fl
           then srError lib 400 (''Invalid model: '' @ modelName @ '', expected: '' @ fl_model fl)
           else srJSON lib 200 (VMap [(''message'', VStr ''ok'')])))"

definition srCompletions :: "srLib \<Rightarrow> srFlags \<Rightarrow> srAnswer" where
  "srCompletions lib fl =
     srTyped ''application/json'' (srJSON lib 200 (VMap [(''responseMessage'', VStr (fl_respond fl)), (''usage'', usage_doc)]))"

definition srTranscriptions :: "srLib \<Rightarrow> srRequest \<Rightarrow> srAnswer" where
  "srTranscriptions lib r =
     (case sq_form r of
        BadForm err \<Rightarrow> srError lib 400 (''Error parsing multipart form: '' @ err)
      | SrForm model file \<Rightarrow>
          if model = [] then srError lib 400 ''Missing model parameter''
          else (case file of
             Inl err \<Rightarrow> srError lib 400 (''Error getting file: '' @ err)
           | Inr (Inl err) \<Rightarrow> srError lib 500 (''Error reading file: '' @ err)
           | Inr (Inr bytes) \<Rightarrow>
               srJSON lib 200 (VMap [(''text'', VStr (''The length of the file is '' @ sr_num lib (int (length bytes)) @ '' bytes'')),
                 (''model'', VStr model),
                 (''h_content_type'', VStr (GetHeader (sq_headers r) ''content-type'')),
                 (''h_content_length'', VStr (GetHeader (sq_headers r) ''content-length''))])))"

text \<open>
  Go's \<open>range\<close> over a string, each rune written back in UTF-8: a byte that does not begin a valid sequence becomes the
  replacement character.
\<close>

definition in_byte :: "nat \<Rightarrow> nat \<Rightarrow> char \<Rightarrow> bool" where
  "in_byte lo hi c \<longleftrightarrow> lo \<le> of_char c \<and> of_char c \<le> hi"

definition second_ok :: "char \<Rightarrow> char \<Rightarrow> bool" where
  "second_ok a b =
     (if a = CHR 0xE0 then in_byte 160 191 b else if a = CHR 0xED then in_byte 128 159 b
      else if a = CHR 0xF0 then in_byte 144 191 b else if a = CHR 0xF4 then in_byte 128 143 b
      else in_byte 128 191 b)"

definition rune_length :: "string \<Rightarrow> nat option" where
  "rune_length s =
     (case s of
        [] \<Rightarrow> None
      | a # rest \<Rightarrow>
          if in_byte 0 127 a then Some 1
          else let n = (if in_byte 194 223 a then 2 else if in_byte 224 239 a then 3 else if in_byte 240 244 a then 4 else 0 :: nat)
               in if n = 0 \<or> length s < n then None
                  else if second_ok a (s ! 1) \<and> list_all (in_byte 128 191) (take (n - 2) (drop 2 s)) then Some n else None)"

function runes :: "string \<Rightarrow> string list" where
  "runes s =
     (case s of
        [] \<Rightarrow> []
      | c # cs \<Rightarrow>
          (case rune_length s of
             None \<Rightarrow> [CHR 0xEF, CHR 0xBF, CHR 0xBD] # runes cs
           | Some n \<Rightarrow> take (max 1 n) s # runes (drop (max 1 n) s)))"
  by pat_completeness auto
termination
  by (relation "measure length") auto

declare runes.simps [simp del]

definition slowRespond :: "srLib \<Rightarrow> srRequest \<Rightarrow> srAnswer" where
  "slowRespond lib r =
     (let echo = sq_query r ''echo''; delay = sq_query r ''delay'';
          echo = (if echo = [] then ''abcdefghijklmnopqrstuvwxyzABCDEFGHIJKLMNOPQRSTUVWXYZ0123456789'' else echo);
          delay = (if delay = [] then ''100ms'' else delay)
      in case sr_duration lib delay of
           Inl err \<Rightarrow> srText 400 (''Invalid duration: '' @ err)
         | Inr t \<Rightarrow> \<lparr>sa_code = 200, sa_headers = [(''Content-Type'', ''text/plain'')],
             sa_out = concat (map (\<lambda>ch. [SrWrite ch, SrFlush, SrWait t]) (runes echo))\<rparr>)"

definition srTest :: "srFlags \<Rightarrow> srAnswer" where
  "srTest fl = srText 200 (fl_respond fl)"

definition srEnv :: "srFlags \<Rightarrow> string list \<Rightarrow> srAnswer" where
  "srEnv fl environ = (let a = srText 200 (fl_respond fl) in a\<lparr>sa_out := sa_out a @ map SrWrite environ\<rparr>)"

definition srHealth :: "srLib \<Rightarrow> srAnswer" where
  "srHealth lib = srTyped ''application/json'' (srJSON lib 200 (VMap [(''status'', VStr ''ok'')]))"

definition srRoot :: "srRequest \<Rightarrow> srAnswer" where
  "srRoot r = srText 200 (sq_method r @ '' '' @ sq_path r)"

text \<open>The routes, all without parameters; \<open>None\<close> is a request none of them takes.\<close>

definition srServe :: "srLib \<Rightarrow> srFlags \<Rightarrow> string list \<Rightarrow> (nat \<Rightarrow> int) \<Rightarrow> srRequest \<Rightarrow> srAnswer option" where
  "srServe lib fl environ unix r =
     map_of [((''POST'', ''/v1/chat/completions''), chatCompletions lib fl unix r), ((''POST'', ''/v1/audio/speech''), audioSpeech lib fl r),
       ((''POST'', ''/v1/completions''), srCompletions lib fl), ((''POST'', ''/completion''), srCompletions lib fl),
       ((''POST'', ''/v1/audio/transcriptions''), srTranscriptions lib r), ((''GET'', ''/slow-respond''), slowRespond lib r),
       ((''GET'', ''/test''), srTest fl), ((''GET'', ''/env''), srEnv fl environ), ((''GET'', ''/health''), srHealth lib),
       ((''GET'', ''/''), srRoot r)]
       (sq_method r, sq_path r)"

subsection \<open>Signals\<close>

datatype srSignal = SIGINT | SIGTERM | OtherSignal

text \<open>The loop over the signals received so far: \<open>None\<close> while it waits for more, the rest when it has been left.\<close>

fun runloop :: "bool \<Rightarrow> nat \<Rightarrow> srSignal list \<Rightarrow> srSignal list option" where
  "runloop ignoreSigTerm countSigInt [] = None"
| "runloop ignoreSigTerm countSigInt (SIGINT # sigs) =
     (let countSigInt = countSigInt + 1 in
      if countSigInt > 1 then Some sigs else runloop ignoreSigTerm countSigInt sigs)"
| "runloop ignoreSigTerm countSigInt (SIGTERM # sigs) =
     (if ignoreSigTerm then runloop ignoreSigTerm countSigInt sigs else Some sigs)"
| "runloop ignoreSigTerm countSigInt (OtherSignal # sigs) = Some sigs"

text \<open>
  It ends with the second interrupt, with a SIGTERM unless those are ignored, and at once with anything else.
\<close>

lemma runloop_ends:
  "runloop ig n sigs \<noteq> None \<longleftrightarrow>
     (n + length (filter ((=) SIGINT) sigs) > 1 \<and> SIGINT \<in> set sigs) \<or> (\<not> ig \<and> SIGTERM \<in> set sigs) \<or> OtherSignal \<in> set sigs"
  by (induction ig n sigs rule: runloop.induct) (auto simp: Let_def filter_empty_conv)

subsection \<open>What the proxy reads from its stream\<close>

fun sr_written :: "srOut list \<Rightarrow> string" where
  "sr_written [] = []"
| "sr_written (SrWrite b # os) = b @ sr_written os"
| "sr_written (SrFlush # os) = sr_written os"
| "sr_written (SrWait d # os) = sr_written os"

lemma sr_written_append [simp]: "sr_written (os @ os') = sr_written os @ sr_written os'"
  by (induction os rule: sr_written.induct) simp_all

definition sse_event :: "string \<Rightarrow> string \<Rightarrow> string" where
  "sse_event name d = ''event:'' @ name @ newline # ''data:'' @ d @ [newline, newline]"

lemma Split_line: "c \<notin> set a \<Longrightarrow> Split (a @ c # b) c = a # Split b c"
  by (simp add: Split_mid Split_no_occ)

text \<open>
  A document with counts in the last event before \<open>[DONE]\<close> is what the metric is made from.
\<close>

lemma usage_line_read:
  assumes "newline \<notin> set doc" "TrimSpace doc = doc" "usage_of lib doc = Some (u, t)" "doc \<noteq> []" "doc \<noteq> ''[DONE]''"
  shows "processStreamingResponse lib now modelID start (front @ sse_event name doc @ sse_event ''message'' ''[DONE]'')
    = Some (parseMetrics lib now modelID start u t)"
proof -
  let ?body = "(''data:'' @ doc) @ newline # ([] @ newline # (''event:message'' @ newline # (''data:[DONE]'' @ newline # ([] @ newline # []))))"
  have nl: "newline \<notin> set ''event:message''" "newline \<notin> set ''data:[DONE]''" "newline \<notin> set (''data:'' @ doc)" "newline \<notin> set []"
    using assms(1) by (simp_all add: newline_def)
  have "Split [] newline = [[]]" by simp
  then have sp: "Split ?body newline = [''data:'' @ doc, [], ''event:message'', ''data:[DONE]'', [], []]"
    by (simp only: Split_line [OF nl(1)] Split_line [OF nl(2)] Split_line [OF nl(3)] Split_line [OF nl(4)])
  have none: "stream_line lib (TrimSpace []) = None" "stream_line lib (TrimSpace ''event:message'') = None"
    "stream_line lib (TrimSpace ''data:[DONE]'') = None"
    by (simp_all add: stream_line_def TrimSpace_def is_space_def HasPrefix_def Let_def)
  have "\<not> is_space (last doc)" using TrimSpace_ends [of doc] assms(2,4) by simp
  then have "TrimSpace (''data:'' @ doc) = ''data:'' @ doc"
    using assms(4) by (intro TrimSpace_noop) (simp_all add: is_space_def)
  then have hit: "stream_line lib (TrimSpace (''data:'' @ doc)) = Some (u, t)"
    using assms by (simp add: stream_line_def HasPrefix_def Let_def)
  have pick: "find P (rev [h, a, b, c, a, a]) = Some h" if "P h" "\<not> P a" "\<not> P b" "\<not> P c" for P and h a b c :: string
    using that by simp
  have "find (\<lambda>l. stream_line lib (TrimSpace l) \<noteq> None) (rev (Split ?body newline)) = Some (''data:'' @ doc)"
    unfolding sp by (rule pick) (simp_all only: none hit, simp_all)
  then have "processStreamingResponse lib now modelID start ?body = Some (parseMetrics lib now modelID start u t)"
    using stream_scan_lines [of lib ?body "length ?body"] hit by (simp add: processStreamingResponse_def del: append.simps)
  from scan_behind [OF this, of "front @ ''event:'' @ name"] show ?thesis by (simp add: sse_event_def)
qed

text \<open>
  Round trip: with an encoder whose text of the final document parses back, the proxy reads from the streamed answer
  the 25 prompt and 10 completion tokens it was sent, whatever was written before.
\<close>

lemma stream_counts:
  assumes "\<And>d. newline \<notin> set d \<Longrightarrow> sr_sse lib ''message'' d = sse_event ''message'' d"
    and "newline \<notin> set (sr_enc lib final_doc)" "TrimSpace (sr_enc lib final_doc) = sr_enc lib final_doc"
    and "parse (sr_enc lib final_doc) = Some final_doc" "parse [] = None" "parse ''[DONE]'' = None"
  shows "\<exists>tm. processStreamingResponse (any_gjson parse) now modelID start (sr_written (sa_out (chatStream lib unix r))) = Some tm
     \<and> tm_InputTokens tm = 25 \<and> tm_OutputTokens tm = 10"
proof -
  let ?d = "sr_enc lib final_doc"
  let ?pre = "sr_written (queryWait lib r @ concat (map (\<lambda>i. srEvent lib (sr_enc lib (token_doc (unix i)))) [0..<10]))"
  have "newline \<notin> set ''[DONE]''" by (simp add: newline_def)
  then have body: "sr_written (sa_out (chatStream lib unix r)) = ?pre @ sse_event ''message'' ?d @ sse_event ''message'' ''[DONE]''"
    using assms(1,2) by (simp add: chatStream_def srEvent_def)
  have u: "usage_of (any_gjson parse) ?d = Some (Some usage_doc, Some timings_doc)"
    using assms(4) by (simp add: usage_of_def any_gjson_def final_doc_def)
  have ne: "?d \<noteq> []" "?d \<noteq> ''[DONE]''" using assms(4-6) by auto
  have c: "tm_InputTokens (parseMetrics (any_gjson parse) now modelID start (Some usage_doc) (Some timings_doc)) = 25"
    "tm_OutputTokens (parseMetrics (any_gjson parse) now modelID start (Some usage_doc) (Some timings_doc)) = 10"
    by (simp_all add: parseMetrics_def any_gjson_def usage_doc_def timings_doc_def)
  show ?thesis unfolding body usage_line_read [OF assms(2,3) u ne] using c by simp
qed

subsection \<open>The slow answer\<close>

lemma runes_ascii: "list_all (in_byte 0 127) s \<Longrightarrow> runes s = map (\<lambda>c. [c]) s"
proof (induction s)
  case (Cons c s)
  then show ?case by (subst runes.simps) (simp add: rune_length_def)
qed (simp add: runes.simps)

text \<open>A plain text is echoed whole, a byte at a time, with a wait after each.\<close>

lemma slow_echo:
  assumes "sq_query r ''echo'' \<noteq> []" "list_all (in_byte 0 127) (sq_query r ''echo'')"
    and "sq_query r ''delay'' = d" "d \<noteq> []" "sr_duration lib d = Inr t"
  shows "sr_written (sa_out (slowRespond lib r)) = sq_query r ''echo''
    \<and> length (filter ((=) (SrWait t)) (sa_out (slowRespond lib r))) = length (sq_query r ''echo'')"
proof -
  have "sr_written (concat (map (\<lambda>ch. [SrWrite ch, SrFlush, SrWait t]) (map (\<lambda>c. [c]) s))) = s" for s
    by (induction s) simp_all
  moreover have "length (filter ((=) (SrWait t)) (concat (map (\<lambda>ch. [SrWrite ch, SrFlush, SrWait t]) (map (\<lambda>c. [c]) s)))) = length s" for s :: string
    by (induction s) simp_all
  ultimately show ?thesis using assms by (simp add: slowRespond_def Let_def runes_ascii)
qed

end
